(* ===== verification/Prelude.thy ===== *)
theory Prelude
  imports Complex_Main
    "HOL-Library.Word"
    "HOL-Library.FSet"
    "HOL-Library.Finite_Map"
    "HOL-Library.Product_Lexorder"
begin

text \<open>
  What every component of the library shares: the machine integers of the Rust code as words,
  \<open>Result\<close> as a sum, byte vectors and the big-endian conversions of the standard library,
  \<open>HashMap\<close> and \<open>HashSet\<close> as the finite maps and finite sets of HOL-Library, and two
  generic interfaces: a step function that keeps an invariant, and a quorum rule.
  Arithmetic on the unsigned types wraps around, as it does in the release profile.
\<close>

section \<open>Types\<close>

type_synonym u8 = "8 word"
type_synonym u32 = "32 word"
type_synonym u64 = "64 word"
type_synonym usize = "64 word"
type_synonym bytes = "8 word list"

type_synonym ('e, 'a) result = "'e + 'a"

abbreviation Err :: "'e \<Rightarrow> ('e, 'a) result" where "Err \<equiv> Inl"
abbreviation Ok :: "'a \<Rightarrow> ('e, 'a) result" where "Ok \<equiv> Inr"

text \<open>\<open>is_ok\<close> and \<open>is_err\<close> of \<open>Result\<close>.\<close>

abbreviation is_ok :: "('e, 'a) result \<Rightarrow> bool" where "is_ok r \<equiv> \<not> isl r"

named_theorems codec_simps \<open>widths and round trips of byte encodings\<close>
named_theorems inv_intros \<open>preservation of component invariants\<close>

section \<open>Big-endian integers\<close>

text \<open>\<open>to_be_bytes\<close> of an integer of \<open>k\<close> bytes, and \<open>from_be_bytes\<close>.\<close>

fun be_bytes :: "nat \<Rightarrow> nat \<Rightarrow> bytes" where
  "be_bytes 0 n = []"
| "be_bytes (Suc k) n = be_bytes k (n div 256) @ [word_of_nat n]"

definition be_value :: "bytes \<Rightarrow> nat" where
  "be_value bs = foldl (\<lambda>a b. a * 256 + unat b) 0 bs"

definition u64_to_be_bytes :: "u64 \<Rightarrow> bytes" where
  "u64_to_be_bytes w = be_bytes 8 (unat w)"

definition u64_from_be_bytes :: "bytes \<Rightarrow> u64" where
  "u64_from_be_bytes bs = word_of_nat (be_value bs)"

definition u32_to_be_bytes :: "u32 \<Rightarrow> bytes" where
  "u32_to_be_bytes w = be_bytes 4 (unat w)"

definition u32_from_be_bytes :: "bytes \<Rightarrow> u32" where
  "u32_from_be_bytes bs = word_of_nat (be_value bs)"

lemma length_be_bytes [simp, codec_simps]: "length (be_bytes k n) = k"
  by (induction k arbitrary: n) auto

lemma be_value_Nil [simp]: "be_value [] = 0"
  by (simp add: be_value_def)

lemma be_value_snoc [simp]: "be_value (bs @ [b]) = be_value bs * 256 + unat b"
  by (simp add: be_value_def)

lemma unat_byte_of_nat: "unat (word_of_nat n :: u8) = n mod 256"
  by (simp add: unat_of_nat)

lemma be_value_be_bytes: "be_value (be_bytes k n) = n mod 256 ^ k"
proof (induction k arbitrary: n)
  case 0
  then show ?case by simp
next
  case (Suc k)
  have "be_value (be_bytes (Suc k) n) = (n div 256) mod 256 ^ k * 256 + n mod 256"
    by (simp add: Suc.IH unat_byte_of_nat)
  also have "\<dots> = n mod (256 * 256 ^ k)"
    by (simp add: mod_mult2_eq)
  finally show ?case by simp
qed

lemma be_value_less: "be_value bs < 256 ^ length bs"
proof (induction bs rule: rev_induct)
  case Nil
  then show ?case by simp
next
  case (snoc b bs)
  have "unat b < 256" using unsigned_less [of b] by simp
  moreover have "be_value bs + 1 \<le> 256 ^ length bs" using snoc.IH by simp
  then have "(be_value bs + 1) * 256 \<le> 256 ^ length bs * 256" by (rule mult_right_mono) simp
  ultimately show ?case by simp
qed

lemma be_bytes_be_value: "length bs = k \<Longrightarrow> be_bytes k (be_value bs) = bs"
proof (induction bs arbitrary: k rule: rev_induct)
  case Nil
  then show ?case by simp
next
  case (snoc b bs)
  then obtain j where k: "k = Suc j" "length bs = j" by (cases k) auto
  have b: "unat b < 256" using unsigned_less [of b] by simp
  have "(be_value bs * 256 + unat b) div 256 = be_value bs" using b by simp
  moreover have "word_of_nat (be_value bs * 256 + unat b) = b"
  proof -
    have "unat (word_of_nat (be_value bs * 256 + unat b) :: u8) = unat b"
      using b by (simp only: unat_byte_of_nat) (simp add: mod_add_eq)
    then show ?thesis by (simp only: word_unat_eq_iff)
  qed
  ultimately show ?case using snoc.IH [OF k(2)] k by simp
qed

lemma length_u64_to_be_bytes [simp, codec_simps]: "length (u64_to_be_bytes w) = 8"
  by (simp add: u64_to_be_bytes_def)

lemma length_u32_to_be_bytes [simp, codec_simps]: "length (u32_to_be_bytes w) = 4"
  by (simp add: u32_to_be_bytes_def)

lemma u64_roundtrip [simp, codec_simps]: "u64_from_be_bytes (u64_to_be_bytes w) = w"
proof -
  have "unat w < 256 ^ 8" using unsigned_less [of w] by simp
  then show ?thesis
    by (simp add: u64_from_be_bytes_def u64_to_be_bytes_def be_value_be_bytes)
qed

lemma u32_roundtrip [simp, codec_simps]: "u32_from_be_bytes (u32_to_be_bytes w) = w"
proof -
  have "unat w < 256 ^ 4" using unsigned_less [of w] by simp
  then show ?thesis
    by (simp add: u32_from_be_bytes_def u32_to_be_bytes_def be_value_be_bytes)
qed

lemma u64_reprint: "length bs = 8 \<Longrightarrow> u64_to_be_bytes (u64_from_be_bytes bs) = bs"
  using be_value_less [of bs]
  by (simp add: u64_from_be_bytes_def u64_to_be_bytes_def unat_of_nat be_bytes_be_value)

lemma u32_reprint: "length bs = 4 \<Longrightarrow> u32_to_be_bytes (u32_from_be_bytes bs) = bs"
  using be_value_less [of bs]
  by (simp add: u32_from_be_bytes_def u32_to_be_bytes_def unat_of_nat be_bytes_be_value)

lemma u64_to_be_bytes_inject [simp]: "u64_to_be_bytes v = u64_to_be_bytes w \<longleftrightarrow> v = w"
  by (metis u64_roundtrip)

lemma u32_to_be_bytes_inject [simp]: "u32_to_be_bytes v = u32_to_be_bytes w \<longleftrightarrow> v = w"
  by (metis u32_roundtrip)

text \<open>Casts between the widths.\<close>

lemma unat_ucast_u64 [simp]: "unat (ucast (w :: u32) :: u64) = unat w"
proof -
  have "unat w < 2 ^ 32" using unsigned_less [of w] by simp
  then show ?thesis by (simp add: unsigned_ucast_eq take_bit_nat_eq_self_iff)
qed

lemma ucast_u64_inject [simp]: "(ucast (v :: u32) :: u64) = ucast w \<longleftrightarrow> v = w"
  by (metis unat_ucast_u64 word_unat_eq_iff)

text \<open>A Rust slice \<open>&bytes[a..b]\<close> whose bounds the caller has checked.\<close>

definition slice :: "nat \<Rightarrow> nat \<Rightarrow> 'a list \<Rightarrow> 'a list" where
  "slice a b xs = take (b - a) (drop a xs)"

lemma slice_append_left [simp]: "b \<le> length xs \<Longrightarrow> slice a b (xs @ ys) = slice a b xs"
  by (simp add: slice_def)

lemma slice_append_right:
  "length xs \<le> a \<Longrightarrow> slice a b (xs @ ys) = slice (a - length xs) (b - length xs) ys"
  by (simp add: slice_def)

lemma slice_whole [simp]: "b = length xs \<Longrightarrow> slice 0 b xs = xs"
  by (simp add: slice_def)

lemma length_slice [simp]: "b \<le> length xs \<Longrightarrow> length (slice a b xs) = b - a"
  by (simp add: slice_def)

lemma slice_join: "a \<le> b \<Longrightarrow> b \<le> c \<Longrightarrow> slice a b xs @ slice b c xs = slice a c xs"
proof -
  assume "a \<le> b" "b \<le> c"
  then have "c - a = (b - a) + (c - b)" "drop b xs = drop (b - a) (drop a xs)" by simp_all
  then show ?thesis by (simp only: slice_def take_add)
qed

section \<open>Hash maps and hash sets\<close>

text \<open>
  \<open>HashMap<K, V>\<close> is \<open>('k, 'v) fmap\<close> and \<open>HashSet<K>\<close> is \<open>'k fset\<close>.
  \<open>insert\<close> is \<^const>\<open>fmupd\<close>, \<open>get\<close> is \<^const>\<open>fmlookup\<close>, \<open>retain\<close> on keys is
  \<^const>\<open>fmfilter\<close>. The iteration order of the Rust maps is unspecified; where the code
  iterates, the model goes through the keys in increasing order, and the theorems about the
  result say when the order does not matter.
\<close>

definition hm_len :: "('k, 'v) fmap \<Rightarrow> nat" where
  "hm_len m = fcard (fmdom m)"

definition hm_contains :: "('k, 'v) fmap \<Rightarrow> 'k \<Rightarrow> bool" where
  "hm_contains m k = (fmlookup m k \<noteq> None)"

text \<open>\<open>m.entry(k).or_default()\<close>, read.\<close>

definition hm_entry :: "('k, ('i, 'v) fmap) fmap \<Rightarrow> 'k \<Rightarrow> ('i, 'v) fmap" where
  "hm_entry m k = (case fmlookup m k of None \<Rightarrow> fmempty | Some v \<Rightarrow> v)"

text \<open>\<open>m.values().any(p)\<close>.\<close>

definition hm_any :: "('v \<Rightarrow> bool) \<Rightarrow> ('k, 'v) fmap \<Rightarrow> bool" where
  "hm_any p m = fBex (fmdom m) (\<lambda>k. p (the (fmlookup m k)))"

text \<open>\<open>m.iter()\<close> and \<open>m.values()\<close>, in key order.\<close>

definition hm_items :: "('k::linorder, 'v) fmap \<Rightarrow> ('k \<times> 'v) list" where
  "hm_items m = map (\<lambda>k. (k, the (fmlookup m k))) (sorted_list_of_fset (fmdom m))"

definition hm_values :: "('k::linorder, 'v) fmap \<Rightarrow> 'v list" where
  "hm_values m = map snd (hm_items m)"

lemma hm_len_empty [simp]: "hm_len fmempty = 0"
  by (simp add: hm_len_def)

lemma hm_len_upd [simp]:
  "hm_len (fmupd k v m) = (if fmlookup m k = None then Suc (hm_len m) else hm_len m)"
  by (auto simp: hm_len_def fcard_finsert_if fmlookup_dom_iff)

lemma hm_contains_empty [simp]: "\<not> hm_contains fmempty k"
  by (simp add: hm_contains_def)

lemma hm_contains_upd [simp]: "hm_contains (fmupd k v m) j \<longleftrightarrow> k = j \<or> hm_contains m j"
  by (simp add: hm_contains_def)

lemma hm_any_iff: "hm_any p m \<longleftrightarrow> (\<exists>k v. fmlookup m k = Some v \<and> p v)"
  by (force simp: hm_any_def fmlookup_dom_iff)

lemma hm_anyI: "fmlookup m k = Some v \<Longrightarrow> p v \<Longrightarrow> hm_any p m"
  by (auto simp: hm_any_iff)

lemma hm_any_empty [simp]: "\<not> hm_any p fmempty"
  by (simp add: hm_any_iff)

lemma hm_any_cong:
  "(\<And>k v. fmlookup m k = Some v \<Longrightarrow> p v = q v) \<Longrightarrow> hm_any p m = hm_any q m"
  by (auto simp: hm_any_iff)

lemma hm_entry_lookup: "fmlookup m k = Some v \<Longrightarrow> hm_entry m k = v"
  by (simp add: hm_entry_def)

lemma hm_entry_empty [simp]: "hm_entry fmempty k = fmempty"
  by (simp add: hm_entry_def)

lemma hm_entry_upd [simp]: "hm_entry (fmupd k v m) j = (if k = j then v else hm_entry m j)"
  by (simp add: hm_entry_def)

lemma hm_entry_SomeD:
  "fmlookup (hm_entry m k) i = Some x \<Longrightarrow>
    \<exists>v. fmlookup m k = Some v \<and> fmlookup v i = Some x"
  by (auto simp: hm_entry_def split: option.splits)

lemma set_hm_items: "set (hm_items m) = {(k, v). fmlookup m k = Some v}"
  by (force simp: hm_items_def fmlookup_dom_iff)

lemma set_hm_values: "set (hm_values m) = {v. \<exists>k. fmlookup m k = Some v}"
  by (force simp: hm_values_def set_hm_items)

lemma length_hm_items [simp]: "length (hm_items m) = hm_len m"
  by (simp add: hm_items_def hm_len_def fcard.rep_eq sorted_list_of_fset.rep_eq)

lemma distinct_hm_items: "distinct (map fst (hm_items m))"
  by (simp add: hm_items_def comp_def sorted_list_of_fset.rep_eq)

text \<open>A set of 32-bit identifiers is counted without wrapping.\<close>

lemma fcard_u32_bound: "fcard (S :: u32 fset) \<le> 2 ^ 32"
proof -
  have "card (fset S) \<le> card (UNIV :: u32 set)" by (rule card_mono) simp_all
  then show ?thesis by (simp add: fcard.rep_eq card_word)
qed

lemma unat_fcard_u32: "unat (word_of_nat (fcard (S :: u32 fset)) :: u64) = fcard S"
  using fcard_u32_bound [of S] by (simp add: unat_of_nat)

lemma length_sorted_list_of_fset [simp]: "length (sorted_list_of_fset S) = fcard S"
  by (simp add: fcard.rep_eq sorted_list_of_fset.rep_eq)

lemma fmlookup_filterD: "fmlookup (fmfilter P m) k = Some v \<Longrightarrow> P k \<and> fmlookup m k = Some v"
  by (simp split: if_splits)

section \<open>Generic interfaces\<close>

text \<open>
  A component driven by events: a step function under an environment (its parameters) and an
  invariant every step keeps. The component's theory interprets it, and gets the invariant of
  every run.
\<close>

locale step_system =
  fixes step :: "'c \<Rightarrow> 'e \<Rightarrow> 's \<Rightarrow> 's"
    and inv :: "'c \<Rightarrow> 's \<Rightarrow> bool"
  assumes step_inv: "inv c s \<Longrightarrow> inv c (step c e s)"
begin

lemma run_inv: "inv c s \<Longrightarrow> inv c (fold (step c) es s)"
  by (induction es arbitrary: s) (auto intro: step_inv)

lemma run_prefix_inv:
  "inv c s \<Longrightarrow> inv c (fold (step c) (take n es) s)"
  by (rule run_inv)

end

text \<open>
  A quorum rule: for configurations that satisfy \<open>valid\<close>, two vote sets of at least
  \<open>thr\<close> members among \<open>total\<close> voters share more than \<open>byz\<close> members.
\<close>

locale quorum_rule =
  fixes valid :: "'c \<Rightarrow> bool"
    and total :: "'c \<Rightarrow> nat"
    and byz :: "'c \<Rightarrow> nat"
    and thr :: "'c \<Rightarrow> nat"
  assumes overlap: "valid c \<Longrightarrow> total c + byz c < 2 * thr c"
begin

lemma intersection:
  assumes v: "valid c" and A: "finite A" "card A \<le> total c"
    and P: "P \<subseteq> A" "thr c \<le> card P" and Q: "Q \<subseteq> A" "thr c \<le> card Q"
  shows "byz c < card (P \<inter> Q)"
proof -
  have "finite P" "finite Q" using A P Q finite_subset by blast+
  then have "card P + card Q = card (P \<union> Q) + card (P \<inter> Q)" by (rule card_Un_Int)
  moreover have "card (P \<union> Q) \<le> card A" using A P Q by (simp add: card_mono)
  ultimately show ?thesis using overlap [OF v] A P Q by linarith
qed

lemma honest_member:
  assumes "valid c" and "finite A" "card A \<le> total c"
    and "P \<subseteq> A" "thr c \<le> card P" and "Q \<subseteq> A" "thr c \<le> card Q"
    and B: "finite B" "card B \<le> byz c"
  shows "\<exists>i \<in> P \<inter> Q. i \<notin> B"
proof (rule ccontr)
  assume "\<not> (\<exists>i \<in> P \<inter> Q. i \<notin> B)"
  then have "P \<inter> Q \<subseteq> B" by blast
  then have "card (P \<inter> Q) \<le> card B" by (rule card_mono [OF B(1)])
  then show False using intersection [OF assms(1-7)] B(2) by linarith
qed

end

end
