(* ===== verification/Curve.thy ===== *)
theory Curve
  imports Prelude
begin

text \<open>
  The crates \<open>bls12_381\<close>, \<open>ff\<close>, \<open>group\<close> and \<open>sha2\<close> are not part of the repository. What the
  code calls of them is one record of operations, an argument of every definition that uses it:
  scalars are elements of a field \<open>'s\<close> (\<open>Scalar\<close>), \<open>'g1\<close> and \<open>'g2\<close> are the groups of
  \<open>G1Projective\<close> and \<open>G2Projective\<close> written additively, as the crate writes them, and
  \<open>'gt\<close> is the target group. Affine and projective coordinates of a point are not told apart:
  \<open>to_affine\<close> and \<open>from\<close> change the representation only. Points and scalars compare by value.
  The documented behaviour the theorems need is named by three predicates: the module laws of the
  scalar multiplications, the bilinear pairing, and the canonical encodings.
  The theory also holds the polynomial loops that every key-generation module writes out, and
  Lagrange interpolation at zero.
\<close>

section \<open>The operations of the curve library\<close>

record ('s, 'g1, 'g2, 'gt) bls =
  g1_generator :: 'g1
  g2_generator :: 'g2
  g1_mul :: "'g1 \<Rightarrow> 's \<Rightarrow> 'g1"
  g2_mul :: "'g2 \<Rightarrow> 's \<Rightarrow> 'g2"
  pairing :: "'g1 \<Rightarrow> 'g2 \<Rightarrow> 'gt"
  hash_to_curve :: "bytes \<Rightarrow> bytes \<Rightarrow> 'g1" \<comment> \<open>message, domain separation tag\<close>
  scalar_from_u64 :: "u64 \<Rightarrow> 's"
  scalar_to_bytes :: "'s \<Rightarrow> bytes"
  scalar_from_bytes :: "bytes \<Rightarrow> 's option"
  scalar_from_bytes_wide :: "bytes \<Rightarrow> 's"
  g1_to_compressed :: "'g1 \<Rightarrow> bytes"
  g1_from_compressed :: "bytes \<Rightarrow> 'g1 option"
  g2_to_compressed :: "'g2 \<Rightarrow> bytes"
  g2_from_compressed :: "bytes \<Rightarrow> 'g2 option"

text \<open>\<open>Scalar::invert\<close>: a \<open>CtOption\<close> that is none for zero.\<close>

definition scalar_invert :: "'s::field \<Rightarrow> 's option" where
  "scalar_invert x = (if x = 0 then None else Some (inverse x))"

lemma scalar_invert_Some [simp]: "x \<noteq> 0 \<Longrightarrow> scalar_invert x = Some (inverse x)"
  by (simp add: scalar_invert_def)

lemma scalar_invert_zero [simp]: "scalar_invert 0 = None"
  by (simp add: scalar_invert_def)

section \<open>What the code relies on\<close>

text \<open>Scalar multiplication makes both groups modules over the scalar field, and
  \<open>Scalar::from(u64)\<close> is injective (the field is larger than 64 bits).\<close>

definition scalar_laws ::
  "('s::field, 'g1::ab_group_add, 'g2::ab_group_add, 'gt) bls \<Rightarrow> bool" where
  "scalar_laws C \<longleftrightarrow>
     (\<forall>P Q k. g1_mul C (P + Q) k = g1_mul C P k + g1_mul C Q k) \<and>
     (\<forall>P k l. g1_mul C P (k + l) = g1_mul C P k + g1_mul C P l) \<and>
     (\<forall>P k l. g1_mul C (g1_mul C P k) l = g1_mul C P (k * l)) \<and>
     (\<forall>P. g1_mul C P 1 = P) \<and>
     (\<forall>P Q k. g2_mul C (P + Q) k = g2_mul C P k + g2_mul C Q k) \<and>
     (\<forall>P k l. g2_mul C P (k + l) = g2_mul C P k + g2_mul C P l) \<and>
     (\<forall>P k l. g2_mul C (g2_mul C P k) l = g2_mul C P (k * l)) \<and>
     (\<forall>P. g2_mul C P 1 = P) \<and>
     inj (scalar_from_u64 C)"

text \<open>The generator of the prime-order group \<open>'g2\<close> determines the scalar.\<close>

definition g2_generator_faithful ::
  "('s::field, 'g1, 'g2, 'gt) bls \<Rightarrow> bool" where
  "g2_generator_faithful C \<longleftrightarrow> inj (g2_mul C (g2_generator C))"

text \<open>The pairing moves scalars from one side to the other, and it is not degenerate at the
  generator.\<close>

definition pairing_laws ::
  "('s::field, 'g1::ab_group_add, 'g2::ab_group_add, 'gt) bls \<Rightarrow> bool" where
  "pairing_laws C \<longleftrightarrow>
     (\<forall>P Q k. pairing C (g1_mul C P k) Q = pairing C P (g2_mul C Q k)) \<and>
     (\<forall>P P'. pairing C P (g2_generator C) = pairing C P' (g2_generator C) \<longrightarrow> P = P')"

text \<open>Compressed points of \<open>'g1\<close> have 48 bytes, those of \<open>'g2\<close> 96 and scalars 32; decoding
  inverts encoding, and only canonical encodings decode.\<close>

definition g1_codec_laws :: "('s, 'g1, 'g2, 'gt) bls \<Rightarrow> bool" where
  "g1_codec_laws C \<longleftrightarrow>
     (\<forall>P. length (g1_to_compressed C P) = 48 \<and>
          g1_from_compressed C (g1_to_compressed C P) = Some P) \<and>
     (\<forall>bs P. g1_from_compressed C bs = Some P \<longrightarrow> g1_to_compressed C P = bs)"

definition g2_codec_laws :: "('s, 'g1, 'g2, 'gt) bls \<Rightarrow> bool" where
  "g2_codec_laws C \<longleftrightarrow>
     (\<forall>P. length (g2_to_compressed C P) = 96 \<and>
          g2_from_compressed C (g2_to_compressed C P) = Some P) \<and>
     (\<forall>bs P. g2_from_compressed C bs = Some P \<longrightarrow> g2_to_compressed C P = bs)"

definition scalar_codec_laws :: "('s, 'g1, 'g2, 'gt) bls \<Rightarrow> bool" where
  "scalar_codec_laws C \<longleftrightarrow>
     (\<forall>x. length (scalar_to_bytes C x) = 32 \<and>
          scalar_from_bytes C (scalar_to_bytes C x) = Some x) \<and>
     (\<forall>bs x. scalar_from_bytes C bs = Some x \<longrightarrow> scalar_to_bytes C x = bs)"

lemma scalar_lawsD:
  assumes "scalar_laws C"
  shows g1_mul_add: "g1_mul C (P + Q) k = g1_mul C P k + g1_mul C Q k"
    and g1_mul_add_scalar: "g1_mul C P (k + l) = g1_mul C P k + g1_mul C P l"
    and g1_mul_mul: "g1_mul C (g1_mul C P k) l = g1_mul C P (k * l)"
    and g1_mul_one: "g1_mul C P 1 = P"
    and g2_mul_add: "g2_mul C (P' + Q') k = g2_mul C P' k + g2_mul C Q' k"
    and g2_mul_add_scalar: "g2_mul C P' (k + l) = g2_mul C P' k + g2_mul C P' l"
    and g2_mul_mul: "g2_mul C (g2_mul C P' k) l = g2_mul C P' (k * l)"
    and g2_mul_one: "g2_mul C P' 1 = P'"
    and scalar_from_u64_inj: "scalar_from_u64 C a = scalar_from_u64 C b \<Longrightarrow> a = b"
  using assms by (auto simp: scalar_laws_def dest: injD)

lemma g1_mul_zero_scalar: "scalar_laws C \<Longrightarrow> g1_mul C P 0 = 0"
  using g1_mul_add_scalar [of C P 0 0] by simp

lemma g2_mul_zero_scalar: "scalar_laws C \<Longrightarrow> g2_mul C P 0 = 0"
  using g2_mul_add_scalar [of C P 0 0] by simp

lemma g1_mul_zero_point: "scalar_laws C \<Longrightarrow> g1_mul C 0 k = 0"
  using g1_mul_add [of C 0 0 k] by simp

lemma g2_mul_zero_point: "scalar_laws C \<Longrightarrow> g2_mul C 0 k = 0"
  using g2_mul_add [of C 0 0 k] by simp

lemma g1_mul_sum:
  "scalar_laws C \<Longrightarrow> (\<Sum>i\<in>S. g1_mul C P (f i)) = g1_mul C P (sum f S)"
  by (induction S rule: infinite_finite_induct)
    (simp_all add: g1_mul_zero_scalar g1_mul_add_scalar)

lemma g2_mul_sum:
  "scalar_laws C \<Longrightarrow> (\<Sum>i\<in>S. g2_mul C P (f i)) = g2_mul C P (sum f S)"
  by (induction S rule: infinite_finite_induct)
    (simp_all add: g2_mul_zero_scalar g2_mul_add_scalar)

text \<open>The encoding of one point or scalar.\<close>

definition g1_encodable :: "('s, 'g1, 'g2, 'gt) bls \<Rightarrow> 'g1 \<Rightarrow> bool" where
  "g1_encodable C P \<longleftrightarrow> length (g1_to_compressed C P) = 48 \<and>
     g1_from_compressed C (g1_to_compressed C P) = Some P"

definition g2_encodable :: "('s, 'g1, 'g2, 'gt) bls \<Rightarrow> 'g2 \<Rightarrow> bool" where
  "g2_encodable C P \<longleftrightarrow> length (g2_to_compressed C P) = 96 \<and>
     g2_from_compressed C (g2_to_compressed C P) = Some P"

definition scalar_encodable :: "('s, 'g1, 'g2, 'gt) bls \<Rightarrow> 's \<Rightarrow> bool" where
  "scalar_encodable C x \<longleftrightarrow> length (scalar_to_bytes C x) = 32 \<and>
     scalar_from_bytes C (scalar_to_bytes C x) = Some x"

lemma g1_encodableI: "g1_codec_laws C \<Longrightarrow> g1_encodable C P"
  by (simp add: g1_encodable_def g1_codec_laws_def)

lemma g2_encodableI: "g2_codec_laws C \<Longrightarrow> g2_encodable C P"
  by (simp add: g2_encodable_def g2_codec_laws_def)

lemma scalar_encodableI: "scalar_codec_laws C \<Longrightarrow> scalar_encodable C x"
  by (simp add: scalar_encodable_def scalar_codec_laws_def)

lemma g1_codecD:
  assumes "g1_codec_laws C"
  shows g1_compressed_length: "length (g1_to_compressed C P) = 48"
    and g1_compressed_roundtrip: "g1_from_compressed C (g1_to_compressed C P) = Some P"
    and g1_compressed_canonical: "g1_from_compressed C bs = Some P \<Longrightarrow> g1_to_compressed C P = bs"
  using assms by (auto simp: g1_codec_laws_def)

lemma g2_codecD:
  assumes "g2_codec_laws C"
  shows g2_compressed_length: "length (g2_to_compressed C P) = 96"
    and g2_compressed_roundtrip: "g2_from_compressed C (g2_to_compressed C P) = Some P"
    and g2_compressed_canonical: "g2_from_compressed C bs = Some P \<Longrightarrow> g2_to_compressed C P = bs"
  using assms by (auto simp: g2_codec_laws_def)

lemma scalar_codecD:
  assumes "scalar_codec_laws C"
  shows scalar_bytes_length: "length (scalar_to_bytes C x) = 32"
    and scalar_bytes_roundtrip: "scalar_from_bytes C (scalar_to_bytes C x) = Some x"
    and scalar_bytes_canonical: "scalar_from_bytes C bs = Some x \<Longrightarrow> scalar_to_bytes C x = bs"
  using assms by (auto simp: scalar_codec_laws_def)

section \<open>Polynomial loops\<close>

text \<open>
  The loop every share evaluation writes:
  \<open>for c in coeffs { y += c * pow; pow *= x; }\<close>, from zero and one.
\<close>

fun poly_loop :: "'s::comm_ring_1 list \<Rightarrow> 's \<Rightarrow> 's \<Rightarrow> 's \<Rightarrow> 's" where
  "poly_loop [] x y pow = y"
| "poly_loop (c # cs) x y pow = poly_loop cs x (y + c * pow) (pow * x)"

text \<open>The same loop in the exponent: \<open>for c in commitments { acc += c * pow; pow *= x; }\<close>.\<close>

fun commit_loop ::
  "('s::field, 'g1, 'g2::ab_group_add, 'gt) bls \<Rightarrow> 'g2 list \<Rightarrow> 's \<Rightarrow> 'g2 \<Rightarrow> 's \<Rightarrow> 'g2" where
  "commit_loop C [] x acc pow = acc"
| "commit_loop C (c # cs) x acc pow = commit_loop C cs x (acc + g2_mul C c pow) (pow * x)"

definition poly_eval :: "'s::comm_ring_1 list \<Rightarrow> 's \<Rightarrow> 's" where
  "poly_eval cs x = (\<Sum>k<length cs. cs ! k * x ^ k)"

lemma poly_eval_Nil [simp]: "poly_eval [] x = 0"
  by (simp add: poly_eval_def)

lemma poly_eval_Cons: "poly_eval (c # cs) x = c + x * poly_eval cs x"
  by (simp add: poly_eval_def sum.lessThan_Suc_shift sum_distrib_left mult_ac
      del: sum.lessThan_Suc)

lemma poly_eval_zero: "cs \<noteq> [] \<Longrightarrow> poly_eval cs 0 = hd cs"
  by (cases cs) (simp_all add: poly_eval_Cons)

lemma poly_loop_acc: "poly_loop cs x y pow = y + pow * poly_eval cs x"
  by (induction cs arbitrary: y pow) (simp_all add: poly_eval_Cons algebra_simps)

lemma poly_loop_eval: "poly_loop cs x 0 1 = poly_eval cs x"
  by (simp add: poly_loop_acc)

text \<open>Commitments to the coefficients evaluate to the commitment to the value.\<close>

lemma commit_loop_acc:
  assumes "scalar_laws C"
  shows "commit_loop C (map (g2_mul C G) cs) x acc pow = acc + g2_mul C G (pow * poly_eval cs x)"
proof (induction cs arbitrary: acc pow)
  case Nil
  show ?case by (simp add: g2_mul_zero_scalar [OF assms])
next
  case (Cons c cs)
  then show ?case
    by (simp add: g2_mul_mul [OF assms] poly_eval_Cons algebra_simps
        flip: g2_mul_add_scalar [OF assms])
qed

lemma commit_loop_commitments:
  assumes "scalar_laws C"
  shows "commit_loop C (map (g2_mul C G) cs) x 0 1 = g2_mul C G (poly_eval cs x)"
  by (simp add: commit_loop_acc [OF assms])

text \<open>Adding two polynomials coefficient by coefficient adds their values.\<close>

lemma poly_eval_add:
  "length cs = length ds \<Longrightarrow>
    poly_eval (map2 (+) cs ds) x = poly_eval cs x + poly_eval ds x"
  by (simp add: poly_eval_def sum.distrib algebra_simps)

section \<open>Lagrange interpolation at zero\<close>

text \<open>The coefficient of the share at \<open>x i\<close> among the points \<open>x j\<close>, \<open>j\<close> in \<open>S\<close>.\<close>

definition lagrange_coeff :: "('i \<Rightarrow> 's::field) \<Rightarrow> 'i set \<Rightarrow> 'i \<Rightarrow> 's" where
  "lagrange_coeff x S i = (\<Prod>j\<in>S - {i}. - x j / (x i - x j))"

lemma lagrange_coeff_step:
  assumes "finite S" "inj_on x S" "a \<in> S" "i \<in> S" "i \<noteq> a"
  shows "(x i - x a) * lagrange_coeff x S i = - x a * lagrange_coeff x (S - {a}) i"
proof -
  have ne: "x i - x a \<noteq> 0" using assms by (auto dest: inj_onD)
  have "S - {i} = insert a (S - {a} - {i})" using assms by auto
  then have "lagrange_coeff x S i =
      - x a / (x i - x a) * (\<Prod>j\<in>S - {a} - {i}. - x j / (x i - x j))"
    using assms(1) by (simp add: lagrange_coeff_def)
  then show ?thesis using ne by (simp add: lagrange_coeff_def)
qed

lemma lagrange_shift:
  assumes S: "finite S" "inj_on x S" "a \<in> S"
  shows "(\<Sum>i\<in>S. (x i - x a) * h i * lagrange_coeff x S i) =
    - x a * (\<Sum>i\<in>S - {a}. h i * lagrange_coeff x (S - {a}) i)"
proof -
  have "(\<Sum>i\<in>S. (x i - x a) * h i * lagrange_coeff x S i) =
      (\<Sum>i\<in>S - {a}. h i * ((x i - x a) * lagrange_coeff x S i))"
    using S by (subst sum.remove [of S a]) (simp_all add: mult_ac)
  also have "\<dots> = (\<Sum>i\<in>S - {a}. h i * (- x a * lagrange_coeff x (S - {a}) i))"
    using S by (intro sum.cong refl) (metis DiffE insertCI lagrange_coeff_step)
  also have "\<dots> = - x a * (\<Sum>i\<in>S - {a}. h i * lagrange_coeff x (S - {a}) i)"
    by (subst sum_distrib_left) (simp add: mult_ac)
  finally show ?thesis .
qed

lemma lagrange_one:
  "finite S \<Longrightarrow> inj_on x S \<Longrightarrow> S \<noteq> {} \<Longrightarrow> (\<Sum>i\<in>S. lagrange_coeff x S i) = 1"
proof (induction "card S" arbitrary: S rule: less_induct)
  case (less S)
  obtain a where a: "a \<in> S" using less.prems by blast
  show ?case
  proof (cases "S = {a}")
    case True
    then show ?thesis by (simp add: lagrange_coeff_def)
  next
    case False
    then obtain b where b: "b \<in> S" "b \<noteq> a" using a by blast
    have IH: "(\<Sum>i\<in>S - {c}. lagrange_coeff x (S - {c}) i) = 1"
      if "c \<in> S" "S - {c} \<noteq> {}" for c
      using less.hyps [of "S - {c}"] less.prems that
      by (metis card_Diff1_less finite_Diff inj_on_diff)
    have shift: "(\<Sum>i\<in>S. (x i - x c) * lagrange_coeff x S i) = - x c"
      if "c \<in> S" "S - {c} \<noteq> {}" for c
      using lagrange_shift [OF less.prems(1,2) that(1), of "\<lambda>_. 1"] IH [OF that] by simp
    have "(x b - x a) * (\<Sum>i\<in>S. lagrange_coeff x S i) =
        (\<Sum>i\<in>S. (x i - x a) * lagrange_coeff x S i) - (\<Sum>i\<in>S. (x i - x b) * lagrange_coeff x S i)"
      by (subst sum_distrib_left, subst sum_subtractf [symmetric])
        (rule sum.cong, simp_all add: algebra_simps)
    also have "\<dots> = x b - x a"
    proof -
      have "S - {a} \<noteq> {}" "S - {b} \<noteq> {}" using a b by blast+
      then show ?thesis using shift [OF a] shift [OF b(1)] by simp
    qed
    finally have "(x b - x a) * (\<Sum>i\<in>S. lagrange_coeff x S i) = x b - x a" .
    moreover have "x b - x a \<noteq> 0" using less.prems a b by (auto dest: inj_onD)
    ultimately show ?thesis by simp
  qed
qed

lemma lagrange_power:
  "finite S \<Longrightarrow> inj_on x S \<Longrightarrow> k < card S \<Longrightarrow>
    (\<Sum>i\<in>S. x i ^ k * lagrange_coeff x S i) = (if k = 0 then 1 else 0)"
proof (induction k arbitrary: S)
  case 0
  then show ?case using lagrange_one [of S x] by (auto simp: card_gt_0_iff)
next
  case (Suc k)
  then obtain a where a: "a \<in> S" by (metis card_gt_0_iff ex_in_conv gr_implies_not0 not_gr0)
  have sub: "finite (S - {a})" "inj_on x (S - {a})" "k < card (S - {a})" "k < card S"
    using Suc.prems a by (auto simp: inj_on_diff)
  have "(\<Sum>i\<in>S. x i ^ Suc k * lagrange_coeff x S i) =
      (\<Sum>i\<in>S. (x i - x a) * x i ^ k * lagrange_coeff x S i) +
      x a * (\<Sum>i\<in>S. x i ^ k * lagrange_coeff x S i)"
    by (subst sum_distrib_left, subst sum.distrib [symmetric])
      (rule sum.cong, simp_all add: algebra_simps)
  also have "\<dots> = 0"
    using lagrange_shift [OF Suc.prems(1,2) a, of "\<lambda>i. x i ^ k"]
      Suc.IH [OF sub(1,2,3)] Suc.IH [OF Suc.prems(1,2) sub(4)]
    by (simp split: if_splits)
  finally show ?case by simp
qed

lemma lagrange_poly:
  assumes "finite S" "inj_on x S" "length cs \<le> card S" "cs \<noteq> []"
  shows "(\<Sum>i\<in>S. poly_eval cs (x i) * lagrange_coeff x S i) = hd cs"
proof -
  have "(\<Sum>i\<in>S. poly_eval cs (x i) * lagrange_coeff x S i) =
      (\<Sum>k<length cs. cs ! k * (\<Sum>i\<in>S. x i ^ k * lagrange_coeff x S i))"
    by (simp add: poly_eval_def sum_distrib_right sum_distrib_left mult.assoc)
      (subst sum.swap, simp)
  also have "\<dots> = (\<Sum>k<length cs. cs ! k * (if k = 0 then 1 else 0))"
    using assms by (intro sum.cong refl) (simp add: lagrange_power)
  also have "\<dots> = hd cs" using assms(4) by (cases cs) (simp_all add: sum.lessThan_Suc_shift del: sum.lessThan_Suc)
  finally show ?thesis .
qed

section \<open>Two instances, for the witnesses\<close>

text \<open>
  The rational line: every group is the additive group of the rationals, a point is its own
  discrete logarithm and the pairing is the product. It satisfies the algebraic laws.
\<close>

definition rat_line :: "(rat, rat, rat, rat) bls" where
  "rat_line = \<lparr>
     g1_generator = 1, g2_generator = 1, g1_mul = (*), g2_mul = (*), pairing = (*),
     hash_to_curve = (\<lambda>msg dst. 1 + of_nat (be_value msg)),
     scalar_from_u64 = (\<lambda>n. of_nat (unat n)),
     scalar_to_bytes = (\<lambda>x. []), scalar_from_bytes = (\<lambda>bs. None),
     scalar_from_bytes_wide = (\<lambda>bs. of_nat (be_value bs)),
     g1_to_compressed = (\<lambda>P. []), g1_from_compressed = (\<lambda>bs. None),
     g2_to_compressed = (\<lambda>P. []), g2_from_compressed = (\<lambda>bs. None)\<rparr>"

lemma rat_line_simps [simp]:
  "g1_generator rat_line = 1" "g2_generator rat_line = 1"
  "g1_mul rat_line P k = P * k" "g2_mul rat_line P k = P * k" "pairing rat_line P Q = P * Q"
  "hash_to_curve rat_line msg dst = 1 + of_nat (be_value msg)"
  "scalar_from_u64 rat_line n = of_nat (unat n)"
  "scalar_from_bytes_wide rat_line bs = of_nat (be_value bs)"
  by (simp_all add: rat_line_def)

lemma rat_line_scalar_laws: "scalar_laws rat_line"
  by (auto simp: scalar_laws_def algebra_simps inj_def intro: unsigned_word_eqI)

lemma rat_line_pairing_laws: "pairing_laws rat_line"
  by (auto simp: pairing_laws_def)

lemma rat_line_faithful: "g2_generator_faithful rat_line"
  by (auto simp: g2_generator_faithful_def inj_def)

text \<open>
  The permissive curve: points are 64-bit words with an encoding padded to the crate's widths, and
  the pairing is constant, so every signature verifies. It satisfies the encoding laws.
\<close>

definition pad_encode :: "nat \<Rightarrow> u64 \<Rightarrow> bytes" where
  "pad_encode k w = replicate k 0 @ u64_to_be_bytes w"

definition pad_decode :: "nat \<Rightarrow> bytes \<Rightarrow> u64 option" where
  "pad_decode k bs =
     (if length bs = k + 8 \<and> take k bs = replicate k 0
      then Some (u64_from_be_bytes (drop k bs)) else None)"

lemma pad_decode_encode [simp]: "pad_decode k (pad_encode k w) = Some w"
  by (simp add: pad_decode_def pad_encode_def)

lemma pad_encode_decode: "pad_decode k bs = Some w \<Longrightarrow> pad_encode k w = bs"
proof -
  assume "pad_decode k bs = Some w"
  then have "length bs = k + 8" "take k bs = replicate k 0" "w = u64_from_be_bytes (drop k bs)"
    by (auto simp: pad_decode_def split: if_splits)
  then show ?thesis
    by (simp add: pad_encode_def u64_reprint) (metis append_take_drop_id)
qed

definition permissive :: "(rat, u64, u64, unit) bls" where
  "permissive = \<lparr>
     g1_generator = 1, g2_generator = 1, g1_mul = (\<lambda>P k. P), g2_mul = (\<lambda>P k. P),
     pairing = (\<lambda>P Q. ()), hash_to_curve = (\<lambda>msg dst. 1),
     scalar_from_u64 = (\<lambda>n. of_nat (unat n)),
     scalar_to_bytes = (\<lambda>x. []), scalar_from_bytes = (\<lambda>bs. None),
     scalar_from_bytes_wide = (\<lambda>bs. of_nat (be_value bs)),
     g1_to_compressed = pad_encode 40, g1_from_compressed = pad_decode 40,
     g2_to_compressed = pad_encode 88, g2_from_compressed = pad_decode 88\<rparr>"

lemma permissive_simps [simp]:
  "pairing permissive P Q = ()"
  "g1_to_compressed permissive = pad_encode 40"
  "g1_from_compressed permissive = pad_decode 40"
  "g2_to_compressed permissive = pad_encode 88"
  "g2_from_compressed permissive = pad_decode 88"
  "scalar_from_u64 permissive n = of_nat (unat n)"
  by (simp_all add: permissive_def)

lemma permissive_g1_codec: "g1_codec_laws permissive"
  by (simp add: g1_codec_laws_def pad_encode_decode) (simp add: pad_encode_def)

lemma permissive_g2_codec: "g2_codec_laws permissive"
  by (simp add: g2_codec_laws_def pad_encode_decode) (simp add: pad_encode_def)

end
