(* ===== verification/Threshold_Bls.thy ===== *)
theory Threshold_Bls
  imports Curve
begin

text \<open>
  \<open>threshold_bls.rs\<close>: BLS signatures over the pairing and the verification of a threshold
  signature by Lagrange interpolation of the shares with the lowest node identifiers.
  The lemmas show that a node's signature verifies under its key, that shares of one polynomial
  always reconstruct the group signature, and that an accepted set of shares reconstructs the
  unique group signature of the message.
\<close>

section \<open>Signing and verifying\<close>

definition pbft_dst :: bytes where
  "pbft_dst = map (\<lambda>c. of_char c) ''SOVEREIGN_LATTICE_PBFT_V1_BLS_SIG''"

definition hash_message_to_curve :: "('s, 'g1, 'g2, 'gt) bls \<Rightarrow> bytes \<Rightarrow> 'g1" where
  "hash_message_to_curve C msg = hash_to_curve C msg pbft_dst"

definition sign_bls_message :: "('s, 'g1, 'g2, 'gt) bls \<Rightarrow> bytes \<Rightarrow> 's \<Rightarrow> 'g1" where
  "sign_bls_message C msg sk = g1_mul C (hash_message_to_curve C msg) sk"

definition verify_bls_signature ::
  "('s, 'g1, 'g2, 'gt) bls \<Rightarrow> bytes \<Rightarrow> 'g1 \<Rightarrow> 'g2 \<Rightarrow> bool" where
  "verify_bls_signature C msg sig pk =
     (let hm = hash_message_to_curve C msg;
          left = pairing C sig (g2_generator C);
          right = pairing C hm pk
      in left = right)"

definition aggregate_signatures :: "'g1::ab_group_add list \<Rightarrow> 'g1" where
  "aggregate_signatures signatures = foldl (\<lambda>agg sig. agg + sig) 0 signatures"

section \<open>The threshold signature\<close>

text \<open>\<open>Scalar::from((node + 1) as u64)\<close>, the sum on 32 bits.\<close>

definition x_coord :: "('s, 'g1, 'g2, 'gt) bls \<Rightarrow> u32 \<Rightarrow> 's" where
  "x_coord C node = scalar_from_u64 C (ucast (node + 1))"

text \<open>The inner loop over \<open>ids\<close>: numerator and denominator of the coefficient of \<open>id_i\<close>.\<close>

fun lagrange_loop ::
  "('s::field, 'g1, 'g2, 'gt) bls \<Rightarrow> u32 \<Rightarrow> u32 list \<Rightarrow> 's \<Rightarrow> 's \<Rightarrow> 's \<times> 's" where
  "lagrange_loop C id_i [] numerator denominator = (numerator, denominator)"
| "lagrange_loop C id_i (id_j # ids) numerator denominator =
     (if id_i = id_j then lagrange_loop C id_i ids numerator denominator
      else lagrange_loop C id_i ids (numerator * - x_coord C id_j)
             (denominator * (x_coord C id_i - x_coord C id_j)))"

text \<open>The outer loop; \<open>None\<close> is the early return when a denominator has no inverse.\<close>

fun reconstruct_loop ::
  "('s::field, 'g1::ab_group_add, 'g2, 'gt) bls \<Rightarrow> (u32, 'g1) fmap \<Rightarrow> u32 list \<Rightarrow>
    u32 list \<Rightarrow> 'g1 \<Rightarrow> 'g1 option" where
  "reconstruct_loop C signatures ids [] acc = Some acc"
| "reconstruct_loop C signatures ids (id_i # rest) acc =
     (case lagrange_loop C id_i ids 1 1 of
        (numerator, denominator) \<Rightarrow>
          (case scalar_invert denominator of
             None \<Rightarrow> None
           | Some denom_inv \<Rightarrow>
               reconstruct_loop C signatures ids rest
                 (acc + g1_mul C (the (fmlookup signatures id_i)) (numerator * denom_inv))))"

text \<open>The lowest \<open>threshold\<close> identifiers: \<open>sort\<close> and \<open>truncate\<close>.\<close>

definition signer_ids :: "(u32, 'g1) fmap \<Rightarrow> usize \<Rightarrow> u32 list" where
  "signer_ids signatures threshold =
     take (unat threshold) (sorted_list_of_fset (fmdom signatures))"

definition verify_threshold_signature ::
  "('s::field, 'g1::ab_group_add, 'g2, 'gt) bls \<Rightarrow> bytes \<Rightarrow> (u32, 'g1) fmap \<Rightarrow> 'g2 \<Rightarrow>
    usize \<Rightarrow> bool" where
  "verify_threshold_signature C msg signatures master_pk threshold =
     (if hm_len signatures < unat threshold then False
      else
        let ids = signer_ids signatures threshold in
        case reconstruct_loop C signatures ids ids 0 of
          None \<Rightarrow> False
        | Some reconstructed_sig \<Rightarrow> verify_bls_signature C msg reconstructed_sig master_pk)"

section \<open>Single signatures\<close>

lemma sign_verify:
  assumes "pairing_laws C"
  shows "verify_bls_signature C msg (sign_bls_message C msg sk) (g2_mul C (g2_generator C) sk)"
  using assms
  by (simp add: verify_bls_signature_def sign_bls_message_def pairing_laws_def Let_def)

text \<open>Under a key with known secret the signature of a message is unique.\<close>

lemma verify_unique:
  assumes "pairing_laws C"
  shows "verify_bls_signature C msg sig (g2_mul C (g2_generator C) sk) \<longleftrightarrow>
    sig = sign_bls_message C msg sk"
proof
  assume "verify_bls_signature C msg sig (g2_mul C (g2_generator C) sk)"
  then have "pairing C sig (g2_generator C) =
      pairing C (sign_bls_message C msg sk) (g2_generator C)"
    using assms
    by (simp add: verify_bls_signature_def sign_bls_message_def pairing_laws_def Let_def)
  then show "sig = sign_bls_message C msg sk" using assms by (simp add: pairing_laws_def)
next
  assume "sig = sign_bls_message C msg sk"
  then show "verify_bls_signature C msg sig (g2_mul C (g2_generator C) sk)"
    by (simp add: sign_verify [OF assms])
qed

text \<open>Aggregation adds the secret keys.\<close>

lemma aggregate_sum: "aggregate_signatures sigs = sum_list sigs"
proof -
  have "foldl (\<lambda>agg sig. agg + sig) a sigs = a + sum_list sigs" for a
    by (induction sigs arbitrary: a) (simp_all add: algebra_simps)
  then show ?thesis by (simp add: aggregate_signatures_def)
qed

lemma aggregate_signed:
  assumes "scalar_laws C"
  shows "aggregate_signatures (map (sign_bls_message C msg) sks) =
    sign_bls_message C msg (sum_list sks)"
  by (induction sks)
    (simp_all add: aggregate_sum sign_bls_message_def g1_mul_zero_scalar [OF assms]
      g1_mul_add_scalar [OF assms])

section \<open>The loops compute the Lagrange coefficients\<close>

lemma x_coord_inj: "scalar_laws C \<Longrightarrow> x_coord C i = x_coord C j \<longleftrightarrow> i = j"
  by (auto simp: x_coord_def dest: scalar_from_u64_inj)

lemma x_coord_inj_on: "scalar_laws C \<Longrightarrow> inj_on (x_coord C) S"
  by (simp add: inj_on_def x_coord_inj)

lemma lagrange_loop_prod:
  assumes "distinct ids"
  shows "lagrange_loop C i ids n d =
    (n * (\<Prod>j\<in>set ids - {i}. - x_coord C j), d * (\<Prod>j\<in>set ids - {i}. x_coord C i - x_coord C j))"
  using assms
proof (induction ids arbitrary: n d)
  case Nil
  then show ?case by simp
next
  case (Cons j ids)
  then have IH: "lagrange_loop C i ids n d =
      (n * (\<Prod>j\<in>set ids - {i}. - x_coord C j),
       d * (\<Prod>j\<in>set ids - {i}. x_coord C i - x_coord C j))" for n d
    by simp
  show ?case
  proof (cases "i = j")
    case True
    then have "set (j # ids) - {i} = set ids - {i}" by auto
    with True IH show ?thesis by simp
  next
    case False
    then have "set (j # ids) - {i} = insert j (set ids - {i})" by auto
    with False IH Cons.prems show ?thesis by (simp add: mult.assoc)
  qed
qed

lemma lagrange_loop_coeff:
  assumes C: "scalar_laws C" and ids: "distinct ids" "i \<in> set ids"
  obtains n d where "lagrange_loop C i ids 1 1 = (n, d)" "d \<noteq> 0"
    "n * inverse d = lagrange_coeff (x_coord C) (set ids) i"
proof
  let ?n = "\<Prod>j\<in>set ids - {i}. - x_coord C j"
  let ?d = "\<Prod>j\<in>set ids - {i}. x_coord C i - x_coord C j"
  show "lagrange_loop C i ids 1 1 = (?n, ?d)" by (simp add: lagrange_loop_prod [OF ids(1)])
  show "?d \<noteq> 0" by (auto simp: x_coord_inj [OF C])
  show "?n * inverse ?d = lagrange_coeff (x_coord C) (set ids) i"
    unfolding lagrange_coeff_def prod_dividef by (simp add: divide_inverse)
qed

text \<open>With distinct identifiers no denominator vanishes, so the loop always returns.\<close>

lemma reconstruct_loop_sum:
  assumes C: "scalar_laws C" and ids: "distinct ids" and rest: "distinct rest" "set rest \<subseteq> set ids"
  shows "reconstruct_loop C sigs ids rest acc =
    Some (acc + (\<Sum>i\<in>set rest. g1_mul C (the (fmlookup sigs i))
                   (lagrange_coeff (x_coord C) (set ids) i)))"
  using rest
proof (induction rest arbitrary: acc)
  case Nil
  then show ?case by simp
next
  case (Cons i rest)
  obtain n d where nd: "lagrange_loop C i ids 1 1 = (n, d)" "d \<noteq> 0"
    "n * inverse d = lagrange_coeff (x_coord C) (set ids) i"
    using lagrange_loop_coeff [OF C ids] Cons.prems by auto
  then show ?case using Cons by (simp add: add.assoc)
qed

lemma signer_ids_props:
  "distinct (signer_ids sigs t)" "set (signer_ids sigs t) \<subseteq> fset (fmdom sigs)"
  "length (signer_ids sigs t) = min (unat t) (hm_len sigs)"
proof -
  show "distinct (signer_ids sigs t)"
    by (simp add: signer_ids_def sorted_list_of_fset.rep_eq)
  show "set (signer_ids sigs t) \<subseteq> fset (fmdom sigs)"
    unfolding signer_ids_def by (rule order_trans [OF set_take_subset]) simp
  show "length (signer_ids sigs t) = min (unat t) (hm_len sigs)"
    by (simp add: signer_ids_def hm_len_def fcard.rep_eq sorted_list_of_fset.rep_eq min.commute)
qed

lemma reconstruct_total:
  assumes "scalar_laws C"
  shows "\<exists>R. reconstruct_loop C sigs (signer_ids sigs t) (signer_ids sigs t) 0 = Some R"
  using reconstruct_loop_sum [OF assms signer_ids_props(1) signer_ids_props(1)] by blast

text \<open>Shares of a polynomial with at most \<open>threshold\<close> coefficients reconstruct its constant term.\<close>

lemma reconstruct_shares:
  assumes C: "scalar_laws C"
    and cs: "cs \<noteq> []" "length cs \<le> unat t" "unat t \<le> hm_len sigs"
    and shares: "\<And>i sig. fmlookup sigs i = Some sig \<Longrightarrow>
      sig = sign_bls_message C msg (poly_eval cs (x_coord C i))"
  shows "reconstruct_loop C sigs (signer_ids sigs t) (signer_ids sigs t) 0 =
    Some (sign_bls_message C msg (hd cs))"
proof -
  let ?ids = "signer_ids sigs t" and ?x = "x_coord C"
  let ?H = "hash_message_to_curve C msg"
  note P = signer_ids_props [of sigs t]
  have "length cs \<le> card (set ?ids)" using cs P by (simp add: distinct_card)
  then have L: "(\<Sum>i\<in>set ?ids. poly_eval cs (?x i) * lagrange_coeff ?x (set ?ids) i) = hd cs"
    using cs(1) by (intro lagrange_poly x_coord_inj_on [OF C]) simp_all
  have "g1_mul C (the (fmlookup sigs i)) (lagrange_coeff ?x (set ?ids) i) =
      g1_mul C ?H (poly_eval cs (?x i) * lagrange_coeff ?x (set ?ids) i)" if "i \<in> set ?ids" for i
  proof -
    obtain sig where "fmlookup sigs i = Some sig"
      using P(2) \<open>i \<in> set ?ids\<close> by (meson fmlookup_dom_iff subsetD)
    with shares [OF this] show ?thesis
      by (simp add: sign_bls_message_def g1_mul_mul [OF C])
  qed
  then show ?thesis
    using L by (simp add: reconstruct_loop_sum [OF C P(1) P(1)] g1_mul_sum [OF C]
        sign_bls_message_def cong: sum.cong)
qed

lemma threshold_complete:
  assumes C: "scalar_laws C" "pairing_laws C"
    and cs: "cs \<noteq> []" "length cs \<le> unat t" "unat t \<le> hm_len sigs"
    and shares: "\<And>i sig. fmlookup sigs i = Some sig \<Longrightarrow>
      sig = sign_bls_message C msg (poly_eval cs (x_coord C i))"
  shows "verify_threshold_signature C msg sigs (g2_mul C (g2_generator C) (hd cs)) t"
  using reconstruct_shares [OF C(1) cs shares] cs(3)
  by (simp add: verify_threshold_signature_def Let_def sign_verify [OF C(2)])

lemma verify_threshold_size:
  "verify_threshold_signature C msg sigs pk t \<Longrightarrow> unat t \<le> hm_len sigs"
  by (simp add: verify_threshold_signature_def split: if_splits)

lemma threshold_sound:
  assumes "pairing_laws C"
    and "verify_threshold_signature C msg sigs (g2_mul C (g2_generator C) sk) t"
  shows "reconstruct_loop C sigs (signer_ids sigs t) (signer_ids sigs t) 0 =
    Some (sign_bls_message C msg sk)"
  using assms(2)
  by (auto simp: verify_threshold_signature_def Let_def verify_unique [OF assms(1)]
      split: if_splits option.splits)

text \<open>Only the shares of the lowest identifiers matter.\<close>

lemma reconstruct_loop_cong:
  assumes "\<And>i. i \<in> set rest \<Longrightarrow> fmlookup sigs i = fmlookup sigs' i"
  shows "reconstruct_loop C sigs ids rest acc = reconstruct_loop C sigs' ids rest acc"
  using assms by (induction rest arbitrary: acc) (auto split: prod.splits option.splits)

lemma verify_threshold_lowest:
  assumes "signer_ids sigs t = signer_ids sigs' t"
    and "unat t \<le> hm_len sigs" "unat t \<le> hm_len sigs'"
    and "\<And>i. i \<in> set (signer_ids sigs t) \<Longrightarrow> fmlookup sigs i = fmlookup sigs' i"
  shows "verify_threshold_signature C msg sigs pk t = verify_threshold_signature C msg sigs' pk t"
  using assms reconstruct_loop_cong [of "signer_ids sigs t" sigs sigs' C "signer_ids sigs t" 0]
  by (simp add: verify_threshold_signature_def Let_def)

end
