(* ===== verification/Wire.thy ===== *)
theory Wire
  imports Threshold_Bls
begin

text \<open>
  The wire formats of \<open>pbft.rs\<close>: the 101-byte consensus message, the 108-byte view-change payload
  and the bytes a signature covers. A \<open>[u8; 32]\<close> digest is a byte list; \<open>wf\<close> predicates say that
  it has 32 bytes, as the Rust type guarantees.
  Both formats implement one interface, \<open>fixed_codec\<close>: encoding has a fixed width, decoding
  inverts it whatever follows, and what decodes is the encoding of the result. The write-ahead log
  interprets it again for its rows.
\<close>

section \<open>The interface of a fixed-width format\<close>

locale fixed_codec =
  fixes valid :: "'c \<Rightarrow> bool"
    and wf :: "'a \<Rightarrow> bool"
    and enc :: "'c \<Rightarrow> 'a \<Rightarrow> bytes"
    and dec :: "'c \<Rightarrow> bytes \<Rightarrow> ('e, 'a) result"
    and width :: nat
  assumes enc_length: "valid c \<Longrightarrow> wf a \<Longrightarrow> length (enc c a) = width"
    and dec_enc: "valid c \<Longrightarrow> wf a \<Longrightarrow> dec c (enc c a @ rest) = Ok a"
    and dec_wf: "valid c \<Longrightarrow> dec c bs = Ok a \<Longrightarrow> wf a"
    and enc_dec: "valid c \<Longrightarrow> dec c bs = Ok a \<Longrightarrow> enc c a = take width bs"
    and dec_length: "dec c bs = Ok a \<Longrightarrow> width \<le> length bs"
begin

lemma roundtrip: "valid c \<Longrightarrow> wf a \<Longrightarrow> dec c (enc c a) = Ok a"
  using dec_enc [of c a "[]"] by simp

lemma enc_append_inj:
  assumes "valid c" "wf a" "wf b" and eq: "enc c a @ xs = enc c b @ ys"
  shows "a = b \<and> xs = ys"
proof -
  have "dec c (enc c a @ xs) = Ok a" "dec c (enc c b @ ys) = Ok b"
    using assms dec_enc by blast+
  then have "a = b" using eq by simp
  then show ?thesis using eq by simp
qed

lemma enc_inj: "valid c \<Longrightarrow> wf a \<Longrightarrow> wf b \<Longrightarrow> enc c a = enc c b \<longleftrightarrow> a = b"
  using enc_append_inj [of c a b "[]" "[]"] by auto

lemma dec_unique:
  assumes "valid c" "dec c bs = Ok a" "dec c bs' = Ok a" "length bs = width" "length bs' = width"
  shows "bs = bs'"
  using enc_dec [OF assms(1,2)] enc_dec [OF assms(1,3)] assms(4,5) by simp

lemma dec_take:
  assumes "valid c" "dec c bs = Ok a"
  shows "dec c (take width bs) = Ok a"
  using enc_dec [OF assms] roundtrip [OF assms(1) dec_wf [OF assms]] by simp

end

section \<open>Phases\<close>

datatype phase = PrePrepare | Prepare | Commit | ViewChange | Checkpoint

text \<open>\<open>phase as u8\<close>, and the match of \<open>from_bytes\<close>.\<close>

fun phase_u8 :: "phase \<Rightarrow> u8" where
  "phase_u8 PrePrepare = 0"
| "phase_u8 Prepare = 1"
| "phase_u8 Commit = 2"
| "phase_u8 ViewChange = 3"
| "phase_u8 Checkpoint = 4"

definition phase_of_u8 :: "u8 \<Rightarrow> phase option" where
  "phase_of_u8 b =
     (if b = 0 then Some PrePrepare else if b = 1 then Some Prepare else if b = 2 then Some Commit
      else if b = 3 then Some ViewChange else if b = 4 then Some Checkpoint else None)"

instantiation phase :: linorder
begin

definition less_eq_phase :: "phase \<Rightarrow> phase \<Rightarrow> bool" where
  "p \<le> q \<longleftrightarrow> unat (phase_u8 p) \<le> unat (phase_u8 q)"

definition less_phase :: "phase \<Rightarrow> phase \<Rightarrow> bool" where
  "p < q \<longleftrightarrow> unat (phase_u8 p) < unat (phase_u8 q)"

instance
proof
  fix p q r :: phase
  show "(p < q) = (p \<le> q \<and> \<not> q \<le> p)"
    by (auto simp: less_phase_def less_eq_phase_def)
  show "p \<le> p" by (simp add: less_eq_phase_def)
  show "p \<le> q \<Longrightarrow> q \<le> r \<Longrightarrow> p \<le> r" by (simp add: less_eq_phase_def)
  show "p \<le> q \<Longrightarrow> q \<le> p \<Longrightarrow> p = q"
    by (cases p; cases q) (simp_all add: less_eq_phase_def)
  show "p \<le> q \<or> q \<le> p" by (auto simp: less_eq_phase_def)
qed

end

lemma phase_roundtrip [simp]: "phase_of_u8 (phase_u8 p) = Some p"
  by (cases p) (simp_all add: phase_of_u8_def)

lemma phase_of_u8_Some: "phase_of_u8 b = Some p \<longleftrightarrow> b = phase_u8 p"
  by (cases p) (auto simp: phase_of_u8_def split: if_splits)

lemma phase_u8_inject [simp]: "phase_u8 p = phase_u8 q \<longleftrightarrow> p = q"
  by (metis option.inject phase_roundtrip)

lemma phase_of_u8_bytes [simp]:
  "phase_of_u8 0 = Some PrePrepare" "phase_of_u8 1 = Some Prepare" "phase_of_u8 2 = Some Commit"
  "phase_of_u8 3 = Some ViewChange" "phase_of_u8 4 = Some Checkpoint"
  by (simp_all add: phase_of_u8_def)

lemma phase_of_u8_None: "phase_of_u8 b = None \<longleftrightarrow> 4 < b"
proof -
  have "b \<le> 4 \<longleftrightarrow> b = 0 \<or> b = 1 \<or> b = 2 \<or> b = 3 \<or> b = 4" by unat_arith
  then show ?thesis by (auto simp: phase_of_u8_def not_less [symmetric])
qed

section \<open>What a signature covers\<close>

text \<open>The canonical message: phase, view, sequence and digest, not the sender.\<close>

definition canonical_msg :: "u8 \<Rightarrow> u64 \<Rightarrow> u64 \<Rightarrow> bytes \<Rightarrow> bytes" where
  "canonical_msg phase view seq digest =
     phase # u64_to_be_bytes view @ u64_to_be_bytes seq @ digest"

lemma length_canonical_msg [codec_simps]:
  "length (canonical_msg p v s d) = 17 + length d"
  by (simp add: canonical_msg_def)

lemma canonical_msg_inject [simp]:
  "canonical_msg p v s d = canonical_msg p' v' s' d' \<longleftrightarrow> p = p' \<and> v = v' \<and> s = s' \<and> d = d'"
  by (auto simp: canonical_msg_def)

section \<open>Consensus messages\<close>

record 'g1 pbft_message =
  pm_phase :: phase
  pm_view :: u64
  pm_seq :: u64
  pm_digest :: bytes
  pm_sender_id :: u32
  pm_signature :: 'g1

datatype decode_error =
    INVALID_MESSAGE_LENGTH
  | INVALID_PHASE
  | INVALID_SIGNATURE_BYTES
  | INVALID_VIEW_CHANGE_PAYLOAD_LENGTH

definition pm_to_bytes :: "('s, 'g1, 'g2, 'gt) bls \<Rightarrow> 'g1 pbft_message \<Rightarrow> bytes" where
  "pm_to_bytes C m =
     [phase_u8 (pm_phase m)] @ u64_to_be_bytes (pm_view m) @ u64_to_be_bytes (pm_seq m) @
     pm_digest m @ u32_to_be_bytes (pm_sender_id m) @ g1_to_compressed C (pm_signature m)"

definition pm_from_bytes ::
  "('s, 'g1, 'g2, 'gt) bls \<Rightarrow> bytes \<Rightarrow> (decode_error, 'g1 pbft_message) result" where
  "pm_from_bytes C bs =
     (if length bs < 1 + 8 + 8 + 32 + 4 + 48 then Err INVALID_MESSAGE_LENGTH
      else case phase_of_u8 (bs ! 0) of
        None \<Rightarrow> Err INVALID_PHASE
      | Some phase \<Rightarrow>
          (let view = u64_from_be_bytes (slice 1 9 bs);
               seq = u64_from_be_bytes (slice 9 17 bs);
               digest = slice 17 49 bs;
               sender_id = u32_from_be_bytes (slice 49 53 bs)
           in case g1_from_compressed C (slice 53 101 bs) of
                None \<Rightarrow> Err INVALID_SIGNATURE_BYTES
              | Some signature \<Rightarrow>
                  Ok \<lparr>pm_phase = phase, pm_view = view, pm_seq = seq, pm_digest = digest,
                      pm_sender_id = sender_id, pm_signature = signature\<rparr>))"

definition pm_wf :: "'g1 pbft_message \<Rightarrow> bool" where
  "pm_wf m \<longleftrightarrow> length (pm_digest m) = 32"

text \<open>The bytes of a message that its signature covers.\<close>

definition pm_canonical :: "'g1 pbft_message \<Rightarrow> bytes" where
  "pm_canonical m = canonical_msg (phase_u8 (pm_phase m)) (pm_view m) (pm_seq m) (pm_digest m)"

text \<open>What the transport needs of one message: a digest of 32 bytes and a signature that has an
  encoding, as all have under \<open>g1_codec_laws\<close>.\<close>

definition pm_sendable :: "('s, 'g1, 'g2, 'gt) bls \<Rightarrow> 'g1 pbft_message \<Rightarrow> bool" where
  "pm_sendable C m \<longleftrightarrow> pm_wf m \<and> g1_encodable C (pm_signature m)"

lemma pm_sendableI: "g1_codec_laws C \<Longrightarrow> pm_wf m \<Longrightarrow> pm_sendable C m"
  by (simp add: pm_sendable_def g1_encodableI)

lemma length_sendable: "pm_sendable C m \<Longrightarrow> length (pm_to_bytes C m) = 101"
  by (simp add: pm_to_bytes_def pm_wf_def pm_sendable_def g1_encodable_def)

lemma decode_sendable:
  assumes "pm_sendable C m"
  shows "pm_from_bytes C (pm_to_bytes C m @ rest) = Ok m"
  using assms by (simp add: pm_sendable_def g1_encodable_def pm_wf_def pm_from_bytes_def pm_to_bytes_def
      slice_append_right slice_def)

lemma length_pm_to_bytes [codec_simps]:
  "g1_codec_laws C \<Longrightarrow> pm_wf m \<Longrightarrow> length (pm_to_bytes C m) = 101"
  by (rule length_sendable [OF pm_sendableI])

lemma pm_decode_encode:
  "g1_codec_laws C \<Longrightarrow> pm_wf m \<Longrightarrow> pm_from_bytes C (pm_to_bytes C m @ rest) = Ok m"
  by (rule decode_sendable [OF pm_sendableI])

lemma pm_from_bytes_length: "pm_from_bytes C bs = Ok m \<Longrightarrow> 101 \<le> length bs"
  by (simp add: pm_from_bytes_def split: if_splits)

lemma pm_from_bytes_wf: "pm_from_bytes C bs = Ok m \<Longrightarrow> pm_wf m"
  by (auto simp: pm_from_bytes_def pm_wf_def Let_def split: if_splits option.splits)

lemma pm_encode_decode:
  assumes C: "g1_codec_laws C" and d: "pm_from_bytes C bs = Ok m"
  shows "pm_to_bytes C m = take 101 bs"
proof -
  have len: "101 \<le> length bs" using d by (rule pm_from_bytes_length)
  have fields: "phase_u8 (pm_phase m) = bs ! 0" "u64_to_be_bytes (pm_view m) = slice 1 9 bs"
    "u64_to_be_bytes (pm_seq m) = slice 9 17 bs" "pm_digest m = slice 17 49 bs"
    "u32_to_be_bytes (pm_sender_id m) = slice 49 53 bs"
    "g1_to_compressed C (pm_signature m) = slice 53 101 bs"
    using d len
    by (auto simp: pm_from_bytes_def Let_def phase_of_u8_Some u64_reprint u32_reprint
        g1_compressed_canonical [OF C] split: if_splits option.splits)
  have "[bs ! 0] = slice 0 1 bs" using len by (cases bs) (simp_all add: slice_def)
  then have "pm_to_bytes C m = slice 0 101 bs"
    by (simp add: pm_to_bytes_def fields slice_join del: append.simps)
  then show ?thesis by (simp add: slice_def)
qed

interpretation pm: fixed_codec g1_codec_laws pm_wf pm_to_bytes pm_from_bytes 101
  by unfold_locales
    (auto simp: length_pm_to_bytes pm_decode_encode pm_from_bytes_wf pm_encode_decode
      dest: pm_from_bytes_length)

text \<open>Every input is classified: the decoder has three errors, in this order.\<close>

lemma pm_from_bytes_cases:
  "pm_from_bytes C bs = Err e \<longleftrightarrow>
     (e = INVALID_MESSAGE_LENGTH \<and> length bs < 101) \<or>
     (e = INVALID_PHASE \<and> 101 \<le> length bs \<and> 4 < bs ! 0) \<or>
     (e = INVALID_SIGNATURE_BYTES \<and> 101 \<le> length bs \<and> bs ! 0 \<le> 4 \<and>
        g1_from_compressed C (slice 53 101 bs) = None)"
proof (cases "length bs < 101")
  case True
  then show ?thesis by (auto simp: pm_from_bytes_def)
next
  case False
  then show ?thesis
    by (cases "phase_of_u8 (bs ! 0)")
      (auto simp: pm_from_bytes_def Let_def phase_of_u8_None not_less [symmetric]
        split: option.splits dest: phase_of_u8_None [THEN iffD2])
qed

section \<open>View-change payloads\<close>

record 'g1 view_change_payload =
  vc_target_view :: u64
  vc_prepared_view :: u64
  vc_prepared_seq :: u64
  vc_digest :: bytes
  vc_sender_id :: u32
  vc_signature :: 'g1

definition vc_canonical_bytes :: "'g1 view_change_payload \<Rightarrow> bytes" where
  "vc_canonical_bytes p =
     u64_to_be_bytes (vc_target_view p) @ u64_to_be_bytes (vc_prepared_view p) @
     u64_to_be_bytes (vc_prepared_seq p) @ vc_digest p"

definition vc_to_bytes :: "('s, 'g1, 'g2, 'gt) bls \<Rightarrow> 'g1 view_change_payload \<Rightarrow> bytes" where
  "vc_to_bytes C p =
     vc_canonical_bytes p @ u32_to_be_bytes (vc_sender_id p) @
     g1_to_compressed C (vc_signature p)"

definition vc_from_bytes ::
  "('s, 'g1, 'g2, 'gt) bls \<Rightarrow> bytes \<Rightarrow> (decode_error, 'g1 view_change_payload) result" where
  "vc_from_bytes C bs =
     (if length bs < 8 + 8 + 8 + 32 + 4 + 48 then Err INVALID_VIEW_CHANGE_PAYLOAD_LENGTH
      else
        let target_view = u64_from_be_bytes (slice 0 8 bs);
            prepared_view = u64_from_be_bytes (slice 8 16 bs);
            prepared_seq = u64_from_be_bytes (slice 16 24 bs);
            digest = slice 24 56 bs;
            sender_id = u32_from_be_bytes (slice 56 60 bs)
        in case g1_from_compressed C (slice 60 108 bs) of
             None \<Rightarrow> Err INVALID_SIGNATURE_BYTES
           | Some signature \<Rightarrow>
               Ok \<lparr>vc_target_view = target_view, vc_prepared_view = prepared_view,
                   vc_prepared_seq = prepared_seq, vc_digest = digest,
                   vc_sender_id = sender_id, vc_signature = signature\<rparr>)"

definition vc_wf :: "'g1 view_change_payload \<Rightarrow> bool" where
  "vc_wf p \<longleftrightarrow> length (vc_digest p) = 32"

lemma length_vc_canonical [codec_simps]: "vc_wf p \<Longrightarrow> length (vc_canonical_bytes p) = 56"
  by (simp add: vc_canonical_bytes_def vc_wf_def)

lemma length_vc_to_bytes [codec_simps]:
  "g1_codec_laws C \<Longrightarrow> vc_wf p \<Longrightarrow> length (vc_to_bytes C p) = 108"
  by (simp add: vc_to_bytes_def length_vc_canonical g1_compressed_length)

lemma vc_decode_encode:
  assumes "g1_codec_laws C" "vc_wf p"
  shows "vc_from_bytes C (vc_to_bytes C p @ rest) = Ok p"
proof -
  have d: "length (vc_digest p) = 32" using assms(2) by (simp add: vc_wf_def)
  note g = g1_compressed_length [OF assms(1)] g1_compressed_roundtrip [OF assms(1)]
  show ?thesis
    using d g
    by (simp add: vc_from_bytes_def vc_to_bytes_def vc_canonical_bytes_def slice_append_right
        slice_def)
qed

lemma vc_from_bytes_length: "vc_from_bytes C bs = Ok p \<Longrightarrow> 108 \<le> length bs"
  by (simp add: vc_from_bytes_def split: if_splits)

lemma vc_from_bytes_wf: "vc_from_bytes C bs = Ok p \<Longrightarrow> vc_wf p"
  by (auto simp: vc_from_bytes_def vc_wf_def Let_def split: if_splits option.splits)

lemma vc_encode_decode:
  assumes C: "g1_codec_laws C" and d: "vc_from_bytes C bs = Ok p"
  shows "vc_to_bytes C p = take 108 bs"
proof -
  have len: "108 \<le> length bs" using d by (rule vc_from_bytes_length)
  have fields: "u64_to_be_bytes (vc_target_view p) = slice 0 8 bs"
    "u64_to_be_bytes (vc_prepared_view p) = slice 8 16 bs"
    "u64_to_be_bytes (vc_prepared_seq p) = slice 16 24 bs" "vc_digest p = slice 24 56 bs"
    "u32_to_be_bytes (vc_sender_id p) = slice 56 60 bs"
    "g1_to_compressed C (vc_signature p) = slice 60 108 bs"
    using d len
    by (auto simp: vc_from_bytes_def Let_def u64_reprint u32_reprint
        g1_compressed_canonical [OF C] split: if_splits option.splits)
  have "vc_to_bytes C p = slice 0 108 bs"
    by (simp add: vc_to_bytes_def vc_canonical_bytes_def fields slice_join)
  then show ?thesis by (simp add: slice_def)
qed

interpretation vc: fixed_codec g1_codec_laws vc_wf vc_to_bytes vc_from_bytes 108
  by unfold_locales
    (auto simp: length_vc_to_bytes vc_decode_encode vc_from_bytes_wf vc_encode_decode
      dest: vc_from_bytes_length)

text \<open>A signed view-change payload is never a signed consensus message: the lengths differ.\<close>

lemma canonical_domains_disjoint:
  "pm_wf m \<Longrightarrow> vc_wf p \<Longrightarrow> pm_canonical m \<noteq> vc_canonical_bytes p"
  by (auto dest!: arg_cong [where f = length]
      simp: length_canonical_msg length_vc_canonical pm_canonical_def pm_wf_def)

end
