(* ===== verification/Wal.thy ===== *)
theory Wal
  imports Wire
begin

text \<open>
  \<open>wal.rs\<close>: the write-ahead log, a file of 101-byte rows. The file system is explicit: a log holds
  the visible content of the file, the content that survives a crash and whether the open handle
  still refers to the live path; every call takes the outcome of its system calls as an argument
  (\<open>append_io\<close>, \<open>prune_io\<close>, the schedule of short and interrupted reads).
  The lemmas: rows round-trip; the read loop does not depend on how the operating system splits the
  reads; replay visits exactly the rows of a well-formed file and rejects torn or undecodable ones;
  pruning keeps the rows at or after the given sequence; an acknowledged append survives a crash.
  The interface \<open>append_log\<close> states what the consensus layer relies on.
\<close>

section \<open>Rows\<close>

record 'g1 wal_row =
  row_view :: u64
  row_seq :: u64
  row_phase :: u8
  row_sender_id :: u32
  row_digest :: bytes
  row_signature :: 'g1

datatype io_error = UnexpectedEof | InvalidData | OsError

definition RECORD_LEN :: nat where "RECORD_LEN = 101"

text \<open>The buffer that \<open>append_entry\<close> writes.\<close>

definition row_to_bytes :: "('s, 'g1, 'g2, 'gt) bls \<Rightarrow> 'g1 wal_row \<Rightarrow> bytes" where
  "row_to_bytes C r =
     u64_to_be_bytes (row_view r) @ u64_to_be_bytes (row_seq r) @ [row_phase r] @
     u32_to_be_bytes (row_sender_id r) @ row_digest r @ g1_to_compressed C (row_signature r)"

text \<open>The fields that \<open>replay_log\<close> reads back from a full buffer.\<close>

definition row_from_bytes ::
  "('s, 'g1, 'g2, 'gt) bls \<Rightarrow> bytes \<Rightarrow> (io_error, 'g1 wal_row) result" where
  "row_from_bytes C buf =
     (let view = u64_from_be_bytes (slice 0 8 buf);
          seq = u64_from_be_bytes (slice 8 16 buf);
          phase = buf ! 16;
          sender_id = u32_from_be_bytes (slice 17 21 buf);
          digest = slice 21 53 buf
      in case g1_from_compressed C (slice 53 101 buf) of
           None \<Rightarrow> Err InvalidData
         | Some sig \<Rightarrow>
             Ok \<lparr>row_view = view, row_seq = seq, row_phase = phase, row_sender_id = sender_id,
                 row_digest = digest, row_signature = sig\<rparr>)"

definition row_wf :: "'g1 wal_row \<Rightarrow> bool" where
  "row_wf r \<longleftrightarrow> length (row_digest r) = 32"

text \<open>A full buffer, decoded; shorter input does not reach the decoder.\<close>

definition row_decode ::
  "('s, 'g1, 'g2, 'gt) bls \<Rightarrow> bytes \<Rightarrow> (io_error, 'g1 wal_row) result" where
  "row_decode C bs = (if length bs < RECORD_LEN then Err UnexpectedEof else row_from_bytes C bs)"

lemma length_row_to_bytes [codec_simps]:
  "g1_codec_laws C \<Longrightarrow> row_wf r \<Longrightarrow> length (row_to_bytes C r) = 101"
  by (simp add: row_to_bytes_def row_wf_def g1_compressed_length)

lemma row_from_to:
  assumes "g1_codec_laws C" "row_wf r"
  shows "row_from_bytes C (row_to_bytes C r @ rest) = Ok r"
proof -
  have d: "length (row_digest r) = 32" using assms(2) by (simp add: row_wf_def)
  note g = g1_compressed_length [OF assms(1)] g1_compressed_roundtrip [OF assms(1)]
  show ?thesis
    using d g
    by (simp add: row_from_bytes_def row_to_bytes_def slice_append_right slice_def nth_append)
qed

lemma row_from_bytes_wf:
  "row_from_bytes C bs = Ok r \<Longrightarrow> 101 \<le> length bs \<Longrightarrow> row_wf r"
  by (auto simp: row_from_bytes_def row_wf_def Let_def split: option.splits)

lemma row_to_from:
  assumes C: "g1_codec_laws C" and d: "row_from_bytes C bs = Ok r" and len: "101 \<le> length bs"
  shows "row_to_bytes C r = take 101 bs"
proof -
  have fields: "u64_to_be_bytes (row_view r) = slice 0 8 bs"
    "u64_to_be_bytes (row_seq r) = slice 8 16 bs" "row_phase r = bs ! 16"
    "u32_to_be_bytes (row_sender_id r) = slice 17 21 bs" "row_digest r = slice 21 53 bs"
    "g1_to_compressed C (row_signature r) = slice 53 101 bs"
    using d len
    by (auto simp: row_from_bytes_def Let_def u64_reprint u32_reprint
        g1_compressed_canonical [OF C] split: option.splits)
  have "[bs ! 16] = slice 16 17 bs"
    using len by (simp add: slice_def take_Suc_conv_app_nth hd_drop_conv_nth take_Suc)
  then have "row_to_bytes C r = slice 0 101 bs"
    by (simp add: row_to_bytes_def fields slice_join del: append.simps)
  then show ?thesis by (simp add: slice_def)
qed

interpretation row: fixed_codec g1_codec_laws row_wf row_to_bytes row_decode 101
  by unfold_locales
    (auto simp: length_row_to_bytes row_from_to row_to_from row_decode_def RECORD_LEN_def
      split: if_splits intro: row_from_bytes_wf)

section \<open>The file\<close>

record wal =
  content :: bytes \<comment> \<open>what a read of the path returns\<close>
  durable :: bytes \<comment> \<open>what the last successful sync guarantees\<close>
  detached :: bool \<comment> \<open>the open handle refers to an unlinked file\<close>

text \<open>
  Opening. What a read of the path returns is durable then: the process starts after a clean stop or
  after a crash of the machine, when the file holds what the disk held. The entry of the directory
  of a file that \<open>open\<close> creates is taken to be durable too, although the code does not sync the
  directory there.
\<close>

definition wal_open :: "bytes \<Rightarrow> wal" where
  "wal_open disk = \<lparr>content = disk, durable = disk, detached = False\<rparr>"

text \<open>Outcomes of \<open>write_all\<close> (\<open>Some n\<close>: it fails after \<open>n\<close> bytes) and \<open>sync_data\<close>.\<close>

record append_io =
  a_write :: "nat option"
  a_sync :: bool

abbreviation append_io_ok :: append_io where
  "append_io_ok \<equiv> \<lparr>a_write = None, a_sync = True\<rparr>"

definition append_entry ::
  "('s, 'g1, 'g2, 'gt) bls \<Rightarrow> append_io \<Rightarrow> 'g1 wal_row \<Rightarrow> wal \<Rightarrow> (io_error, unit) result \<times> wal" where
  "append_entry C io r w =
     (let buf = row_to_bytes C r;
          written = (case a_write io of None \<Rightarrow> buf | Some n \<Rightarrow> take n buf);
          w' = (if detached w then w else w\<lparr>content := content w @ written\<rparr>)
      in if a_write io \<noteq> None then (Err OsError, w')
         else if \<not> a_sync io then (Err OsError, w')
         else (Ok (), if detached w then w' else w'\<lparr>durable := content w'\<rparr>))"

text \<open>
  What the file may hold after a crash: at least what was synced, and any part of the bytes
  written since; while a rename is not synced, the old or the new file. A crash in the middle of an
  append leaves an image of the log after an append that stopped at that byte, or that did not reach
  its sync, so that the outcomes of \<open>append_io\<close> cover it. Bytes that were written are lost from
  the end only; a disk that reorders or damages them is outside the model.
\<close>

definition crash_image :: "wal \<Rightarrow> bytes \<Rightarrow> bool" where
  "crash_image w b \<longleftrightarrow> b = durable w \<or> b = content w \<or>
     (take (length (durable w)) (content w) = durable w \<and>
      (\<exists>k \<ge> length (durable w). b = take k (content w)))"

section \<open>Reading\<close>

text \<open>
  One \<open>read\<close> call returns some of the bytes asked for, is interrupted, or fails. The schedule
  lists the outcomes; when it is used up, every further call returns all it can.
\<close>

datatype read_event = Reads nat | Interrupted | ReadFails

text \<open>How many bytes a call returns: at least one, at most what is asked for and available.\<close>

definition read_count :: "nat \<Rightarrow> nat \<Rightarrow> nat \<Rightarrow> nat" where
  "read_count n need avail = min (max 1 n) (min need avail)"

lemma read_count_bounds:
  "0 < need \<Longrightarrow> 0 < avail \<Longrightarrow> 0 < read_count n need avail"
  "read_count n need avail \<le> need" "read_count n need avail \<le> avail"
  by (auto simp: read_count_def)

text \<open>The inner loop: fill the buffer. \<open>Ok None\<close> is the clean end of file.\<close>

fun read_record ::
  "read_event list \<Rightarrow> bytes \<Rightarrow> bytes \<Rightarrow>
    (io_error, bytes option) result \<times> bytes \<times> read_event list" where
  "read_record [] inp buf =
     (let need = RECORD_LEN - length buf in
      if need \<le> length inp then (Ok (Some (buf @ take need inp)), drop need inp, [])
      else if buf = [] \<and> inp = [] then (Ok None, [], [])
      else (Err UnexpectedEof, [], []))"
| "read_record (e # es) inp buf =
     (if RECORD_LEN \<le> length buf then (Ok (Some buf), inp, e # es)
      else case e of
        Interrupted \<Rightarrow> read_record es inp buf
      | ReadFails \<Rightarrow> (Err OsError, inp, es)
      | Reads n \<Rightarrow>
          (if inp = [] then
             (if buf = [] then (Ok None, [], es) else (Err UnexpectedEof, [], es))
           else
             let k = read_count n (RECORD_LEN - length buf) (length inp)
             in read_record es (drop k inp) (buf @ take k inp)))"

lemma read_record_Reads:
  assumes "length buf < RECORD_LEN" "inp \<noteq> []"
  obtains k where "0 < k" "k \<le> length inp" "k \<le> RECORD_LEN - length buf"
    "k = read_count n (RECORD_LEN - length buf) (length inp)"
    "read_record (Reads n # es) inp buf = read_record es (drop k inp) (buf @ take k inp)"
proof
  let ?k = "read_count n (RECORD_LEN - length buf) (length inp)"
  show "0 < ?k" using assms by (intro read_count_bounds(1)) simp_all
  show "?k \<le> length inp" "?k \<le> RECORD_LEN - length buf" by (rule read_count_bounds)+
  show "read_record (Reads n # es) inp buf = read_record es (drop ?k inp) (buf @ take ?k inp)"
    using assms by (simp add: Let_def)
qed (rule refl)

lemma read_record_length:
  "read_record es inp buf = (Ok (Some b), rest, es') \<Longrightarrow> length buf \<le> RECORD_LEN \<Longrightarrow>
    length b = RECORD_LEN \<and> length inp + length buf = length rest + RECORD_LEN"
proof (induction es inp buf rule: read_record.induct)
  case (1 inp buf)
  then show ?case by (auto simp: Let_def split: if_splits)
next
  case (2 e es inp buf)
  show ?case
  proof (cases "RECORD_LEN \<le> length buf")
    case True
    then show ?thesis using "2.prems" by simp
  next
    case False
    then show ?thesis
    proof (cases e)
      case (Reads n)
      show ?thesis
      proof (cases "inp = []")
        case True
        then show ?thesis using Reads False "2.prems" by (simp split: if_splits)
      next
        case nonempty: False
        obtain k where k: "0 < k" "k \<le> length inp" "k \<le> RECORD_LEN - length buf"
          "k = read_count n (RECORD_LEN - length buf) (length inp)"
          "read_record (Reads n # es) inp buf = read_record es (drop k inp) (buf @ take k inp)"
          using read_record_Reads [of buf inp n es] False nonempty by (auto simp: not_le)
        have "length b = RECORD_LEN \<and>
            length (drop k inp) + length (buf @ take k inp) = length rest + RECORD_LEN"
          using "2.IH"(1) [OF False Reads nonempty k(4)] "2.prems" Reads k by simp
        then show ?thesis using k by simp
      qed
    next
      case Interrupted
      then show ?thesis using "2.IH"(2) [OF False Interrupted] "2.prems" False by simp
    next
      case ReadFails
      then show ?thesis using "2.prems" False by simp
    qed
  qed
qed

text \<open>Without a failing call the schedule does not matter.\<close>

lemma read_record_split:
  assumes "0 < k" "k \<le> length inp" "k \<le> RECORD_LEN - length buf" "length buf < RECORD_LEN"
  shows "read_record [] (drop k inp) (buf @ take k inp) = read_record [] inp buf"
proof -
  let ?need = "RECORD_LEN - length buf"
  have n: "RECORD_LEN - length (buf @ take k inp) = ?need - k" using assms by simp
  have "take k inp @ take (?need - k) (drop k inp) = take ?need inp"
    using assms by (metis le_add_diff_inverse take_add)
  moreover have "buf @ take k inp \<noteq> []" "inp \<noteq> []" using assms by auto
  moreover have "?need - k \<le> length (drop k inp) \<longleftrightarrow> ?need \<le> length inp" using assms by auto
  ultimately show ?thesis
    unfolding read_record.simps(1) [of "drop k inp"] read_record.simps(1) [of inp] Let_def n
    using assms by simp
qed

lemma read_record_schedule:
  assumes "ReadFails \<notin> set es" "length buf \<le> RECORD_LEN"
  shows "fst (read_record es inp buf) = fst (read_record [] inp buf) \<and>
    (isl (fst (read_record [] inp buf)) \<or>
     fst (snd (read_record es inp buf)) = fst (snd (read_record [] inp buf))) \<and>
    ReadFails \<notin> set (snd (snd (read_record es inp buf)))"
  using assms
proof (induction es inp buf rule: read_record.induct)
  case (1 inp buf)
  then show ?case by (simp add: Let_def)
next
  case (2 e es inp buf)
  show ?case
  proof (cases "RECORD_LEN \<le> length buf")
    case True
    then show ?thesis using "2.prems" by simp
  next
    case False
    note IH = "2.IH" [OF False]
    show ?thesis
    proof (cases e)
      case (Reads n)
      show ?thesis
      proof (cases "inp = []")
        case True
        then show ?thesis using Reads False "2.prems" by (simp add: Let_def RECORD_LEN_def)
      next
        case nonempty: False
        obtain k where k: "0 < k" "k \<le> length inp" "k \<le> RECORD_LEN - length buf"
          "k = read_count n (RECORD_LEN - length buf) (length inp)"
          "read_record (Reads n # es) inp buf = read_record es (drop k inp) (buf @ take k inp)"
          using read_record_Reads [of buf inp n es] False nonempty by (auto simp: not_le)
        have "ReadFails \<notin> set es" "length (buf @ take k inp) \<le> RECORD_LEN"
          using "2.prems" k by auto
        note R = IH(1) [OF Reads nonempty k(4) this]
        have "length buf < RECORD_LEN" using False by simp
        then show ?thesis
          unfolding Reads k(5) using R read_record_split [OF k(1-3)] by metis
      qed
    next
      case Interrupted
      have "ReadFails \<notin> set es" using "2.prems" by simp
      note R = IH(2) [OF Interrupted this "2.prems"(2)]
      have "read_record (e # es) inp buf = read_record es inp buf"
        using Interrupted False by simp
      then show ?thesis using R by metis
    next
      case ReadFails
      then show ?thesis using "2.prems" by simp
    qed
  qed
qed

text \<open>The outer loop of \<open>replay_log\<close>, calling the handler on every row it decodes.\<close>

function replay_log ::
  "('s, 'g1, 'g2, 'gt) bls \<Rightarrow> ('g1 wal_row \<Rightarrow> 'st \<Rightarrow> 'st) \<Rightarrow> read_event list \<Rightarrow> bytes \<Rightarrow> 'st \<Rightarrow>
    (io_error, unit) result \<times> 'st" where
  "replay_log C handler es inp st =
     (case read_record es inp [] of
        (Err e, _, _) \<Rightarrow> (Err e, st)
      | (Ok None, _, _) \<Rightarrow> (Ok (), st)
      | (Ok (Some buf), rest, es') \<Rightarrow>
          (case row_from_bytes C buf of
             Err e \<Rightarrow> (Err e, st)
           | Ok r \<Rightarrow> replay_log C handler es' rest (handler r st)))"
  by pat_completeness auto
termination
  by (relation "measure (\<lambda>(C, handler, es, inp, st). length inp)")
    (auto simp: RECORD_LEN_def dest!: sym [where t = "read_record _ _ _"] read_record_length)

declare replay_log.simps [simp del]

text \<open>The loop of \<open>prune_before\<close>: the rows to keep; \<open>fail_at\<close> counts down the writes to the
  temporary file before one fails.\<close>

function prune_loop ::
  "read_event list \<Rightarrow> bytes \<Rightarrow> u64 \<Rightarrow> nat option \<Rightarrow> bytes \<Rightarrow> (io_error, bytes) result" where
  "prune_loop es inp min_seq fail_at temp =
     (case read_record es inp [] of
        (Err e, _, _) \<Rightarrow> Err e
      | (Ok None, _, _) \<Rightarrow> Ok temp
      | (Ok (Some buf), rest, es') \<Rightarrow>
          (if min_seq \<le> u64_from_be_bytes (slice 8 16 buf) then
             (case fail_at of
                Some 0 \<Rightarrow> Err OsError
              | Some (Suc n) \<Rightarrow> prune_loop es' rest min_seq (Some n) (temp @ buf)
              | None \<Rightarrow> prune_loop es' rest min_seq None (temp @ buf))
           else prune_loop es' rest min_seq fail_at temp))"
  by pat_completeness auto
termination
  by (relation "measure (\<lambda>(es, inp, min_seq, fail_at, temp). length inp)")
    (auto simp: RECORD_LEN_def dest!: sym [where t = "read_record _ _ _"] read_record_length)

declare prune_loop.simps [simp del]

text \<open>Outcomes of the system calls of \<open>prune_before\<close>, in order (\<open>True\<close>: it succeeds).\<close>

record prune_io =
  p_sync :: bool
  p_open :: bool
  p_temp_open :: bool
  p_reads :: "read_event list"
  p_write_fail :: "nat option"
  p_temp_sync :: bool
  p_rename :: bool
  p_reopen :: bool
  p_dir_sync :: bool

definition prune_io_ok :: prune_io where
  "prune_io_ok = \<lparr>p_sync = True, p_open = True, p_temp_open = True, p_reads = [],
     p_write_fail = None, p_temp_sync = True, p_rename = True, p_reopen = True,
     p_dir_sync = True\<rparr>"

definition prune_before ::
  "prune_io \<Rightarrow> u64 \<Rightarrow> wal \<Rightarrow> (io_error, unit) result \<times> wal" where
  "prune_before io min_seq w =
     (if \<not> p_sync io then (Err OsError, w)
      else
        let w1 = (if detached w then w else w\<lparr>durable := content w\<rparr>) in
        if \<not> p_open io then (Err OsError, w1)
        else if \<not> p_temp_open io then (Err OsError, w1)
        else case prune_loop (p_reads io) (content w1) min_seq (p_write_fail io) [] of
          Err e \<Rightarrow> (Err e, w1)
        | Ok temp \<Rightarrow>
            if \<not> p_temp_sync io then (Err OsError, w1)
            else if \<not> p_rename io then (Err OsError, w1)
            else
              let w2 = w1\<lparr>content := temp, detached := True\<rparr> in
              if \<not> p_reopen io then (Err OsError, w2)
              else
                let w3 = w2\<lparr>detached := False\<rparr> in
                if \<not> p_dir_sync io then (Err OsError, w3)
                else (Ok (), w3\<lparr>durable := content w3\<rparr>))"

section \<open>Files of whole rows\<close>

definition encode_rows :: "('s, 'g1, 'g2, 'gt) bls \<Rightarrow> 'g1 wal_row list \<Rightarrow> bytes" where
  "encode_rows C rs = concat (map (row_to_bytes C) rs)"

lemma encode_rows_simps [simp]:
  "encode_rows C [] = []" "encode_rows C (r # rs) = row_to_bytes C r @ encode_rows C rs"
  "encode_rows C (rs @ rs') = encode_rows C rs @ encode_rows C rs'"
  by (simp_all add: encode_rows_def)

definition no_fault :: "read_event list \<Rightarrow> bool" where
  "no_fault es \<longleftrightarrow> ReadFails \<notin> set es"

text \<open>One whole buffer, the clean end, and a torn tail.\<close>

lemma read_record_full:
  assumes "no_fault es" "length b = RECORD_LEN"
  obtains es' where "read_record es (b @ rest) [] = (Ok (Some b), rest, es')" "no_fault es'"
proof -
  have "read_record [] (b @ rest) [] = (Ok (Some b), rest, [])" using assms(2) by (simp add: Let_def)
  then show ?thesis
    using read_record_schedule [of es "[]" "b @ rest"] assms(1) that
    by (cases "read_record es (b @ rest) []") (auto simp: no_fault_def)
qed

lemma read_record_end:
  assumes "no_fault es"
  obtains es' where "read_record es [] [] = (Ok None, [], es')"
proof -
  have "read_record [] [] [] = (Ok None, [], [])" by (simp add: Let_def RECORD_LEN_def)
  then show ?thesis
    using read_record_schedule [of es "[]" "[]"] assms that
    by (cases "read_record es [] []") (auto simp: no_fault_def)
qed

lemma read_record_torn:
  assumes "no_fault es" "inp \<noteq> []" "length inp < RECORD_LEN"
  obtains rest es' where "read_record es inp [] = (Err UnexpectedEof, rest, es')"
proof -
  have "read_record [] inp [] = (Err UnexpectedEof, [], [])" using assms by (simp add: Let_def)
  then show ?thesis
    using read_record_schedule [of es "[]" inp] assms that
    by (cases "read_record es inp []") (auto simp: no_fault_def)
qed

text \<open>A row the file can hold: its signature has an encoding, as all have under
  \<open>g1_codec_laws\<close>.\<close>

definition storable :: "('s, 'g1, 'g2, 'gt) bls \<Rightarrow> 'g1 wal_row \<Rightarrow> bool" where
  "storable C r \<longleftrightarrow> row_wf r \<and> g1_encodable C (row_signature r)"

lemma storableI: "g1_codec_laws C \<Longrightarrow> row_wf r \<Longrightarrow> storable C r"
  by (simp add: storable_def g1_encodableI)

lemma storable_rows: "g1_codec_laws C \<Longrightarrow> \<forall>r\<in>set rs. row_wf r \<Longrightarrow> \<forall>r\<in>set rs. storable C r"
  by (simp add: storableI)

lemma length_storable: "storable C r \<Longrightarrow> length (row_to_bytes C r) = 101"
  by (simp add: row_to_bytes_def row_wf_def storable_def g1_encodable_def)

lemma row_from_storable:
  assumes "storable C r"
  shows "row_from_bytes C (row_to_bytes C r @ rest) = Ok r"
  using assms
  by (simp add: storable_def g1_encodable_def row_wf_def row_from_bytes_def row_to_bytes_def
      slice_append_right slice_def nth_append)

lemma replay_log_row:
  assumes "storable C r" "no_fault es"
  obtains es' where "no_fault es'"
    "replay_log C h es (row_to_bytes C r @ rest) st = replay_log C h es' rest (h r st)"
proof -
  obtain es' where "read_record es (row_to_bytes C r @ rest) [] =
      (Ok (Some (row_to_bytes C r)), rest, es')" "no_fault es'"
    using read_record_full assms by (metis RECORD_LEN_def length_storable)
  then have "replay_log C h es (row_to_bytes C r @ rest) st = replay_log C h es' rest (h r st)"
    using row_from_storable [OF assms(1), of "[]"] by (simp add: replay_log.simps [of C h es])
  then show ?thesis using that \<open>no_fault es'\<close> by blast
qed

text \<open>Replay of rows followed by a tail: the handler sees the rows, in order, once each.\<close>

lemma replay_log_rows:
  assumes "\<forall>r\<in>set rs. storable C r" "no_fault es"
  shows "\<exists>es'. no_fault es' \<and> replay_log C h es (encode_rows C rs @ tail) st =
    replay_log C h es' tail (fold h rs st)"
  using assms
proof (induction rs arbitrary: es st)
  case Nil
  then show ?case by auto
next
  case (Cons r rs)
  have r: "storable C r" "\<forall>r\<in>set rs. storable C r" using Cons.prems by simp_all
  obtain es1 where es1: "no_fault es1"
    "replay_log C h es (row_to_bytes C r @ (encode_rows C rs @ tail)) st =
      replay_log C h es1 (encode_rows C rs @ tail) (h r st)"
    by (rule replay_log_row [OF r(1) Cons.prems(2)])
  then show ?case using Cons.IH [OF r(2) es1(1), of "h r st"] by simp
qed

lemma replay_log_stored:
  assumes "\<forall>r\<in>set rs. storable C r" "no_fault es"
  shows "replay_log C h es (encode_rows C rs) st = (Ok (), fold h rs st)"
proof -
  obtain es' where "no_fault es'"
    "replay_log C h es (encode_rows C rs @ []) st = replay_log C h es' [] (fold h rs st)"
    using replay_log_rows [OF assms, of h "[]" st] by (elim exE conjE)
  moreover obtain es'' where "read_record es' [] [] = (Ok None, [], es'')"
    using read_record_end \<open>no_fault es'\<close> by blast
  ultimately show ?thesis by (simp add: replay_log.simps [of C h es' "[]" "fold h rs st"])
qed

lemmas replay_log_encoded = replay_log_stored [OF storable_rows]

lemma replay_log_torn:
  assumes "g1_codec_laws C" "\<forall>r\<in>set rs. row_wf r" "no_fault es"
    and "tail \<noteq> []" "length tail < 101"
  shows "replay_log C h es (encode_rows C rs @ tail) st = (Err UnexpectedEof, fold h rs st)"
proof -
  obtain es' where "no_fault es'"
    "replay_log C h es (encode_rows C rs @ tail) st = replay_log C h es' tail (fold h rs st)"
    using replay_log_rows [OF storable_rows [OF assms(1,2)] assms(3), of h tail st] by (elim exE conjE)
  moreover obtain rest es'' where "read_record es' tail [] = (Err UnexpectedEof, rest, es'')"
    using read_record_torn assms(4,5) \<open>no_fault es'\<close> by (metis RECORD_LEN_def)
  ultimately show ?thesis by (simp add: replay_log.simps [of C h es' tail "fold h rs st"])
qed

text \<open>The converse: a file that replays is the encoding of the rows the handler saw.\<close>

lemma read_record_Some:
  assumes "no_fault es" "read_record es inp [] = (Ok (Some b), rest, es')"
  shows "inp = b @ rest \<and> length b = RECORD_LEN \<and> no_fault es'"
  using read_record_schedule [of es "[]" inp] assms
  by (auto simp: no_fault_def Let_def split: if_splits)

lemma read_record_None:
  assumes "no_fault es" "read_record es inp [] = (Ok None, rest, es')"
  shows "inp = []"
  using read_record_schedule [of es "[]" inp] assms
  by (auto simp: no_fault_def Let_def split: if_splits)

lemma replay_log_Ok:
  assumes C: "g1_codec_laws C"
  shows "replay_log C h es inp st = (Ok u, st') \<Longrightarrow> no_fault es \<Longrightarrow>
    \<exists>rs. inp = encode_rows C rs \<and> (\<forall>r\<in>set rs. row_wf r) \<and> st' = fold h rs st"
proof (induction "length inp" arbitrary: es inp st rule: less_induct)
  case less
  obtain res rest es' where rr: "read_record es inp [] = (res, rest, es')"
    by (metis prod_cases3)
  show ?case
  proof (cases res)
    case (Inl e)
    then show ?thesis using less.prems rr by (simp add: replay_log.simps [of C h es])
  next
    case (Inr ob)
    show ?thesis
    proof (cases ob)
      case None
      then have "inp = []" "st' = st"
        using less.prems rr Inr read_record_None by (auto simp: replay_log.simps [of C h es])
      then show ?thesis by (auto intro: exI [of _ "[]"])
    next
      case (Some b)
      have b: "inp = b @ rest" "length b = 101" "no_fault es'"
        using read_record_Some [OF less.prems(2)] rr Inr Some by (auto simp: RECORD_LEN_def)
      obtain r where r: "row_from_bytes C b = Ok r"
        and rec: "replay_log C h es' rest (h r st) = (Ok u, st')"
        using less.prems(1) rr Inr Some
        by (auto simp: replay_log.simps [of C h es] split: sum.splits)
      obtain rs where "rest = encode_rows C rs" "\<forall>r\<in>set rs. row_wf r" "st' = fold h rs (h r st)"
        using less.hyps [OF _ rec b(3)] b by auto
      moreover have "row_to_bytes C r = b" "row_wf r"
        using row_to_from [OF C r] row_from_bytes_wf [OF r] b(2) by simp_all
      ultimately show ?thesis using b(1) by (intro exI [of _ "r # rs"]) simp
    qed
  qed
qed

text \<open>Pruning a file of whole rows filters them.\<close>

lemma row_seq_slice:
  "u64_from_be_bytes (slice 8 16 (row_to_bytes C r)) = row_seq r"
  by (simp add: row_to_bytes_def slice_append_right)

lemma prune_loop_stored:
  "\<forall>r\<in>set rs. storable C r \<Longrightarrow> no_fault es \<Longrightarrow>
    prune_loop es (encode_rows C rs) n None temp =
      Ok (temp @ encode_rows C (filter (\<lambda>r. n \<le> row_seq r) rs))"
proof (induction rs arbitrary: es temp)
  case Nil
  obtain es' where "read_record es [] [] = (Ok None, [], es')"
    using read_record_end Nil by blast
  then show ?case by (simp add: prune_loop.simps [of es])
next
  case (Cons r rs)
  obtain es' where "read_record es (row_to_bytes C r @ encode_rows C rs) [] =
      (Ok (Some (row_to_bytes C r)), encode_rows C rs, es')" "no_fault es'"
    using read_record_full Cons.prems
    by (metis RECORD_LEN_def length_storable list.set_intros(1))
  then show ?case
    using Cons by (simp add: prune_loop.simps [of es] row_seq_slice)
qed

lemma prune_written:
  assumes "\<forall>r\<in>set rs. storable C r"
  shows "prune_before prune_io_ok n (wal_open (encode_rows C rs)) =
    (Ok (), wal_open (encode_rows C (filter (\<lambda>r. n \<le> row_seq r) rs)))"
  using prune_loop_stored [OF assms, of "[]" n "[]"]
  by (simp add: prune_before_def prune_io_ok_def no_fault_def wal_open_def Let_def)

lemma prune_loop_Ok:
  assumes C: "g1_codec_laws C"
  shows "\<forall>r\<in>set rs. row_wf r \<Longrightarrow> no_fault es \<Longrightarrow>
    prune_loop es (encode_rows C rs) n fa temp = Ok out \<Longrightarrow>
    out = temp @ encode_rows C (filter (\<lambda>r. n \<le> row_seq r) rs)"
proof (induction rs arbitrary: es fa temp)
  case Nil
  obtain es' where "read_record es [] [] = (Ok None, [], es')"
    using read_record_end Nil by blast
  then show ?case using Nil by (simp add: prune_loop.simps [of es])
next
  case (Cons r rs)
  have r: "row_wf r" "\<forall>r\<in>set rs. row_wf r" using Cons.prems by simp_all
  obtain es' where es': "read_record es (row_to_bytes C r @ encode_rows C rs) [] =
      (Ok (Some (row_to_bytes C r)), encode_rows C rs, es')" "no_fault es'"
    using read_record_full [OF Cons.prems(2)] length_row_to_bytes [OF C r(1)]
    by (metis RECORD_LEN_def)
  then show ?case
    using Cons.prems(3)
    by (auto simp: prune_loop.simps [of es] row_seq_slice
        split: if_splits option.splits nat.splits dest!: Cons.IH [OF r(2) es'(2)])
qed

text \<open>Replaying an empty file runs the handler on no row.\<close>

lemma replay_log_empty:
  "replay_log C h es [] st = (Ok u, st') \<Longrightarrow> st' = st"
  using read_record_length [of es "[]" "[]"]
  by (subst (asm) replay_log.simps)
    (fastforce split: prod.splits sum.splits option.splits simp: RECORD_LEN_def)

text \<open>However the file is read in pieces, the replay is that of one read per record.\<close>

lemma read_record_some_buf:
  assumes "read_record es inp [] = (Ok (Some b), rest, es')"
  shows "length rest < length inp"
  using read_record_length [OF assms] by (simp add: RECORD_LEN_def)

lemma replay_log_schedule:
  "no_fault es \<Longrightarrow> replay_log C h es inp st = replay_log C h [] inp st"
proof (induction "length inp" arbitrary: es inp st rule: less_induct)
  case less
  have S: "fst (read_record es inp []) = fst (read_record [] inp [])"
    "isl (fst (read_record [] inp [])) \<or>
      fst (snd (read_record es inp [])) = fst (snd (read_record [] inp []))"
    "no_fault (snd (snd (read_record es inp [])))"
    using read_record_schedule [of es "[]" inp] less.prems by (auto simp: no_fault_def)
  obtain res rest es' where r0: "read_record [] inp [] = (res, rest, es')" by (metis prod_cases3)
  then have es': "es' = []"
    by (auto split: if_splits)
  obtain rest1 es1 where r1: "read_record es inp [] = (res, rest1, es1)"
    using S(1) r0 by (metis fst_conv prod_cases3)
  show ?case
  proof (cases res)
    case (Inl e)
    then show ?thesis
      using r0 r1 by (simp add: replay_log.simps [of C h es] replay_log.simps [of C h "[]"] del: read_record.simps)
  next
    case (Inr ob)
    have rest: "rest1 = rest" and nf: "no_fault es1"
      using S(2,3) Inr by (simp_all add: r0 r1 del: read_record.simps)
    show ?thesis
    proof (cases ob)
      case None
      then show ?thesis
        using r0 r1 Inr by (simp add: replay_log.simps [of C h es] replay_log.simps [of C h "[]"] del: read_record.simps)
    next
      case (Some b)
      have "length rest < length inp" using read_record_some_buf r0 Inr Some by blast
      from less.hyps [OF this nf] show ?thesis
        using r0 r1 Inr Some rest es'
        by (auto simp: replay_log.simps [of C h es inp] replay_log.simps [of C h "[]" inp]
            simp del: read_record.simps split: sum.splits)
    qed
  qed
qed

lemma length_encode_filter: "length (encode_rows C (filter P rs)) \<le> length (encode_rows C rs)"
  by (induction rs) auto

section \<open>The contract of the log\<close>

text \<open>Appends in sequence, stopping at the first error.\<close>

fun append_all ::
  "('aio \<Rightarrow> 'r \<Rightarrow> 'w \<Rightarrow> ('e, unit) result \<times> 'w) \<Rightarrow> ('aio \<times> 'r) list \<Rightarrow> 'w \<Rightarrow> 'w option" where
  "append_all f [] w = Some w"
| "append_all f ((io, r) # xs) w =
     (case f io r w of (Ok u, w') \<Rightarrow> append_all f xs w' | (Err e, w') \<Rightarrow> None)"

text \<open>\<open>wal_log C w rs\<close>: the log \<open>w\<close> holds the rows \<open>rs\<close>, all of them durable.\<close>

definition wal_log :: "('s, 'g1, 'g2, 'gt) bls \<Rightarrow> wal \<Rightarrow> 'g1 wal_row list \<Rightarrow> bool" where
  "wal_log C w rs \<longleftrightarrow> content w = encode_rows C rs \<and> durable w = content w \<and> \<not> detached w \<and>
     (\<forall>r\<in>set rs. row_wf r)"

locale append_log =
  fixes valid :: "'c \<Rightarrow> bool"
    and log :: "'c \<Rightarrow> 'w \<Rightarrow> 'r list \<Rightarrow> bool"
    and wf :: "'r \<Rightarrow> bool"
    and seq_of :: "'r \<Rightarrow> u64"
    and append :: "'c \<Rightarrow> 'aio \<Rightarrow> 'r \<Rightarrow> 'w \<Rightarrow> ('e, unit) result \<times> 'w"
    and prune :: "'c \<Rightarrow> 'pio \<Rightarrow> u64 \<Rightarrow> 'w \<Rightarrow> ('e, unit) result \<times> 'w"
    and quiet :: "'pio \<Rightarrow> bool"
    and image :: "'w \<Rightarrow> 'b \<Rightarrow> bool"
    and stored :: "'c \<Rightarrow> 'b \<Rightarrow> 'r list \<Rightarrow> bool"
  assumes append_ok:
      "valid c \<Longrightarrow> log c w rs \<Longrightarrow> wf r \<Longrightarrow> append c io r w = (Ok u, w') \<Longrightarrow> log c w' (rs @ [r])"
    and prune_ok:
      "valid c \<Longrightarrow> log c w rs \<Longrightarrow> quiet pio \<Longrightarrow> prune c pio n w = (Ok u, w') \<Longrightarrow>
        log c w' (filter (\<lambda>r. n \<le> seq_of r) rs)"
    and image_log: "log c w rs \<Longrightarrow> image w b \<Longrightarrow> stored c b rs"
begin

text \<open>A history of acknowledged appends ends in a log that holds exactly them, and every crash
  afterwards finds them on disk.\<close>

lemma appends_log:
  "valid c \<Longrightarrow> log c w rs \<Longrightarrow> \<forall>x\<in>set xs. wf (snd x) \<Longrightarrow> append_all (append c) xs w = Some w' \<Longrightarrow>
    log c w' (rs @ map snd xs)"
proof (induction xs arbitrary: w rs)
  case Nil
  then show ?case by simp
next
  case (Cons x xs)
  obtain io r where x: "x = (io, r)" by (cases x)
  obtain u w1 where w1: "append c io r w = (Ok u, w1)" "append_all (append c) xs w1 = Some w'"
    using Cons.prems x by (auto split: prod.splits sum.splits)
  have "log c w1 (rs @ [r])" using append_ok Cons.prems x w1 by auto
  then show ?case using Cons.IH [of w1 "rs @ [r]"] Cons.prems x w1 by simp
qed

lemma acknowledged_survives_crash:
  assumes "valid c" "log c w rs" "wf r" "append c io r w = (Ok u, w')" "image w' b"
  shows "stored c b (rs @ [r])"
  using append_ok [OF assms(1-4)] assms(5) by (rule image_log)

end

lemma append_entry_ok_log:
  assumes "wal_log C w rs" "row_wf r" "append_entry C io r w = (Ok u, w')"
  shows "wal_log C w' (rs @ [r])"
  using assms by (auto simp: wal_log_def append_entry_def Let_def split: if_splits option.splits)

lemma prune_before_ok_log:
  assumes C: "g1_codec_laws C" and w: "wal_log C w rs" and io: "no_fault (p_reads io)"
    and p: "prune_before io n w = (Ok u, w')"
  shows "wal_log C w' (filter (\<lambda>r. n \<le> row_seq r) rs)"
proof -
  obtain temp where t: "prune_loop (p_reads io) (content w) n (p_write_fail io) [] = Ok temp"
    and w': "w' = w\<lparr>content := temp, durable := temp, detached := False\<rparr>"
    using p w by (auto simp: prune_before_def wal_log_def Let_def split: if_splits sum.splits)
  have "temp = encode_rows C (filter (\<lambda>r. n \<le> row_seq r) rs)"
    using prune_loop_Ok [OF C _ io, of rs n "p_write_fail io" "[]" temp] t w
    by (simp add: wal_log_def)
  then show ?thesis using w w' by (auto simp: wal_log_def)
qed

lemma crash_image_log: "wal_log C w rs \<Longrightarrow> crash_image w b \<Longrightarrow> b = encode_rows C rs"
  by (auto simp: wal_log_def crash_image_def)

interpretation wal: append_log g1_codec_laws wal_log row_wf row_seq append_entry
  "\<lambda>C. prune_before" "\<lambda>io. no_fault (p_reads io)" crash_image "\<lambda>C b rs. b = encode_rows C rs"
  by unfold_locales (auto intro: append_entry_ok_log prune_before_ok_log crash_image_log)

end
