(* ===== verification/Pbft_Certs.thy ===== *)
theory Pbft_Certs
  imports Wire "HOL-Library.List_Lexorder"
begin

text \<open>
  The certificates of \<open>pbft.rs\<close>: prepared, commit and new-view certificates with their
  verification, and the two selection routines of a view change, \<open>highest_view_change_slot\<close> and
  \<open>select_highest_prepared_certificate\<close>. The lemmas characterise what the routines return, and
  that the unspecified iteration order of the hash maps does not influence it.
\<close>

section \<open>Prepared and commit certificates\<close>

record 'g1 prepared_certificate =
  pc_view :: u64
  pc_seq :: u64
  pc_digest :: bytes
  pc_signatures :: "(u32, 'g1) fmap"

definition pc_verify ::
  "('s::field, 'g1::ab_group_add, 'g2, 'gt) bls \<Rightarrow> usize \<Rightarrow> 'g2 \<Rightarrow> 'g1 prepared_certificate \<Rightarrow> bool"
  where
  "pc_verify C quorum_size master_pk cert =
     verify_threshold_signature C
       (canonical_msg (phase_u8 Prepare) (pc_view cert) (pc_seq cert) (pc_digest cert))
       (pc_signatures cert) master_pk quorum_size"

record 'g1 commit_certificate =
  cc_view :: u64
  cc_seq :: u64
  cc_digest :: bytes
  cc_signatures :: "(u32, 'g1) fmap"

definition cc_verify ::
  "('s::field, 'g1::ab_group_add, 'g2, 'gt) bls \<Rightarrow> usize \<Rightarrow> 'g2 \<Rightarrow> 'g1 commit_certificate \<Rightarrow> bool"
  where
  "cc_verify C quorum_size master_pk cert =
     verify_threshold_signature C
       (canonical_msg (phase_u8 Commit) (cc_view cert) (cc_seq cert) (cc_digest cert))
       (cc_signatures cert) master_pk quorum_size"

section \<open>The highest slot of a view-change quorum\<close>

text \<open>A vote: reported sequence, digest and signature.\<close>

type_synonym 'g1 vc_vote = "u64 \<times> bytes \<times> 'g1"

fun iter_max :: "u64 list \<Rightarrow> u64 option" where
  "iter_max [] = None"
| "iter_max (x # xs) = Some (fold max xs x)"

text \<open>The loop over the votes at the highest sequence: \<open>None\<close> is the early return on a conflict,
  otherwise the digest found, if any.\<close>

fun digest_scan :: "u64 \<Rightarrow> 'g1 vc_vote list \<Rightarrow> bytes option \<Rightarrow> bytes option option" where
  "digest_scan max_seq [] digest_at_max = Some digest_at_max"
| "digest_scan max_seq ((seq, digest, sig) # vs) digest_at_max =
     (if seq \<noteq> max_seq then digest_scan max_seq vs digest_at_max
      else case digest_at_max of
        Some existing \<Rightarrow>
          (if existing \<noteq> digest then None else digest_scan max_seq vs digest_at_max)
      | None \<Rightarrow> digest_scan max_seq vs (Some digest))"

definition highest_slot_of :: "'g1 vc_vote list \<Rightarrow> (u64 \<times> bytes) option" where
  "highest_slot_of vs =
     (case iter_max (map fst vs) of
        None \<Rightarrow> None
      | Some max_seq \<Rightarrow>
          (if max_seq = 0 then Some (0, replicate 32 0)
           else case digest_scan max_seq vs None of
             None \<Rightarrow> None
           | Some digest_at_max \<Rightarrow> map_option (\<lambda>digest. (max_seq, digest)) digest_at_max))"

definition highest_view_change_slot :: "(u32, 'g1 vc_vote) fmap \<Rightarrow> (u64 \<times> bytes) option" where
  "highest_view_change_slot votes = highest_slot_of (hm_values votes)"

lemma fold_max_ge: "y \<le> fold max xs (y :: u64) \<and> (\<forall>x\<in>set xs. x \<le> fold max xs y)"
proof (induction xs arbitrary: y)
  case (Cons a xs)
  show ?case using Cons.IH [of "max a y"] by (simp add: max.commute)
qed simp

lemma fold_max_in: "fold max xs (y :: u64) \<in> insert y (set xs)"
  by (induction xs arbitrary: y) (auto simp: max_def)

lemma iter_max_Some:
  "iter_max xs = Some m \<longleftrightarrow> m \<in> set xs \<and> (\<forall>x\<in>set xs. x \<le> m)"
proof (cases xs)
  case Nil
  then show ?thesis by simp
next
  case (Cons y ys)
  then show ?thesis
    using fold_max_ge [where y = y and xs = ys] fold_max_in [of ys y] by (auto intro: antisym)
qed

lemma iter_max_None [simp]: "iter_max xs = None \<longleftrightarrow> xs = []"
  by (cases xs) simp_all

lemma digest_scan_Some:
  "digest_scan m vs (Some e) =
     (if \<forall>v\<in>set vs. fst v = m \<longrightarrow> fst (snd v) = e then Some (Some e) else None)"
proof (induction vs)
  case (Cons v vs)
  then show ?case by (cases v) (auto split: if_splits)
qed simp

lemma digest_scan_None:
  "digest_scan m vs None = Some (Some d) \<longleftrightarrow>
     (\<exists>v\<in>set vs. fst v = m) \<and> (\<forall>v\<in>set vs. fst v = m \<longrightarrow> fst (snd v) = d)"
proof (induction vs)
  case (Cons v vs)
  obtain s e g where v: "v = (s, e, g)" by (metis prod_cases3)
  show ?case
  proof (cases "s = m")
    case True
    then show ?thesis by (auto simp: v digest_scan_Some)
  next
    case False
    then show ?thesis using Cons by (simp add: v)
  qed
qed simp

text \<open>The slot is the maximal sequence with the one digest all votes at it carry; sequence zero
  stands for no prepared value.\<close>

lemma highest_slot_of_iff:
  "highest_slot_of vs = Some (m, d) \<longleftrightarrow>
     m \<in> fst ` set vs \<and> (\<forall>v\<in>set vs. fst v \<le> m) \<and>
     (if m = 0 then d = replicate 32 0
      else \<forall>v\<in>set vs. fst v = m \<longrightarrow> fst (snd v) = d)"
proof (cases "iter_max (map fst vs)")
  case None
  then show ?thesis by (simp add: highest_slot_of_def)
next
  case (Some k)
  then have k: "k \<in> fst ` set vs" "\<forall>v\<in>set vs. fst v \<le> k"
    by (auto simp: iter_max_Some)
  have uniq: "m \<in> fst ` set vs \<and> (\<forall>v\<in>set vs. fst v \<le> m) \<longleftrightarrow> m = k"
    using k by (auto intro: antisym)
  have slot: "highest_slot_of vs = Some (m, d) \<longleftrightarrow> m = k \<and>
      (if k = 0 then d = replicate 32 0 else digest_scan k vs None = Some (Some d))"
    using Some by (auto simp: highest_slot_of_def split: option.splits)
  have "\<exists>v\<in>set vs. fst v = k" using k(1) by auto
  then show ?thesis using slot uniq by (auto simp: digest_scan_None split: if_splits)
qed

lemma highest_view_change_slot_iff:
  "highest_view_change_slot votes = Some (m, d) \<longleftrightarrow>
     (\<exists>i v. fmlookup votes i = Some v \<and> fst v = m) \<and>
     (\<forall>i v. fmlookup votes i = Some v \<longrightarrow> fst v \<le> m) \<and>
     (if m = 0 then d = replicate 32 0
      else \<forall>i v. fmlookup votes i = Some v \<longrightarrow> fst v = m \<longrightarrow> fst (snd v) = d)"
proof -
  have all: "(\<forall>v\<in>set (hm_values votes). P v) \<longleftrightarrow> (\<forall>i v. fmlookup votes i = Some v \<longrightarrow> P v)" for P
    by (auto simp: set_hm_values)
  have ex: "m \<in> fst ` set (hm_values votes) \<longleftrightarrow> (\<exists>i v. fmlookup votes i = Some v \<and> fst v = m)"
    by (force simp: set_hm_values)
  show ?thesis unfolding highest_view_change_slot_def highest_slot_of_iff all ex ..
qed

text \<open>The order in which the votes are visited is irrelevant.\<close>

lemma highest_slot_order: "set vs = set vs' \<Longrightarrow> highest_slot_of vs = highest_slot_of vs'"
proof -
  assume "set vs = set vs'"
  then have "highest_slot_of vs = Some x \<longleftrightarrow> highest_slot_of vs' = Some x" for x
    by (cases x) (auto simp: highest_slot_of_iff)
  then show ?thesis by (metis option.exhaust)
qed

section \<open>Selecting a prepared certificate\<close>

definition sorted_signers :: "'g1 prepared_certificate \<Rightarrow> u32 list" where
  "sorted_signers c = sorted_list_of_fset (fmdom (pc_signatures c))"

text \<open>The comparator of \<open>sort_by\<close> (not greater): later views first, then the signer lists.\<close>

definition cert_le :: "'g1 prepared_certificate \<Rightarrow> 'g1 prepared_certificate \<Rightarrow> bool" where
  "cert_le a b \<longleftrightarrow>
     pc_view b < pc_view a \<or> (pc_view b = pc_view a \<and> sorted_signers a \<le> sorted_signers b)"

text \<open>A stable sort by a comparator.\<close>

fun insert_by :: "('a \<Rightarrow> 'a \<Rightarrow> bool) \<Rightarrow> 'a \<Rightarrow> 'a list \<Rightarrow> 'a list" where
  "insert_by le x [] = [x]"
| "insert_by le x (y # ys) = (if le x y then x # y # ys else y # insert_by le x ys)"

definition sort_by :: "('a \<Rightarrow> 'a \<Rightarrow> bool) \<Rightarrow> 'a list \<Rightarrow> 'a list" where
  "sort_by le xs = foldr (insert_by le) xs []"

definition select_highest_prepared_certificate ::
  "('s::field, 'g1::ab_group_add, 'g2, 'gt) bls \<Rightarrow> 'g1 prepared_certificate list \<Rightarrow> u64 \<Rightarrow> u64 \<Rightarrow>
    bytes \<Rightarrow> usize \<Rightarrow> 'g2 \<Rightarrow> 'g1 prepared_certificate option" where
  "select_highest_prepared_certificate C certificates target_view seq digest quorum_size master_pk =
     (let candidates = sort_by cert_le (filter (\<lambda>cert.
            pc_view cert < target_view \<and> pc_seq cert = seq \<and> pc_digest cert = digest \<and>
            pc_verify C quorum_size master_pk cert) certificates)
      in case candidates of [] \<Rightarrow> None | c # _ \<Rightarrow> Some c)"

lemma set_insert_by [simp]: "set (insert_by le x ys) = insert x (set ys)"
  by (induction ys) auto

lemma set_sort_by [simp]: "set (sort_by le xs) = set xs"
  by (induction xs) (simp_all add: sort_by_def)

lemma hd_insert_by:
  "hd (insert_by le x ys) = (if ys = [] \<or> le x (hd ys) then x else hd ys)"
  by (cases ys) auto

text \<open>For a total preorder the head of the sorted list is least.\<close>

lemma hd_sort_by_least:
  assumes total: "\<And>a b. le a b \<or> le b a" and trans: "\<And>a b c. le a b \<Longrightarrow> le b c \<Longrightarrow> le a c"
  shows "x \<in> set xs \<Longrightarrow> le (hd (sort_by le xs)) x"
proof (induction xs arbitrary: x)
  case Nil
  then show ?case by simp
next
  case (Cons y ys)
  show ?case
  proof (cases "ys = []")
    case True
    then show ?thesis using Cons.prems total [of y y] by (simp add: sort_by_def)
  next
    case False
    let ?h = "hd (sort_by le ys)"
    have ne: "sort_by le ys \<noteq> []" using False by (metis set_empty set_sort_by)
    have "hd (sort_by le (y # ys)) = (if le y ?h then y else ?h)"
      using ne by (simp add: sort_by_def hd_insert_by)
    moreover have "le y y" using total by blast
    ultimately show ?thesis
      using Cons.prems Cons.IH total trans by (metis set_ConsD)
  qed
qed

lemma cert_le_total: "cert_le a b \<or> cert_le b a"
  by (auto simp: cert_le_def)

lemma cert_le_trans: "cert_le a b \<Longrightarrow> cert_le b c \<Longrightarrow> cert_le a c"
  by (auto simp: cert_le_def)

definition cert_eligible ::
  "('s::field, 'g1::ab_group_add, 'g2, 'gt) bls \<Rightarrow> u64 \<Rightarrow> u64 \<Rightarrow> bytes \<Rightarrow> usize \<Rightarrow> 'g2 \<Rightarrow>
    'g1 prepared_certificate \<Rightarrow> bool" where
  "cert_eligible C tv s d q pk c \<longleftrightarrow>
     pc_view c < tv \<and> pc_seq c = s \<and> pc_digest c = d \<and> pc_verify C q pk c"

lemma select_highest_eq:
  "select_highest_prepared_certificate C certs tv s d q pk =
     (case sort_by cert_le (filter (cert_eligible C tv s d q pk) certs) of
        [] \<Rightarrow> None | c # _ \<Rightarrow> Some c)"
  by (simp add: select_highest_prepared_certificate_def cert_eligible_def [abs_def] Let_def)

lemma sort_by_Nil [simp]: "sort_by le xs = [] \<longleftrightarrow> xs = []"
  by (metis set_empty set_sort_by)

lemma select_highest_None:
  "select_highest_prepared_certificate C certs tv s d q pk = None \<longleftrightarrow>
    (\<forall>c\<in>set certs. \<not> cert_eligible C tv s d q pk c)"
proof -
  have "select_highest_prepared_certificate C certs tv s d q pk = None \<longleftrightarrow>
      sort_by cert_le (filter (cert_eligible C tv s d q pk) certs) = []"
    unfolding select_highest_eq
    by (cases "sort_by cert_le (filter (cert_eligible C tv s d q pk) certs)")
      (simp_all del: sort_by_Nil)
  then show ?thesis by (simp add: filter_empty_conv)
qed

text \<open>The selected certificate is eligible and first among all eligible ones.\<close>

lemma select_highest_Some:
  assumes "select_highest_prepared_certificate C certs tv s d q pk = Some c"
  shows "c \<in> set certs" "cert_eligible C tv s d q pk c"
    and "\<And>c'. c' \<in> set certs \<Longrightarrow> cert_eligible C tv s d q pk c' \<Longrightarrow> cert_le c c'"
proof -
  let ?xs = "filter (cert_eligible C tv s d q pk) certs"
  obtain cs where cs: "sort_by cert_le ?xs = c # cs"
    using assms unfolding select_highest_eq by (auto split: list.splits)
  then have "c \<in> set ?xs" by (metis list.set_intros(1) set_sort_by)
  then show "c \<in> set certs" "cert_eligible C tv s d q pk c" by simp_all
  show "cert_le c c'" if "c' \<in> set certs" "cert_eligible C tv s d q pk c'" for c'
    using hd_sort_by_least [where le = cert_le and x = c' and xs = ?xs, OF cert_le_total cert_le_trans]
      cs that by simp
qed

text \<open>When equal view and signers mean equal certificates, the order of the input is irrelevant.\<close>

lemma select_highest_order:
  assumes same: "set certs = set certs'"
    and keys: "\<And>a b. a \<in> set certs \<Longrightarrow> b \<in> set certs \<Longrightarrow> pc_seq a = pc_seq b \<Longrightarrow>
      pc_digest a = pc_digest b \<Longrightarrow> pc_view a = pc_view b \<Longrightarrow>
      sorted_signers a = sorted_signers b \<Longrightarrow> a = b"
  shows "select_highest_prepared_certificate C certs tv s d q pk =
    select_highest_prepared_certificate C certs' tv s d q pk"
proof (cases "select_highest_prepared_certificate C certs tv s d q pk")
  case None
  then show ?thesis using same select_highest_None by metis
next
  case (Some c)
  then have "select_highest_prepared_certificate C certs' tv s d q pk \<noteq> None"
    using same select_highest_Some(1,2) [OF Some] by (auto simp: select_highest_None)
  then obtain c' where c': "select_highest_prepared_certificate C certs' tv s d q pk = Some c'"
    by blast
  note S = select_highest_Some [OF Some] and S' = select_highest_Some [OF c']
  have "cert_le c c'" using S(3) S'(1,2) same by simp
  moreover have "cert_le c' c" using S'(3) S(1,2) same by simp
  ultimately have "pc_view c = pc_view c'" "sorted_signers c = sorted_signers c'"
    by (auto simp: cert_le_def)
  moreover have "pc_seq c = pc_seq c'" "pc_digest c = pc_digest c'"
    using S(2) S'(2) by (simp_all add: cert_eligible_def)
  ultimately have "c = c'" using keys [of c c'] S(1) S'(1) same by simp
  then show ?thesis using Some c' by simp
qed

section \<open>New-view certificates\<close>

record 'g1 new_view_certificate =
  nv_target_view :: u64
  nv_view_change_votes :: "(u32, 'g1 vc_vote) fmap"
  nv_selected :: "'g1 prepared_certificate option"

text \<open>The signature check of one vote, under the sender's registered key if there is one.\<close>

definition vc_vote_valid ::
  "('s, 'g1, 'g2, 'gt) bls \<Rightarrow> (u32, 'g2) fmap \<Rightarrow> u64 \<Rightarrow> u32 \<times> 'g1 vc_vote \<Rightarrow> bool" where
  "vc_vote_valid C public_keys target_view v =
     (case v of (node_id, seq, digest, sig) \<Rightarrow>
        (case fmlookup public_keys node_id of
           None \<Rightarrow> False
         | Some pk \<Rightarrow>
             verify_bls_signature C (canonical_msg (phase_u8 ViewChange) target_view seq digest)
               sig pk))"

definition nv_verify ::
  "('s::field, 'g1::ab_group_add, 'g2, 'gt) bls \<Rightarrow> usize \<Rightarrow> 'g2 \<Rightarrow> (u32, 'g2) fmap \<Rightarrow>
    'g1 new_view_certificate \<Rightarrow> bool" where
  "nv_verify C quorum_size master_pk public_keys nv =
     (if hm_len (nv_view_change_votes nv) < unat quorum_size then False
      else case highest_view_change_slot (nv_view_change_votes nv) of
        None \<Rightarrow> False
      | Some (max_quorum_seq, best_digest) \<Rightarrow>
          (case nv_selected nv of
             Some cert \<Rightarrow>
               if \<not> pc_verify C quorum_size master_pk cert then False
               else if nv_target_view nv \<le> pc_view cert \<or> pc_seq cert \<noteq> max_quorum_seq \<or>
                       pc_digest cert \<noteq> best_digest then False
               else unat quorum_size \<le>
                 length (filter (vc_vote_valid C public_keys (nv_target_view nv))
                           (hm_items (nv_view_change_votes nv)))
           | None \<Rightarrow>
               if 0 < max_quorum_seq then False
               else unat quorum_size \<le>
                 length (filter (vc_vote_valid C public_keys (nv_target_view nv))
                           (hm_items (nv_view_change_votes nv)))))"

lemma nv_verify_iff:
  "nv_verify C q pk keys nv \<longleftrightarrow>
     unat q \<le> hm_len (nv_view_change_votes nv) \<and>
     (\<exists>m d. highest_view_change_slot (nv_view_change_votes nv) = Some (m, d) \<and>
        (case nv_selected nv of
           None \<Rightarrow> m = 0
         | Some c \<Rightarrow> pc_verify C q pk c \<and> pc_view c < nv_target_view nv \<and> pc_seq c = m \<and>
             pc_digest c = d)) \<and>
     unat q \<le> length (filter (vc_vote_valid C keys (nv_target_view nv))
                          (hm_items (nv_view_change_votes nv)))"
  by (auto simp: nv_verify_def not_le not_less word_gt_0 split: option.splits prod.splits)

text \<open>When every vote was checked on arrival, the count is the number of votes.\<close>

lemma vc_votes_all_valid:
  assumes "\<And>i v. fmlookup votes i = Some v \<Longrightarrow> vc_vote_valid C keys tv (i, v)"
  shows "length (filter (vc_vote_valid C keys tv) (hm_items votes)) = hm_len votes"
proof -
  have "filter (vc_vote_valid C keys tv) (hm_items votes) = hm_items votes"
    using assms by (auto simp: filter_id_conv set_hm_items)
  then show ?thesis by simp
qed

end
