(* ===== verification/Pbft_Node.thy ===== *)
theory Pbft_Node
  imports Wal Pbft_Certs
begin

text \<open>
  The replica of \<open>pbft.rs\<close>: the fields of \<open>PbftState\<close>, the guards of \<open>handle_message\<close>, the five
  phase handlers, the rollback of a rejected transition and the write to the log.
  The struct is split by who writes its fields: \<open>pbft_config\<close> is fixed at construction,
  \<open>pbft_core\<close> is what a message may change and what the rollback image holds, and
  \<open>pbft_state\<close> adds the log and the fail-stop flag. A phase handler returns its response and the
  core as it has mutated it, also when it fails; \<open>handle_message\<close> restores the image, as the
  source does. A \<open>None\<close> that the source unwraps is the error \<open>PANIC_UNWRAP_NONE\<close>.
\<close>

section \<open>State\<close>

type_synonym slot = "u64 \<times> u64"
type_synonym proposal = "u64 \<times> u64 \<times> bytes"

record 'g2 pbft_config =
  total_nodes :: usize
  byz_f :: usize
  quorum_size :: usize
  registered_nodes :: "u32 fset"
  public_keys :: "(u32, 'g2) fmap"
  master_public_key :: 'g2

record 'g1 pbft_core =
  current_view :: u64
  highest_seq :: u64
  last_stable_checkpoint :: u64
  prepared_certificates :: "(slot, 'g1 prepared_certificate) fmap"
  commit_certificates :: "(slot, 'g1 commit_certificate) fmap"
  new_view_certificates :: "(u64, 'g1 new_view_certificate) fmap"
  committed_digest :: "(slot, bytes) fmap"
  pre_prepared_proposals :: "proposal fset"
  prepare_votes :: "(proposal, (u32, 'g1) fmap) fmap"
  commit_votes :: "(proposal, (u32, 'g1) fmap) fmap"
  checkpoint_votes :: "(proposal, (u32, 'g1) fmap) fmap"
  view_change_votes :: "(u64, (u32, 'g1 vc_vote) fmap) fmap"

record ('g1, 'g2) pbft_state =
  st_config :: "'g2 pbft_config"
  st_core :: "'g1 pbft_core"
  st_wal :: wal
  wal_failed :: bool

datatype pbft_error =
    TOPOLOGY_VIOLATION
  | REGISTRY_VIOLATION
  | WAL_ERROR
  | WAL_REPLAY_ERROR
  | WAL_PRUNE_ERROR
  | WAL_UNAVAILABLE
  | AUTH_FAILED
  | UNAUTHORIZED_SENDER
  | CRYPTO_AUTH_FAILED
  | CERTIFICATE_INVALID
  | VIEW_MISMATCH
  | LEADER_VIOLATION
  | EQUIVOCATION_DETECTED
  | DUPLICATE_PROPOSAL
  | ORPHAN_PREPARE
  | CERTIFICATE_VERIFICATION_FAILED
  | ORPHAN_COMMIT
  | SAFETY_VIOLATION
  | VIEW_CHANGE_INVALID
  | CONFLICTING_VIEW_CHANGE_DIGESTS
  | MISSING_QUORUM_CERTIFICATE
  | NEW_VIEW_VERIFICATION_FAILED
  | PANIC_UNWRAP_NONE

datatype pbft_response =
    INBOUND_OK_PREPREPARE
  | CERTIFICATE_OK_PREPARED
  | VOTE_OK_PREPARE
  | COMMITTED_OK
  | VOTE_OK_COMMIT
  | VIEW_CHANGE_OK
  | VOTE_OK_VIEW_CHANGE
  | CHECKPOINT_STABILIZED
  | VOTE_OK_CHECKPOINT
  | CHECKPOINT_OBSOLETE

definition empty_core :: "'g1 pbft_core" where
  "empty_core = \<lparr>current_view = 0, highest_seq = 0, last_stable_checkpoint = 0,
     prepared_certificates = fmempty, commit_certificates = fmempty,
     new_view_certificates = fmempty, committed_digest = fmempty,
     pre_prepared_proposals = {||}, prepare_votes = fmempty, commit_votes = fmempty,
     checkpoint_votes = fmempty, view_change_votes = fmempty\<rparr>"

definition get_expected_leader :: "'g2 pbft_config \<Rightarrow> u64 \<Rightarrow> u32" where
  "get_expected_leader cfg view = ucast (view mod total_nodes cfg)"

definition proposal_key :: "'g1 pbft_message \<Rightarrow> proposal" where
  "proposal_key msg = (pm_view msg, pm_seq msg, pm_digest msg)"

text \<open>\<open>values().any\<close> over the prepared certificates, with the condition the callers share.\<close>

definition has_certificate ::
  "('s::field, 'g1::ab_group_add, 'g2, 'gt) bls \<Rightarrow> 'g2 pbft_config \<Rightarrow> (u64 \<Rightarrow> bool) \<Rightarrow> u64 \<Rightarrow>
    bytes \<Rightarrow> 'g1 pbft_core \<Rightarrow> bool" where
  "has_certificate C cfg view_ok seq digest st =
     hm_any (\<lambda>cert. view_ok (pc_view cert) \<and> pc_seq cert = seq \<and> pc_digest cert = digest \<and>
                    pc_verify C (quorum_size cfg) (master_public_key cfg) cert)
       (prepared_certificates st)"

text \<open>The seven \<open>retain\<close> calls after a stable checkpoint.\<close>

definition retain_after :: "u64 \<Rightarrow> 'g1 pbft_core \<Rightarrow> 'g1 pbft_core" where
  "retain_after n st = st\<lparr>
     pre_prepared_proposals := ffilter (\<lambda>(_, s, _). n < s) (pre_prepared_proposals st),
     prepare_votes := fmfilter (\<lambda>(_, s, _). n < s) (prepare_votes st),
     commit_votes := fmfilter (\<lambda>(_, s, _). n < s) (commit_votes st),
     prepared_certificates := fmfilter (\<lambda>(_, s). n < s) (prepared_certificates st),
     commit_certificates := fmfilter (\<lambda>(_, s). n < s) (commit_certificates st),
     committed_digest := fmfilter (\<lambda>(_, s). n < s) (committed_digest st),
     checkpoint_votes := fmfilter (\<lambda>(_, s, _). n < s) (checkpoint_votes st)\<rparr>"

section \<open>The phase handlers\<close>

type_synonym 'g1 transition = "(pbft_error, pbft_response) result \<times> 'g1 pbft_core"

definition on_pre_prepare ::
  "'g2 pbft_config \<Rightarrow> 'g1 pbft_message \<Rightarrow> 'g1 pbft_core \<Rightarrow> 'g1 transition" where
  "on_pre_prepare cfg msg st =
     (if pm_view msg \<noteq> current_view st then (Err VIEW_MISMATCH, st)
      else if pm_sender_id msg \<noteq> get_expected_leader cfg (pm_view msg) then
        (Err LEADER_VIOLATION, st)
      else if fBex (pre_prepared_proposals st)
                (\<lambda>(view, seq, digest). view = pm_view msg \<and> seq = pm_seq msg \<and> digest \<noteq> pm_digest msg)
      then (Err EQUIVOCATION_DETECTED, st)
      else if proposal_key msg |\<in>| pre_prepared_proposals st then (Err DUPLICATE_PROPOSAL, st)
      else (Ok INBOUND_OK_PREPREPARE,
            st\<lparr>pre_prepared_proposals := finsert (proposal_key msg) (pre_prepared_proposals st),
               highest_seq := max (highest_seq st) (pm_seq msg)\<rparr>))"

definition on_prepare ::
  "('s::field, 'g1::ab_group_add, 'g2, 'gt) bls \<Rightarrow> 'g2 pbft_config \<Rightarrow> 'g1 pbft_message \<Rightarrow>
    'g1 pbft_core \<Rightarrow> 'g1 transition" where
  "on_prepare C cfg msg st =
     (if pm_view msg \<noteq> current_view st then (Err VIEW_MISMATCH, st)
      else if proposal_key msg |\<notin>| pre_prepared_proposals st then (Err ORPHAN_PREPARE, st)
      else
        let sigs = fmupd (pm_sender_id msg) (pm_signature msg)
                     (hm_entry (prepare_votes st) (proposal_key msg));
            st1 = st\<lparr>prepare_votes := fmupd (proposal_key msg) sigs (prepare_votes st)\<rparr>
        in if unat (quorum_size cfg) \<le> hm_len sigs then
             let cert = \<lparr>pc_view = pm_view msg, pc_seq = pm_seq msg, pc_digest = pm_digest msg,
                         pc_signatures = sigs\<rparr>
             in if \<not> pc_verify C (quorum_size cfg) (master_public_key cfg) cert
                then (Err CERTIFICATE_VERIFICATION_FAILED, st1)
                else (Ok CERTIFICATE_OK_PREPARED,
                      st1\<lparr>prepared_certificates :=
                            fmupd (pm_view msg, pm_seq msg) cert (prepared_certificates st1)\<rparr>)
           else (Ok VOTE_OK_PREPARE, st1))"

definition on_commit ::
  "('s::field, 'g1::ab_group_add, 'g2, 'gt) bls \<Rightarrow> 'g2 pbft_config \<Rightarrow> 'g1 pbft_message \<Rightarrow>
    'g1 pbft_core \<Rightarrow> 'g1 transition" where
  "on_commit C cfg msg st =
     (if pm_view msg \<noteq> current_view st then (Err VIEW_MISMATCH, st)
      else if proposal_key msg |\<notin>| pre_prepared_proposals st then (Err ORPHAN_COMMIT, st)
      else if \<not> has_certificate C cfg (\<lambda>view. view = pm_view msg) (pm_seq msg) (pm_digest msg) st
      then (Err SAFETY_VIOLATION, st)
      else if (case fmlookup (committed_digest st) (pm_view msg, pm_seq msg) of
                 Some existing_digest \<Rightarrow> existing_digest \<noteq> pm_digest msg
               | None \<Rightarrow> False)
      then (Err EQUIVOCATION_DETECTED, st)
      else
        let sigs = fmupd (pm_sender_id msg) (pm_signature msg)
                     (hm_entry (commit_votes st) (proposal_key msg));
            st1 = st\<lparr>commit_votes := fmupd (proposal_key msg) sigs (commit_votes st)\<rparr>
        in if unat (quorum_size cfg) \<le> hm_len sigs then
             let commit_cert = \<lparr>cc_view = pm_view msg, cc_seq = pm_seq msg,
                                cc_digest = pm_digest msg, cc_signatures = sigs\<rparr>
             in if \<not> cc_verify C (quorum_size cfg) (master_public_key cfg) commit_cert
                then (Err CERTIFICATE_VERIFICATION_FAILED, st1)
                else (Ok COMMITTED_OK,
                      st1\<lparr>commit_certificates :=
                            fmupd (pm_view msg, pm_seq msg) commit_cert (commit_certificates st1),
                          committed_digest :=
                            fmupd (pm_view msg, pm_seq msg) (pm_digest msg) (committed_digest st1)\<rparr>)
           else (Ok VOTE_OK_COMMIT, st1))"

text \<open>The end of a view change, once the certificate to carry over is known.\<close>

definition install_new_view ::
  "('s::field, 'g1::ab_group_add, 'g2, 'gt) bls \<Rightarrow> 'g2 pbft_config \<Rightarrow> u64 \<Rightarrow>
    (u32, 'g1 vc_vote) fmap \<Rightarrow> 'g1 prepared_certificate option \<Rightarrow> 'g1 pbft_core \<Rightarrow>
    'g1 transition" where
  "install_new_view C cfg view supporters bound_cert st =
     (let st1 = (case bound_cert of
                   Some cert \<Rightarrow> st\<lparr>highest_seq := max (highest_seq st) (pc_seq cert)\<rparr>
                 | None \<Rightarrow> st);
          new_view_cert = \<lparr>nv_target_view = view, nv_view_change_votes = supporters,
                           nv_selected = bound_cert\<rparr>
      in if \<not> nv_verify C (quorum_size cfg) (master_public_key cfg) (public_keys cfg) new_view_cert
         then (Err NEW_VIEW_VERIFICATION_FAILED, st1)
         else (Ok VIEW_CHANGE_OK,
               st1\<lparr>new_view_certificates :=
                     fmupd view new_view_cert (new_view_certificates st1)\<rparr>))"

definition on_view_change ::
  "('s::field, 'g1::ab_group_add, 'g2, 'gt) bls \<Rightarrow> 'g2 pbft_config \<Rightarrow> 'g1 pbft_message \<Rightarrow>
    'g1 pbft_core \<Rightarrow> 'g1 transition" where
  "on_view_change C cfg msg st =
     (if pm_view msg \<le> current_view st then (Err VIEW_CHANGE_INVALID, st)
      else if 0 < pm_seq msg \<and>
              \<not> has_certificate C cfg (\<lambda>view. True) (pm_seq msg) (pm_digest msg) st
      then (Err CERTIFICATE_INVALID, st)
      else
        let supporters = fmupd (pm_sender_id msg) (pm_seq msg, pm_digest msg, pm_signature msg)
                           (hm_entry (view_change_votes st) (pm_view msg));
            st1 = st\<lparr>view_change_votes := fmupd (pm_view msg) supporters (view_change_votes st)\<rparr>
        in if unat (quorum_size cfg) \<le> hm_len supporters then
             let st2 = st1\<lparr>current_view := pm_view msg\<rparr> in
             case highest_view_change_slot supporters of
               None \<Rightarrow> (Err CONFLICTING_VIEW_CHANGE_DIGESTS, st2)
             | Some (max_quorum_seq, best_digest) \<Rightarrow>
                 (if 0 < max_quorum_seq then
                    (case select_highest_prepared_certificate C
                            (hm_values (prepared_certificates st2)) (pm_view msg) max_quorum_seq
                            best_digest (quorum_size cfg) (master_public_key cfg) of
                       None \<Rightarrow> (Err MISSING_QUORUM_CERTIFICATE, st2)
                     | Some cert \<Rightarrow>
                         install_new_view C cfg (pm_view msg) supporters (Some cert) st2)
                  else install_new_view C cfg (pm_view msg) supporters None st2)
           else (Ok VOTE_OK_VIEW_CHANGE, st1))"

definition on_checkpoint ::
  "'g2 pbft_config \<Rightarrow> 'g1 pbft_message \<Rightarrow> 'g1 pbft_core \<Rightarrow> 'g1 transition" where
  "on_checkpoint cfg msg st =
     (if pm_view msg \<noteq> current_view st then (Err VIEW_MISMATCH, st)
      else
        let sigs = fmupd (pm_sender_id msg) (pm_signature msg)
                     (hm_entry (checkpoint_votes st) (proposal_key msg));
            st1 = st\<lparr>checkpoint_votes := fmupd (proposal_key msg) sigs (checkpoint_votes st)\<rparr>
        in if unat (quorum_size cfg) \<le> hm_len sigs then
             (Ok CHECKPOINT_STABILIZED,
              retain_after (pm_seq msg) (st1\<lparr>last_stable_checkpoint := pm_seq msg\<rparr>))
           else (Ok VOTE_OK_CHECKPOINT, st1))"

definition dispatch ::
  "('s::field, 'g1::ab_group_add, 'g2, 'gt) bls \<Rightarrow> 'g2 pbft_config \<Rightarrow> 'g1 pbft_message \<Rightarrow>
    'g1 pbft_core \<Rightarrow> 'g1 transition" where
  "dispatch C cfg msg st =
     (case pm_phase msg of
        PrePrepare \<Rightarrow> on_pre_prepare cfg msg st
      | Prepare \<Rightarrow> on_prepare C cfg msg st
      | Commit \<Rightarrow> on_commit C cfg msg st
      | ViewChange \<Rightarrow> on_view_change C cfg msg st
      | Checkpoint \<Rightarrow> on_checkpoint cfg msg st)"

section \<open>The message handler\<close>

text \<open>The closure \<open>restore_state\<close>: each field from the image.\<close>

definition restore_state :: "'g1 pbft_core \<Rightarrow> 'g1 pbft_core \<Rightarrow> 'g1 pbft_core" where
  "restore_state snapshot st = st\<lparr>
     current_view := current_view snapshot,
     highest_seq := highest_seq snapshot,
     last_stable_checkpoint := last_stable_checkpoint snapshot,
     prepared_certificates := prepared_certificates snapshot,
     commit_certificates := commit_certificates snapshot,
     new_view_certificates := new_view_certificates snapshot,
     committed_digest := committed_digest snapshot,
     pre_prepared_proposals := pre_prepared_proposals snapshot,
     prepare_votes := prepare_votes snapshot,
     commit_votes := commit_votes snapshot,
     checkpoint_votes := checkpoint_votes snapshot,
     view_change_votes := view_change_votes snapshot\<rparr>"

lemma restore_state [simp]: "restore_state snapshot st = snapshot"
  by (simp add: restore_state_def)

definition msg_row :: "'g1 pbft_message \<Rightarrow> 'g1 wal_row" where
  "msg_row msg = \<lparr>row_view = pm_view msg, row_seq = pm_seq msg,
     row_phase = phase_u8 (pm_phase msg), row_sender_id = pm_sender_id msg,
     row_digest = pm_digest msg, row_signature = pm_signature msg\<rparr>"

text \<open>The outcomes of the system calls one message may make.\<close>

record handler_io =
  h_append :: append_io
  h_prune :: prune_io

definition handler_io_ok :: handler_io where
  "handler_io_ok = \<lparr>h_append = append_io_ok, h_prune = prune_io_ok\<rparr>"

definition handle_message ::
  "('s::field, 'g1::ab_group_add, 'g2, 'gt) bls \<Rightarrow> handler_io \<Rightarrow> 'g1 pbft_message \<Rightarrow>
    ('g1, 'g2) pbft_state \<Rightarrow> (pbft_error, pbft_response) result \<times> ('g1, 'g2) pbft_state" where
  "handle_message C io msg st =
     (if wal_failed st then (Err WAL_UNAVAILABLE, st)
      else if pm_sender_id msg |\<notin>| registered_nodes (st_config st) then (Err AUTH_FAILED, st)
      else case fmlookup (public_keys (st_config st)) (pm_sender_id msg) of
        None \<Rightarrow> (Err PANIC_UNWRAP_NONE, st)
      | Some pk \<Rightarrow>
          if \<not> verify_bls_signature C (pm_canonical msg) (pm_signature msg) pk then
            (Err CRYPTO_AUTH_FAILED, st)
          else if pm_phase msg = Checkpoint \<and>
                  pm_seq msg \<le> last_stable_checkpoint (st_core st) then
            (Ok CHECKPOINT_OBSOLETE, st)
          else
            let snapshot = st_core st in
            case dispatch C (st_config st) msg (st_core st) of
              (Err e, core) \<Rightarrow> (Err e, st\<lparr>st_core := restore_state snapshot core\<rparr>)
            | (Ok response, core) \<Rightarrow>
                (case append_entry C (h_append io) (msg_row msg) (st_wal st) of
                   (Err _, w) \<Rightarrow>
                     (Err WAL_ERROR,
                      st\<lparr>st_core := restore_state snapshot core, st_wal := w, wal_failed := True\<rparr>)
                 | (Ok _, w) \<Rightarrow>
                     if pm_phase msg = Checkpoint \<and> response = CHECKPOINT_STABILIZED then
                       (case prune_before (h_prune io) (pm_seq msg) w of
                          (Err _, w') \<Rightarrow>
                            (Err WAL_PRUNE_ERROR,
                             st\<lparr>st_core := core, st_wal := w', wal_failed := True\<rparr>)
                        | (Ok _, w') \<Rightarrow> (Ok response, st\<lparr>st_core := core, st_wal := w'\<rparr>))
                     else (Ok response, st\<lparr>st_core := core, st_wal := w\<rparr>)))"

definition handle_view_change_payload ::
  "('s::field, 'g1::ab_group_add, 'g2, 'gt) bls \<Rightarrow> 'g1 view_change_payload \<Rightarrow>
    ('g1, 'g2) pbft_state \<Rightarrow> (pbft_error, unit) result" where
  "handle_view_change_payload C payload st =
     (let cfg = st_config st in
      if vc_sender_id payload |\<notin>| registered_nodes cfg then Err UNAUTHORIZED_SENDER
      else case fmlookup (public_keys cfg) (vc_sender_id payload) of
        None \<Rightarrow> Err PANIC_UNWRAP_NONE
      | Some pk \<Rightarrow>
          if \<not> verify_bls_signature C (vc_canonical_bytes payload) (vc_signature payload) pk then
            Err CRYPTO_AUTH_FAILED
          else if 0 < vc_prepared_seq payload \<and>
                  \<not> has_certificate C cfg (\<lambda>view. view = vc_prepared_view payload)
                      (vc_prepared_seq payload) (vc_digest payload) (st_core st)
          then Err CERTIFICATE_INVALID
          else Ok ())"

end
