(* ===== verification/Pbft_Inv.thy ===== *)
theory Pbft_Inv
  imports Pbft_Node
begin

text \<open>
  The invariant of a replica. The certificate tables are functions of the vote tables: the
  predicate \<open>tally\<close> says that a table holds exactly the slots with a quorum of votes, and what it
  holds there. Around it: proposals are unique per slot, every stored vote is individually
  authenticated, votes exist for proposals only, commit votes for prepared values only, and every
  stored certificate verifies. Each operation on the tables keeps its part; the phase handlers
  and the recovery of the log are compositions of these operations.
\<close>

section \<open>Authenticated votes\<close>

definition vote_auth ::
  "('s, 'g1, 'g2, 'gt) bls \<Rightarrow> 'g2 pbft_config \<Rightarrow> bytes \<Rightarrow> u32 \<Rightarrow> 'g1 \<Rightarrow> bool" where
  "vote_auth C cfg msg i sig \<longleftrightarrow> i |\<in>| registered_nodes cfg \<and>
     (\<exists>pk. fmlookup (public_keys cfg) i = Some pk \<and> verify_bls_signature C msg sig pk)"

definition votes_auth ::
  "('s, 'g1, 'g2, 'gt) bls \<Rightarrow> 'g2 pbft_config \<Rightarrow> phase \<Rightarrow>
    (proposal, (u32, 'g1) fmap) fmap \<Rightarrow> bool" where
  "votes_auth C cfg ph votes \<longleftrightarrow>
     (\<forall>v s d i sig. fmlookup (hm_entry votes (v, s, d)) i = Some sig \<longrightarrow>
        vote_auth C cfg (canonical_msg (phase_u8 ph) v s d) i sig)"

definition vc_votes_auth ::
  "('s, 'g1, 'g2, 'gt) bls \<Rightarrow> 'g2 pbft_config \<Rightarrow> (u64, (u32, 'g1 vc_vote) fmap) fmap \<Rightarrow> bool" where
  "vc_votes_auth C cfg votes \<longleftrightarrow>
     (\<forall>v i s d sig. fmlookup (hm_entry votes v) i = Some (s, d, sig) \<longrightarrow>
        vote_auth C cfg (canonical_msg (phase_u8 ViewChange) v s d) i sig)"

text \<open>Adding a vote to a table.\<close>

abbreviation add_vote :: "'k \<Rightarrow> 'i \<Rightarrow> 'v \<Rightarrow> ('k, ('i, 'v) fmap) fmap \<Rightarrow> ('k, ('i, 'v) fmap) fmap" where
  "add_vote k i x votes \<equiv> fmupd k (fmupd i x (hm_entry votes k)) votes"

lemma votes_auth_empty [simp]: "votes_auth C cfg ph fmempty"
  by (simp add: votes_auth_def)

lemma votes_auth_add [inv_intros]:
  "votes_auth C cfg ph votes \<Longrightarrow> vote_auth C cfg (canonical_msg (phase_u8 ph) v s d) i sig \<Longrightarrow>
    votes_auth C cfg ph (add_vote (v, s, d) i sig votes)"
  by (auto simp: votes_auth_def)

lemma hm_entry_filter:
  "hm_entry (fmfilter P m) k = (if P k then hm_entry m k else fmempty)"
  by (simp add: hm_entry_def)

lemma votes_auth_filter [inv_intros]:
  "votes_auth C cfg ph votes \<Longrightarrow> votes_auth C cfg ph (fmfilter P votes)"
  by (auto simp: votes_auth_def hm_entry_filter split: if_splits)

lemma vc_votes_auth_empty [simp]: "vc_votes_auth C cfg fmempty"
  by (simp add: vc_votes_auth_def)

lemma vc_votes_auth_add [inv_intros]:
  "vc_votes_auth C cfg votes \<Longrightarrow>
    vote_auth C cfg (canonical_msg (phase_u8 ViewChange) v s d) i sig \<Longrightarrow>
    vc_votes_auth C cfg (add_vote v i (s, d, sig) votes)"
  by (auto simp: vc_votes_auth_def)

lemma vc_votes_auth_valid:
  "vc_votes_auth C cfg votes \<Longrightarrow> fmlookup (hm_entry votes v) i = Some x \<Longrightarrow>
    vc_vote_valid C (public_keys cfg) v (i, x)"
proof -
  assume *: "vc_votes_auth C cfg votes" "fmlookup (hm_entry votes v) i = Some x"
  obtain s d sig where x: "x = (s, d, sig)" by (metis prod_cases3)
  then have "vote_auth C cfg (canonical_msg (phase_u8 ViewChange) v s d) i sig"
    using * by (simp add: vc_votes_auth_def)
  then show ?thesis by (auto simp: vote_auth_def vc_vote_valid_def x)
qed

section \<open>Quorum tables\<close>

definition tally ::
  "nat \<Rightarrow> (proposal \<Rightarrow> (u32, 'g1) fmap \<Rightarrow> 'c) \<Rightarrow> (proposal, (u32, 'g1) fmap) fmap \<Rightarrow>
    (slot, 'c) fmap \<Rightarrow> bool" where
  "tally q mk votes table \<longleftrightarrow>
     (\<forall>v s c. fmlookup table (v, s) = Some c \<longleftrightarrow>
        (\<exists>d. q \<le> hm_len (hm_entry votes (v, s, d)) \<and>
             c = mk (v, s, d) (hm_entry votes (v, s, d))))"

definition voted :: "proposal fset \<Rightarrow> (proposal, (u32, 'g1) fmap) fmap \<Rightarrow> bool" where
  "voted props votes \<longleftrightarrow> (\<forall>k. hm_entry votes k \<noteq> fmempty \<longrightarrow> k |\<in>| props)"

definition unique_slots :: "proposal fset \<Rightarrow> bool" where
  "unique_slots props \<longleftrightarrow>
     (\<forall>v s d d'. (v, s, d) |\<in>| props \<longrightarrow> (v, s, d') |\<in>| props \<longrightarrow> d = d')"

lemma hm_len_le_upd: "hm_len m \<le> hm_len (fmupd i x m)"
  by simp

lemma tally_empty: "0 < q \<Longrightarrow> tally q mk fmempty fmempty"
  by (simp add: tally_def)

lemma tally_add_below:
  assumes t: "tally q mk votes table" and below: "hm_len (fmupd i x (hm_entry votes k)) < q"
  shows "tally q mk (add_vote k i x votes) table"
proof -
  have "hm_len (hm_entry votes k) < q" using below hm_len_le_upd by (rule order_le_less_trans [rotated])
  then have "q \<le> hm_len (hm_entry (add_vote k i x votes) k') \<and>
      c = mk k' (hm_entry (add_vote k i x votes) k') \<longleftrightarrow>
      q \<le> hm_len (hm_entry votes k') \<and> c = mk k' (hm_entry votes k')" for k' c
    using below by (cases "k = k'") (simp_all del: hm_len_upd)
  then show ?thesis using t by (simp only: tally_def simp_thms)
qed

lemma voted_others:
  assumes "voted props votes" "unique_slots props" "(v, s, d) |\<in>| props" "d' \<noteq> d"
  shows "hm_entry votes (v, s, d') = fmempty"
  using assms unfolding voted_def unique_slots_def by metis

lemma tally_add_quorum:
  assumes t: "tally q mk votes table" and q: "0 < q" "q \<le> hm_len (fmupd i x (hm_entry votes (v, s, d)))"
    and others: "\<And>d'. d' \<noteq> d \<Longrightarrow> hm_entry votes (v, s, d') = fmempty"
  shows "tally q mk (add_vote (v, s, d) i x votes)
    (fmupd (v, s) (mk (v, s, d) (fmupd i x (hm_entry votes (v, s, d)))) table)"
  unfolding tally_def
proof (intro allI)
  fix v' s' c
  show "fmlookup (fmupd (v, s) (mk (v, s, d) (fmupd i x (hm_entry votes (v, s, d)))) table) (v', s') =
      Some c \<longleftrightarrow>
    (\<exists>d'. q \<le> hm_len (hm_entry (add_vote (v, s, d) i x votes) (v', s', d')) \<and>
      c = mk (v', s', d') (hm_entry (add_vote (v, s, d) i x votes) (v', s', d')))"
  proof (cases "(v', s') = (v, s)")
    case True
    have "q \<le> hm_len (hm_entry (add_vote (v, s, d) i x votes) (v, s, d')) \<longleftrightarrow> d' = d" for d'
      using q others [of d'] by (cases "d' = d") (simp_all del: hm_len_upd)
    then show ?thesis using True by (auto simp del: hm_len_upd)
  next
    case False
    then show ?thesis using t by (auto simp: tally_def)
  qed
qed

lemma tally_filter:
  assumes "tally q mk votes table" "0 < q"
  shows "tally q mk (fmfilter (\<lambda>(_, s, _). n < s) votes) (fmfilter (\<lambda>(_, s). n < s) table)"
  using assms by (auto simp: tally_def hm_entry_filter)

lemma tallyD:
  "tally q mk votes table \<Longrightarrow> fmlookup table (v, s) = Some c \<Longrightarrow>
    \<exists>d. q \<le> hm_len (hm_entry votes (v, s, d)) \<and> c = mk (v, s, d) (hm_entry votes (v, s, d))"
  by (simp add: tally_def)

lemma tallyI:
  "tally q mk votes table \<Longrightarrow> q \<le> hm_len (hm_entry votes (v, s, d)) \<Longrightarrow>
    fmlookup table (v, s) = Some (mk (v, s, d) (hm_entry votes (v, s, d)))"
  unfolding tally_def by blast

lemma voted_empty [simp]: "voted props fmempty"
  by (simp add: voted_def)

lemma voted_add [inv_intros]:
  "voted props votes \<Longrightarrow> k |\<in>| props \<Longrightarrow> voted props (add_vote k i x votes)"
  by (auto simp: voted_def)

lemma voted_finsert [inv_intros]: "voted props votes \<Longrightarrow> voted (finsert k props) votes"
  by (auto simp: voted_def)

lemma voted_filter [inv_intros]:
  "voted props votes \<Longrightarrow> voted (ffilter P props) (fmfilter P votes)"
  by (auto simp: voted_def hm_entry_filter)

lemma unique_slots_empty [simp]: "unique_slots {||}"
  by (simp add: unique_slots_def)

lemma unique_slots_finsert [inv_intros]:
  "unique_slots props \<Longrightarrow>
    \<not> fBex props (\<lambda>(v', s', d'). v' = v \<and> s' = s \<and> d' \<noteq> d) \<Longrightarrow>
    unique_slots (finsert (v, s, d) props)"
  by (auto simp: unique_slots_def)

lemma unique_slots_filter [inv_intros]: "unique_slots props \<Longrightarrow> unique_slots (ffilter P props)"
  by (auto simp: unique_slots_def)

section \<open>The invariant\<close>

definition mk_prepared :: "proposal \<Rightarrow> (u32, 'g1) fmap \<Rightarrow> 'g1 prepared_certificate" where
  "mk_prepared k sigs = (case k of (v, s, d) \<Rightarrow>
     \<lparr>pc_view = v, pc_seq = s, pc_digest = d, pc_signatures = sigs\<rparr>)"

definition mk_commit :: "proposal \<Rightarrow> (u32, 'g1) fmap \<Rightarrow> 'g1 commit_certificate" where
  "mk_commit k sigs = (case k of (v, s, d) \<Rightarrow>
     \<lparr>cc_view = v, cc_seq = s, cc_digest = d, cc_signatures = sigs\<rparr>)"

definition mk_digest :: "proposal \<Rightarrow> (u32, 'g1) fmap \<Rightarrow> bytes" where
  "mk_digest k sigs = (case k of (v, s, d) \<Rightarrow> d)"

lemmas mk_defs = mk_prepared_def mk_commit_def mk_digest_def

text \<open>Commit votes exist for values with a quorum of prepare votes.\<close>

definition commit_after_prepare ::
  "nat \<Rightarrow> (proposal, (u32, 'g1) fmap) fmap \<Rightarrow> (proposal, (u32, 'g1) fmap) fmap \<Rightarrow> bool" where
  "commit_after_prepare q pvotes cvotes \<longleftrightarrow>
     (\<forall>k. hm_entry cvotes k \<noteq> fmempty \<longrightarrow> q \<le> hm_len (hm_entry pvotes k))"

text \<open>A new-view certificate for each target view with a quorum of votes.\<close>

definition new_views_inv ::
  "('s::field, 'g1::ab_group_add, 'g2, 'gt) bls \<Rightarrow> 'g2 pbft_config \<Rightarrow> u64 \<Rightarrow>
    (u64, (u32, 'g1 vc_vote) fmap) fmap \<Rightarrow> (u64, 'g1 new_view_certificate) fmap \<Rightarrow> bool" where
  "new_views_inv C cfg view votes nvs \<longleftrightarrow>
     (\<forall>v. fmlookup nvs v \<noteq> None \<longleftrightarrow> unat (quorum_size cfg) \<le> hm_len (hm_entry votes v)) \<and>
     (\<forall>v nv. fmlookup nvs v = Some nv \<longrightarrow>
        v \<le> view \<and> nv_target_view nv = v \<and> nv_view_change_votes nv = hm_entry votes v \<and>
        nv_verify C (quorum_size cfg) (master_public_key cfg) (public_keys cfg) nv)"

definition config_ok :: "'g2 pbft_config \<Rightarrow> bool" where
  "config_ok cfg \<longleftrightarrow> 0 < unat (quorum_size cfg) \<and>
     (\<forall>i. i |\<in>| registered_nodes cfg \<longrightarrow> fmlookup (public_keys cfg) i \<noteq> None)"

definition proposals_inv :: "'g1 pbft_core \<Rightarrow> bool" where
  "proposals_inv st \<longleftrightarrow> unique_slots (pre_prepared_proposals st) \<and>
     (\<forall>v s d. (v, s, d) |\<in>| pre_prepared_proposals st \<longrightarrow>
        v \<le> current_view st \<and> s \<le> highest_seq st)"

definition prepare_inv ::
  "('s::field, 'g1::ab_group_add, 'g2, 'gt) bls \<Rightarrow> 'g2 pbft_config \<Rightarrow> 'g1 pbft_core \<Rightarrow> bool" where
  "prepare_inv C cfg st \<longleftrightarrow>
     votes_auth C cfg Prepare (prepare_votes st) \<and>
     voted (pre_prepared_proposals st) (prepare_votes st) \<and>
     tally (unat (quorum_size cfg)) mk_prepared (prepare_votes st) (prepared_certificates st) \<and>
     (\<forall>k c. fmlookup (prepared_certificates st) k = Some c \<longrightarrow>
        pc_verify C (quorum_size cfg) (master_public_key cfg) c)"

definition commit_inv ::
  "('s::field, 'g1::ab_group_add, 'g2, 'gt) bls \<Rightarrow> 'g2 pbft_config \<Rightarrow> 'g1 pbft_core \<Rightarrow> bool" where
  "commit_inv C cfg st \<longleftrightarrow>
     votes_auth C cfg Commit (commit_votes st) \<and>
     voted (pre_prepared_proposals st) (commit_votes st) \<and>
     commit_after_prepare (unat (quorum_size cfg)) (prepare_votes st) (commit_votes st) \<and>
     tally (unat (quorum_size cfg)) mk_commit (commit_votes st) (commit_certificates st) \<and>
     tally (unat (quorum_size cfg)) mk_digest (commit_votes st) (committed_digest st) \<and>
     (\<forall>k c. fmlookup (commit_certificates st) k = Some c \<longrightarrow>
        cc_verify C (quorum_size cfg) (master_public_key cfg) c)"

definition view_change_inv ::
  "('s::field, 'g1::ab_group_add, 'g2, 'gt) bls \<Rightarrow> 'g2 pbft_config \<Rightarrow> 'g1 pbft_core \<Rightarrow> bool" where
  "view_change_inv C cfg st \<longleftrightarrow>
     vc_votes_auth C cfg (view_change_votes st) \<and>
     new_views_inv C cfg (current_view st) (view_change_votes st) (new_view_certificates st)"

definition checkpoint_inv ::
  "('s::field, 'g1::ab_group_add, 'g2, 'gt) bls \<Rightarrow> 'g2 pbft_config \<Rightarrow> 'g1 pbft_core \<Rightarrow> bool" where
  "checkpoint_inv C cfg st \<longleftrightarrow>
     votes_auth C cfg Checkpoint (checkpoint_votes st) \<and>
     (\<forall>v s d. unat (quorum_size cfg) \<le> hm_len (hm_entry (checkpoint_votes st) (v, s, d)) \<longrightarrow>
        s \<le> last_stable_checkpoint st)"

definition core_inv ::
  "('s::field, 'g1::ab_group_add, 'g2, 'gt) bls \<Rightarrow> 'g2 pbft_config \<Rightarrow> 'g1 pbft_core \<Rightarrow> bool" where
  "core_inv C cfg st \<longleftrightarrow> proposals_inv st \<and> prepare_inv C cfg st \<and> commit_inv C cfg st \<and>
     view_change_inv C cfg st \<and> checkpoint_inv C cfg st"

lemma checkpoint_invD:
  "checkpoint_inv C cfg st \<Longrightarrow>
    unat (quorum_size cfg) \<le> hm_len (hm_entry (checkpoint_votes st) (v, s, d)) \<Longrightarrow>
    s \<le> last_stable_checkpoint st"
  unfolding checkpoint_inv_def by blast

lemmas core_inv_parts = core_inv_def proposals_inv_def prepare_inv_def commit_inv_def
  view_change_inv_def checkpoint_inv_def

lemma empty_core_inv: "config_ok cfg \<Longrightarrow> core_inv C cfg empty_core"
  by (simp add: core_inv_parts empty_core_def config_ok_def tally_empty commit_after_prepare_def
      new_views_inv_def)

section \<open>The effects of an accepted message\<close>

text \<open>What the live handler and the recovery of the log have in common: the effect of an accepted
  message on the tables. Each keeps the invariant.\<close>

definition record_proposal :: "proposal \<Rightarrow> 'g1 pbft_core \<Rightarrow> 'g1 pbft_core" where
  "record_proposal k st = st\<lparr>pre_prepared_proposals := finsert k (pre_prepared_proposals st)\<rparr>"

definition record_prepare :: "nat \<Rightarrow> proposal \<Rightarrow> u32 \<Rightarrow> 'g1 \<Rightarrow> 'g1 pbft_core \<Rightarrow> 'g1 pbft_core" where
  "record_prepare q k i sig st =
     (case k of (v, s, d) \<Rightarrow>
       let sigs = fmupd i sig (hm_entry (prepare_votes st) k);
           st1 = st\<lparr>prepare_votes := fmupd k sigs (prepare_votes st)\<rparr>
       in if q \<le> hm_len sigs
          then st1\<lparr>prepared_certificates :=
                 fmupd (v, s) (mk_prepared k sigs) (prepared_certificates st)\<rparr>
          else st1)"

definition record_commit :: "nat \<Rightarrow> proposal \<Rightarrow> u32 \<Rightarrow> 'g1 \<Rightarrow> 'g1 pbft_core \<Rightarrow> 'g1 pbft_core" where
  "record_commit q k i sig st =
     (case k of (v, s, d) \<Rightarrow>
       let sigs = fmupd i sig (hm_entry (commit_votes st) k);
           st1 = st\<lparr>commit_votes := fmupd k sigs (commit_votes st)\<rparr>
       in if q \<le> hm_len sigs
          then st1\<lparr>commit_certificates :=
                 fmupd (v, s) (mk_commit k sigs) (commit_certificates st),
               committed_digest := fmupd (v, s) d (committed_digest st)\<rparr>
          else st1)"

definition record_checkpoint :: "proposal \<Rightarrow> u32 \<Rightarrow> 'g1 \<Rightarrow> 'g1 pbft_core \<Rightarrow> 'g1 pbft_core" where
  "record_checkpoint k i sig st =
     st\<lparr>checkpoint_votes := add_vote k i sig (checkpoint_votes st)\<rparr>"

definition record_view_change ::
  "u64 \<Rightarrow> u32 \<Rightarrow> 'g1 vc_vote \<Rightarrow> 'g1 pbft_core \<Rightarrow> 'g1 pbft_core" where
  "record_view_change v i vote st =
     st\<lparr>view_change_votes := add_vote v i vote (view_change_votes st)\<rparr>"

definition raise_to :: "u64 \<Rightarrow> u64 \<Rightarrow> 'g1 pbft_core \<Rightarrow> 'g1 pbft_core" where
  "raise_to v s st = st\<lparr>current_view := v, highest_seq := s\<rparr>"

lemma raise_to_inv [inv_intros]:
  assumes "core_inv C cfg st" "current_view st \<le> v" "highest_seq st \<le> s"
  shows "core_inv C cfg (raise_to v s st)"
  using assms
  by (fastforce simp: core_inv_parts raise_to_def new_views_inv_def intro: order_trans)

lemma record_proposal_inv [inv_intros]:
  assumes inv: "core_inv C cfg st"
    and new: "\<not> fBex (pre_prepared_proposals st) (\<lambda>(v', s', d'). v' = v \<and> s' = s \<and> d' \<noteq> d)"
    and bounds: "v \<le> current_view st" "s \<le> highest_seq st"
  shows "core_inv C cfg (record_proposal (v, s, d) st)"
proof -
  have "proposals_inv (record_proposal (v, s, d) st)"
    using inv new bounds unique_slots_finsert [of "pre_prepared_proposals st" v s d]
    by (auto simp: core_inv_def proposals_inv_def record_proposal_def)
  then show ?thesis
    using inv by (simp add: core_inv_parts record_proposal_def voted_finsert)
qed

lemma commit_after_prepare_mono:
  "commit_after_prepare q pv cv \<Longrightarrow> commit_after_prepare q (add_vote k i x pv) cv"
  by (fastforce simp: commit_after_prepare_def intro: order_trans)

lemma record_prepare_inv [inv_intros]:
  assumes inv: "core_inv C cfg st" and cfg: "config_ok cfg"
    and mem: "(v, s, d) |\<in>| pre_prepared_proposals st"
    and auth: "vote_auth C cfg (canonical_msg (phase_u8 Prepare) v s d) i sig"
    and cert: "let sigs = fmupd i sig (hm_entry (prepare_votes st) (v, s, d)) in
      unat (quorum_size cfg) \<le> hm_len sigs \<longrightarrow>
      pc_verify C (quorum_size cfg) (master_public_key cfg) (mk_prepared (v, s, d) sigs)"
  shows "core_inv C cfg (record_prepare (unat (quorum_size cfg)) (v, s, d) i sig st)"
proof -
  let ?q = "unat (quorum_size cfg)" and ?st = "record_prepare (unat (quorum_size cfg)) (v, s, d) i sig st"
  have q: "0 < ?q" using cfg by (simp add: config_ok_def)
  have votes: "prepare_votes ?st = add_vote (v, s, d) i sig (prepare_votes st)"
    by (simp add: record_prepare_def Let_def del: hm_len_upd)
  have others: "hm_entry (prepare_votes st) (v, s, d') = fmempty" if "d' \<noteq> d" for d'
    using inv mem that voted_others unfolding core_inv_parts by blast
  have t: "tally ?q mk_prepared (prepare_votes st) (prepared_certificates st)"
    using inv by (simp add: core_inv_parts)
  have "tally ?q mk_prepared (prepare_votes ?st) (prepared_certificates ?st)"
    unfolding votes using tally_add_below [OF t, of i sig "(v, s, d)"]
      tally_add_quorum [OF t q, of i sig v s d] others
    by (cases "?q \<le> hm_len (fmupd i sig (hm_entry (prepare_votes st) (v, s, d)))")
      (simp_all add: record_prepare_def Let_def not_le del: hm_len_upd)
  moreover have "\<forall>k c. fmlookup (prepared_certificates ?st) k = Some c \<longrightarrow>
      pc_verify C (quorum_size cfg) (master_public_key cfg) c"
    using inv cert by (auto simp: core_inv_parts record_prepare_def Let_def simp del: hm_len_upd)
  moreover have "votes_auth C cfg Prepare (prepare_votes ?st)"
    unfolding votes using inv auth by (intro inv_intros) (simp_all add: core_inv_parts)
  moreover have "voted (pre_prepared_proposals st) (prepare_votes ?st)"
    unfolding votes using inv mem by (intro inv_intros) (simp_all add: core_inv_parts)
  moreover have "commit_after_prepare ?q (prepare_votes ?st) (commit_votes st)"
    unfolding votes using inv by (intro commit_after_prepare_mono) (simp add: core_inv_parts)
  moreover have
    "current_view ?st = current_view st" "highest_seq ?st = highest_seq st"
    "last_stable_checkpoint ?st = last_stable_checkpoint st"
    "pre_prepared_proposals ?st = pre_prepared_proposals st"
    "commit_votes ?st = commit_votes st" "commit_certificates ?st = commit_certificates st"
    "committed_digest ?st = committed_digest st" "view_change_votes ?st = view_change_votes st"
    "new_view_certificates ?st = new_view_certificates st"
    "checkpoint_votes ?st = checkpoint_votes st"
    by (simp_all add: record_prepare_def Let_def del: hm_len_upd)
  ultimately show ?thesis using inv unfolding core_inv_parts by simp
qed

lemma record_commit_inv [inv_intros]:
  assumes inv: "core_inv C cfg st" and cfg: "config_ok cfg"
    and mem: "(v, s, d) |\<in>| pre_prepared_proposals st"
    and prepared: "unat (quorum_size cfg) \<le> hm_len (hm_entry (prepare_votes st) (v, s, d))"
    and auth: "vote_auth C cfg (canonical_msg (phase_u8 Commit) v s d) i sig"
    and cert: "let sigs = fmupd i sig (hm_entry (commit_votes st) (v, s, d)) in
      unat (quorum_size cfg) \<le> hm_len sigs \<longrightarrow>
      cc_verify C (quorum_size cfg) (master_public_key cfg) (mk_commit (v, s, d) sigs)"
  shows "core_inv C cfg (record_commit (unat (quorum_size cfg)) (v, s, d) i sig st)"
proof -
  let ?q = "unat (quorum_size cfg)" and ?st = "record_commit (unat (quorum_size cfg)) (v, s, d) i sig st"
  have q: "0 < ?q" using cfg by (simp add: config_ok_def)
  have votes: "commit_votes ?st = add_vote (v, s, d) i sig (commit_votes st)"
    by (simp add: record_commit_def Let_def del: hm_len_upd)
  have others: "hm_entry (commit_votes st) (v, s, d') = fmempty" if "d' \<noteq> d" for d'
    using inv mem that voted_others unfolding core_inv_parts by blast
  have t: "tally ?q mk_commit (commit_votes st) (commit_certificates st)"
    "tally ?q mk_digest (commit_votes st) (committed_digest st)"
    using inv by (simp_all add: core_inv_parts)
  have "tally ?q mk_commit (commit_votes ?st) (commit_certificates ?st)"
    unfolding votes using tally_add_below [OF t(1), of i sig "(v, s, d)"]
      tally_add_quorum [OF t(1) q, of i sig v s d] others
    by (cases "?q \<le> hm_len (fmupd i sig (hm_entry (commit_votes st) (v, s, d)))")
      (simp_all add: record_commit_def Let_def not_le del: hm_len_upd)
  moreover have "tally ?q mk_digest (commit_votes ?st) (committed_digest ?st)"
    unfolding votes using tally_add_below [OF t(2), of i sig "(v, s, d)"]
      tally_add_quorum [OF t(2) q, of i sig v s d] others
    by (cases "?q \<le> hm_len (fmupd i sig (hm_entry (commit_votes st) (v, s, d)))")
      (simp_all add: record_commit_def Let_def not_le mk_digest_def del: hm_len_upd)
  moreover have "\<forall>k c. fmlookup (commit_certificates ?st) k = Some c \<longrightarrow>
      cc_verify C (quorum_size cfg) (master_public_key cfg) c"
    using inv cert by (auto simp: core_inv_parts record_commit_def Let_def simp del: hm_len_upd)
  moreover have "votes_auth C cfg Commit (commit_votes ?st)"
    unfolding votes using inv auth by (intro inv_intros) (simp_all add: core_inv_parts)
  moreover have "voted (pre_prepared_proposals st) (commit_votes ?st)"
    unfolding votes using inv mem by (intro inv_intros) (simp_all add: core_inv_parts)
  moreover have "commit_after_prepare ?q (prepare_votes st) (commit_votes ?st)"
    unfolding votes using inv prepared by (auto simp: core_inv_parts commit_after_prepare_def)
  moreover have
    "current_view ?st = current_view st" "highest_seq ?st = highest_seq st"
    "last_stable_checkpoint ?st = last_stable_checkpoint st"
    "pre_prepared_proposals ?st = pre_prepared_proposals st"
    "prepare_votes ?st = prepare_votes st" "prepared_certificates ?st = prepared_certificates st"
    "view_change_votes ?st = view_change_votes st"
    "new_view_certificates ?st = new_view_certificates st"
    "checkpoint_votes ?st = checkpoint_votes st"
    by (simp_all add: record_commit_def Let_def del: hm_len_upd)
  ultimately show ?thesis using inv unfolding core_inv_parts by simp
qed

lemma record_checkpoint_stable_inv:
  assumes inv: "core_inv C cfg st"
    and auth: "vote_auth C cfg (canonical_msg (phase_u8 Checkpoint) v s d) i sig"
    and n: "last_stable_checkpoint st \<le> n"
      "unat (quorum_size cfg) \<le> hm_len (fmupd i sig (hm_entry (checkpoint_votes st) (v, s, d))) \<longrightarrow>
        s \<le> n"
  shows "core_inv C cfg ((record_checkpoint (v, s, d) i sig st)\<lparr>last_stable_checkpoint := n\<rparr>)"
proof -
  have "votes_auth C cfg Checkpoint (add_vote (v, s, d) i sig (checkpoint_votes st))"
    using inv auth by (intro inv_intros) (simp_all add: core_inv_parts)
  moreover have "s' \<le> n"
    if "unat (quorum_size cfg) \<le>
      hm_len (hm_entry (add_vote (v, s, d) i sig (checkpoint_votes st)) (v', s', d'))" for v' s' d'
  proof (cases "(v', s', d') = (v, s, d)")
    case True
    then show ?thesis using that n(2) by (simp del: hm_len_upd)
  next
    case False
    then have "unat (quorum_size cfg) \<le> hm_len (hm_entry (checkpoint_votes st) (v', s', d'))"
      using that by (auto simp del: hm_len_upd)
    then have "s' \<le> last_stable_checkpoint st"
      using inv unfolding core_inv_def checkpoint_inv_def by blast
    then show ?thesis using n(1) by (rule order_trans)
  qed
  ultimately show ?thesis
    using inv unfolding core_inv_parts record_checkpoint_def by (simp del: hm_len_upd)
qed

lemma record_checkpoint_inv [inv_intros]:
  assumes "core_inv C cfg st"
    and "vote_auth C cfg (canonical_msg (phase_u8 Checkpoint) v s d) i sig"
    and "\<not> unat (quorum_size cfg) \<le> hm_len (fmupd i sig (hm_entry (checkpoint_votes st) (v, s, d)))"
  shows "core_inv C cfg (record_checkpoint (v, s, d) i sig st)"
  using record_checkpoint_stable_inv [OF assms(1,2), of "last_stable_checkpoint st"] assms(3)
  by (simp add: record_checkpoint_def del: hm_len_upd)

lemma retain_after_inv [inv_intros]:
  assumes inv: "core_inv C cfg st" and cfg: "config_ok cfg"
  shows "core_inv C cfg (retain_after n st)"
proof -
  have q: "0 < unat (quorum_size cfg)" using cfg by (simp add: config_ok_def)
  have "commit_after_prepare (unat (quorum_size cfg)) (prepare_votes (retain_after n st))
      (commit_votes (retain_after n st))"
    using inv by (auto simp: core_inv_parts commit_after_prepare_def retain_after_def hm_entry_filter)
  moreover have "checkpoint_inv C cfg (retain_after n st)"
  proof -
    have cp: "checkpoint_inv C cfg st" using inv by (simp add: core_inv_def)
    have "s \<le> last_stable_checkpoint st" if "unat (quorum_size cfg) \<le>
        hm_len (hm_entry (checkpoint_votes (retain_after n st)) (v, s, d))" for v s d
      using that q checkpoint_invD [OF cp] by (auto simp: retain_after_def hm_entry_filter split: if_splits)
    then show ?thesis
      using cp unfolding checkpoint_inv_def by (simp add: retain_after_def votes_auth_filter)
  qed
  ultimately show ?thesis
    using inv q
    by (auto simp: core_inv_def proposals_inv_def prepare_inv_def commit_inv_def view_change_inv_def
        retain_after_def intro: inv_intros tally_filter split: if_splits)
qed

lemma record_view_change_inv [inv_intros]:
  assumes inv: "core_inv C cfg st"
    and auth: "vote_auth C cfg (canonical_msg (phase_u8 ViewChange) v s d) i sig"
    and below: "hm_len (fmupd i (s, d, sig) (hm_entry (view_change_votes st) v)) <
      unat (quorum_size cfg)"
  shows "core_inv C cfg (record_view_change v i (s, d, sig) st)"
proof -
  let ?votes = "add_vote v i (s, d, sig) (view_change_votes st)"
  have "hm_len (hm_entry (view_change_votes st) v) < unat (quorum_size cfg)"
    using below hm_len_le_upd by (rule order_le_less_trans [rotated])
  then have q: "unat (quorum_size cfg) \<le> hm_len (hm_entry ?votes v') \<longleftrightarrow>
      unat (quorum_size cfg) \<le> hm_len (hm_entry (view_change_votes st) v')" for v'
    using below by (cases "v' = v") (simp_all del: hm_len_upd)
  have nv: "new_views_inv C cfg (current_view st) (view_change_votes st) (new_view_certificates st)"
    using inv by (simp add: core_inv_parts)
  have "new_views_inv C cfg (current_view st) ?votes (new_view_certificates st)"
    unfolding new_views_inv_def q
  proof (intro conjI allI impI)
    fix v' nv' assume l: "fmlookup (new_view_certificates st) v' = Some nv'"
    then have "unat (quorum_size cfg) \<le> hm_len (hm_entry ?votes v')"
      using nv unfolding new_views_inv_def q by auto
    then have "v' \<noteq> v" using below by (auto simp del: hm_len_upd)
    then show "nv_view_change_votes nv' = hm_entry ?votes v'"
      using nv l by (simp add: new_views_inv_def)
  qed (use nv in \<open>auto simp: new_views_inv_def\<close>)
  moreover have "vc_votes_auth C cfg ?votes"
    using inv auth by (intro inv_intros) (simp_all add: core_inv_parts)
  ultimately show ?thesis using inv by (simp add: core_inv_parts record_view_change_def)
qed

lemma record_new_view_inv [inv_intros]:
  assumes inv: "core_inv C cfg st"
    and auth: "vote_auth C cfg (canonical_msg (phase_u8 ViewChange) v s d) i sig"
    and quorum: "unat (quorum_size cfg) \<le>
      hm_len (fmupd i (s, d, sig) (hm_entry (view_change_votes st) v))"
    and nv: "nv_verify C (quorum_size cfg) (master_public_key cfg) (public_keys cfg) nv"
      "nv_target_view nv = v"
      "nv_view_change_votes nv = fmupd i (s, d, sig) (hm_entry (view_change_votes st) v)"
    and bounds: "current_view st \<le> cv" "v \<le> cv"
  shows "core_inv C cfg (record_view_change v i (s, d, sig)
    (st\<lparr>current_view := cv, new_view_certificates := fmupd v nv (new_view_certificates st)\<rparr>))"
proof -
  let ?votes = "add_vote v i (s, d, sig) (view_change_votes st)"
  have old: "new_views_inv C cfg (current_view st) (view_change_votes st) (new_view_certificates st)"
    using inv by (simp add: core_inv_parts)
  have "new_views_inv C cfg cv ?votes (fmupd v nv (new_view_certificates st))"
    using old quorum nv bounds
    by (auto simp: new_views_inv_def simp del: hm_len_upd intro: order_trans)
  moreover have "vc_votes_auth C cfg ?votes"
    using inv auth by (intro inv_intros) (simp_all add: core_inv_parts)
  moreover have "proposals_inv (st\<lparr>current_view := cv\<rparr>)"
    using inv bounds by (auto simp: core_inv_parts intro: order_trans)
  ultimately show ?thesis using inv by (simp add: core_inv_parts record_view_change_def)
qed

end
