(* ===== verification/Pbft_Handler.thy ===== *)
theory Pbft_Handler
  imports Pbft_Inv
begin

text \<open>
  Correctness of the message handler: what each phase handler does when it accepts, the invariant
  is kept by every message under every outcome of the system calls, a rejected message changes
  nothing, views and stable checkpoints never go back, and which error branches are dead. The
  theory interprets \<open>step_system\<close> on \<open>handle_message\<close>.
\<close>

section \<open>What an accepted message does\<close>

lemma on_pre_prepare_Ok:
  "on_pre_prepare cfg msg st = (Ok r, st') \<longleftrightarrow>
     pm_view msg = current_view st \<and> pm_sender_id msg = get_expected_leader cfg (pm_view msg) \<and>
     (\<forall>d. (pm_view msg, pm_seq msg, d) |\<notin>| pre_prepared_proposals st) \<and>
     r = INBOUND_OK_PREPREPARE \<and>
     st' = record_proposal (proposal_key msg)
       (raise_to (current_view st) (max (highest_seq st) (pm_seq msg)) st)"
proof -
  have "fBex (pre_prepared_proposals st)
      (\<lambda>(view, seq, digest). view = pm_view msg \<and> seq = pm_seq msg \<and> digest \<noteq> pm_digest msg) \<or>
      proposal_key msg |\<in>| pre_prepared_proposals st \<longleftrightarrow>
    \<not> (\<forall>d. (pm_view msg, pm_seq msg, d) |\<notin>| pre_prepared_proposals st)"
    by (fastforce simp: proposal_key_def)
  then show ?thesis
    by (auto simp: on_pre_prepare_def record_proposal_def raise_to_def)
qed

lemma on_prepare_Ok:
  assumes "on_prepare C cfg msg st = (Ok r, st')"
  shows "pm_view msg = current_view st" "proposal_key msg |\<in>| pre_prepared_proposals st"
    "st' = record_prepare (unat (quorum_size cfg)) (proposal_key msg) (pm_sender_id msg)
       (pm_signature msg) st"
    "r = (if unat (quorum_size cfg) \<le> hm_len (hm_entry (prepare_votes st') (proposal_key msg))
       then CERTIFICATE_OK_PREPARED else VOTE_OK_PREPARE)"
    "let sigs = fmupd (pm_sender_id msg) (pm_signature msg)
        (hm_entry (prepare_votes st) (proposal_key msg)) in
      unat (quorum_size cfg) \<le> hm_len sigs \<longrightarrow>
      pc_verify C (quorum_size cfg) (master_public_key cfg) (mk_prepared (proposal_key msg) sigs)"
  using assms
  by (auto simp: on_prepare_def record_prepare_def Let_def mk_prepared_def proposal_key_def
      simp del: hm_len_upd split: if_splits)

lemma on_commit_Ok:
  assumes "on_commit C cfg msg st = (Ok r, st')"
  shows "pm_view msg = current_view st" "proposal_key msg |\<in>| pre_prepared_proposals st"
    "has_certificate C cfg (\<lambda>view. view = pm_view msg) (pm_seq msg) (pm_digest msg) st"
    "st' = record_commit (unat (quorum_size cfg)) (proposal_key msg) (pm_sender_id msg)
       (pm_signature msg) st"
    "r = (if unat (quorum_size cfg) \<le> hm_len (hm_entry (commit_votes st') (proposal_key msg))
       then COMMITTED_OK else VOTE_OK_COMMIT)"
    "let sigs = fmupd (pm_sender_id msg) (pm_signature msg)
        (hm_entry (commit_votes st) (proposal_key msg)) in
      unat (quorum_size cfg) \<le> hm_len sigs \<longrightarrow>
      cc_verify C (quorum_size cfg) (master_public_key cfg) (mk_commit (proposal_key msg) sigs)"
  using assms
  by (auto simp: on_commit_def record_commit_def Let_def mk_commit_def proposal_key_def
      simp del: hm_len_upd split: if_splits)

lemma on_checkpoint_Ok:
  assumes "on_checkpoint cfg msg st = (Ok r, st')"
  shows "pm_view msg = current_view st"
    "r = (if unat (quorum_size cfg) \<le> hm_len (fmupd (pm_sender_id msg) (pm_signature msg)
            (hm_entry (checkpoint_votes st) (proposal_key msg)))
       then CHECKPOINT_STABILIZED else VOTE_OK_CHECKPOINT)"
    "st' = (if r = CHECKPOINT_STABILIZED
       then retain_after (pm_seq msg) ((record_checkpoint (proposal_key msg) (pm_sender_id msg)
              (pm_signature msg) st)\<lparr>last_stable_checkpoint := pm_seq msg\<rparr>)
       else record_checkpoint (proposal_key msg) (pm_sender_id msg) (pm_signature msg) st)"
  using assms
  by (auto simp: on_checkpoint_def record_checkpoint_def Let_def
      simp del: hm_len_upd split: if_splits)

text \<open>The vote of a view-change message, the supporters it makes, the certificate they carry over
  and the new-view certificate.\<close>

definition vc_vote_of :: "'g1 pbft_message \<Rightarrow> 'g1 vc_vote" where
  "vc_vote_of msg = (pm_seq msg, pm_digest msg, pm_signature msg)"

definition supporters_of ::
  "'g1 pbft_message \<Rightarrow> 'g1 pbft_core \<Rightarrow> (u32, 'g1 vc_vote) fmap" where
  "supporters_of msg st = fmupd (pm_sender_id msg) (vc_vote_of msg)
     (hm_entry (view_change_votes st) (pm_view msg))"

definition bound_cert_of ::
  "('s::field, 'g1::ab_group_add, 'g2, 'gt) bls \<Rightarrow> 'g2 pbft_config \<Rightarrow> 'g1 pbft_message \<Rightarrow>
    'g1 pbft_core \<Rightarrow> 'g1 prepared_certificate option" where
  "bound_cert_of C cfg msg st =
     (case highest_view_change_slot (supporters_of msg st) of
        None \<Rightarrow> None
      | Some (m, d) \<Rightarrow>
          (if 0 < m
           then select_highest_prepared_certificate C (hm_values (prepared_certificates st))
                  (pm_view msg) m d (quorum_size cfg) (master_public_key cfg)
           else None))"

definition new_view_of ::
  "('s::field, 'g1::ab_group_add, 'g2, 'gt) bls \<Rightarrow> 'g2 pbft_config \<Rightarrow> 'g1 pbft_message \<Rightarrow>
    'g1 pbft_core \<Rightarrow> 'g1 new_view_certificate" where
  "new_view_of C cfg msg st = \<lparr>nv_target_view = pm_view msg,
     nv_view_change_votes = supporters_of msg st, nv_selected = bound_cert_of C cfg msg st\<rparr>"

definition record_new_view ::
  "('s::field, 'g1::ab_group_add, 'g2, 'gt) bls \<Rightarrow> 'g2 pbft_config \<Rightarrow> 'g1 pbft_message \<Rightarrow>
    'g1 pbft_core \<Rightarrow> 'g1 pbft_core" where
  "record_new_view C cfg msg st =
     raise_to (pm_view msg)
       (case bound_cert_of C cfg msg st of
          None \<Rightarrow> highest_seq st | Some c \<Rightarrow> max (highest_seq st) (pc_seq c))
       (record_view_change (pm_view msg) (pm_sender_id msg) (vc_vote_of msg)
         (st\<lparr>current_view := pm_view msg,
            new_view_certificates :=
              fmupd (pm_view msg) (new_view_of C cfg msg st) (new_view_certificates st)\<rparr>))"

lemma install_new_view_cases:
  "install_new_view C cfg v supporters bound st =
     (let nv = \<lparr>nv_target_view = v, nv_view_change_votes = supporters, nv_selected = bound\<rparr>;
          hs = (case bound of None \<Rightarrow> highest_seq st | Some c \<Rightarrow> max (highest_seq st) (pc_seq c))
      in if nv_verify C (quorum_size cfg) (master_public_key cfg) (public_keys cfg) nv
         then (Ok VIEW_CHANGE_OK, st\<lparr>highest_seq := hs,
                 new_view_certificates := fmupd v nv (new_view_certificates st)\<rparr>)
         else (Err NEW_VIEW_VERIFICATION_FAILED, st\<lparr>highest_seq := hs\<rparr>))"
  by (simp add: install_new_view_def Let_def split: option.splits)

lemma on_view_change_Ok:
  assumes "on_view_change C cfg msg st = (Ok r, st')"
  shows "current_view st < pm_view msg"
    "pm_seq msg = 0 \<or> has_certificate C cfg (\<lambda>view. True) (pm_seq msg) (pm_digest msg) st"
    "if unat (quorum_size cfg) \<le> hm_len (supporters_of msg st)
     then r = VIEW_CHANGE_OK \<and> st' = record_new_view C cfg msg st \<and>
       nv_verify C (quorum_size cfg) (master_public_key cfg) (public_keys cfg)
         (new_view_of C cfg msg st)
     else r = VOTE_OK_VIEW_CHANGE \<and>
       st' = record_view_change (pm_view msg) (pm_sender_id msg) (vc_vote_of msg) st"
proof -
  show "current_view st < pm_view msg"
    "pm_seq msg = 0 \<or> has_certificate C cfg (\<lambda>view. True) (pm_seq msg) (pm_digest msg) st"
    using assms by (auto simp: on_view_change_def not_le not_less word_gt_0 split: if_splits)
  show "if unat (quorum_size cfg) \<le> hm_len (supporters_of msg st)
     then r = VIEW_CHANGE_OK \<and> st' = record_new_view C cfg msg st \<and>
       nv_verify C (quorum_size cfg) (master_public_key cfg) (public_keys cfg)
         (new_view_of C cfg msg st)
     else r = VOTE_OK_VIEW_CHANGE \<and>
       st' = record_view_change (pm_view msg) (pm_sender_id msg) (vc_vote_of msg) st"
    using assms unfolding on_view_change_def Let_def
    by (fold vc_vote_of_def, fold supporters_of_def)
      (auto simp: install_new_view_cases Let_def new_view_of_def record_new_view_def
        bound_cert_of_def record_view_change_def raise_to_def supporters_of_def
        simp del: hm_len_upd split: if_splits option.splits)
qed

section \<open>Preservation\<close>

text \<open>Under the invariant a prepared certificate is a quorum of prepare votes.\<close>

lemma has_certificate_iff:
  assumes inv: "core_inv C cfg st"
  shows "has_certificate C cfg P s d st \<longleftrightarrow>
    (\<exists>v. P v \<and> unat (quorum_size cfg) \<le> hm_len (hm_entry (prepare_votes st) (v, s, d)))"
proof -
  have t: "tally (unat (quorum_size cfg)) mk_prepared (prepare_votes st) (prepared_certificates st)"
    and ok: "\<And>k c. fmlookup (prepared_certificates st) k = Some c \<Longrightarrow>
      pc_verify C (quorum_size cfg) (master_public_key cfg) c"
    using inv by (auto simp: core_inv_parts)
  show ?thesis
  proof
    assume "has_certificate C cfg P s d st"
    then obtain v' s' c where "fmlookup (prepared_certificates st) (v', s') = Some c"
      "P (pc_view c)" "pc_seq c = s" "pc_digest c = d"
      by (auto simp: has_certificate_def hm_any_iff)
    with tallyD [OF t this(1)]
    show "\<exists>v. P v \<and> unat (quorum_size cfg) \<le> hm_len (hm_entry (prepare_votes st) (v, s, d))"
      by (auto simp: mk_prepared_def)
  next
    assume "\<exists>v. P v \<and> unat (quorum_size cfg) \<le> hm_len (hm_entry (prepare_votes st) (v, s, d))"
    then obtain v where v: "P v" "unat (quorum_size cfg) \<le> hm_len (hm_entry (prepare_votes st) (v, s, d))"
      by blast
    from tallyI [OF t v(2)] show "has_certificate C cfg P s d st"
      unfolding has_certificate_def using v(1) ok
      by (intro hm_anyI [of _ "(v, s)"]) (auto simp: mk_prepared_def)
  qed
qed

lemma dispatch_inv:
  assumes inv: "core_inv C cfg st" and cfg: "config_ok cfg"
    and auth: "vote_auth C cfg (pm_canonical msg) (pm_sender_id msg) (pm_signature msg)"
    and fresh: "pm_phase msg = Checkpoint \<Longrightarrow> last_stable_checkpoint st < pm_seq msg"
    and ok: "dispatch C cfg msg st = (Ok r, st')"
  shows "core_inv C cfg st'"
proof (cases "pm_phase msg")
  case PrePrepare
  then have "on_pre_prepare cfg msg st = (Ok r, st')" using ok by (simp add: dispatch_def)
  then have *: "pm_view msg = current_view st"
    "\<forall>d. (pm_view msg, pm_seq msg, d) |\<notin>| pre_prepared_proposals st"
    "st' = record_proposal (proposal_key msg)
       (raise_to (current_view st) (max (highest_seq st) (pm_seq msg)) st)"
    unfolding on_pre_prepare_Ok by blast+
  show ?thesis unfolding *(3) proposal_key_def
  proof (rule record_proposal_inv)
    show "core_inv C cfg (raise_to (current_view st) (max (highest_seq st) (pm_seq msg)) st)"
      using inv by (rule raise_to_inv) simp_all
  qed (use *(1,2) in \<open>auto simp: raise_to_def\<close>)
next
  case Prepare
  then have ok: "on_prepare C cfg msg st = (Ok r, st')" using ok by (simp add: dispatch_def)
  note * = on_prepare_Ok [OF ok, unfolded proposal_key_def]
  show ?thesis
    unfolding *(3) by (rule record_prepare_inv [OF inv cfg *(2) _ *(5)])
      (use auth Prepare in \<open>simp add: pm_canonical_def\<close>)
next
  case Commit
  then have ok: "on_commit C cfg msg st = (Ok r, st')" using ok by (simp add: dispatch_def)
  note * = on_commit_Ok [OF ok, unfolded proposal_key_def]
  have "unat (quorum_size cfg) \<le>
      hm_len (hm_entry (prepare_votes st) (pm_view msg, pm_seq msg, pm_digest msg))"
    using *(3) has_certificate_iff [OF inv] by auto
  then show ?thesis
    unfolding *(4) by (rule record_commit_inv [OF inv cfg *(2) _ _ *(6)])
      (use auth Commit in \<open>simp add: pm_canonical_def\<close>)
next
  case ViewChange
  then have ok: "on_view_change C cfg msg st = (Ok r, st')" using ok by (simp add: dispatch_def)
  note * = on_view_change_Ok [OF ok]
  have a: "vote_auth C cfg (canonical_msg (phase_u8 ViewChange) (pm_view msg) (pm_seq msg)
      (pm_digest msg)) (pm_sender_id msg) (pm_signature msg)"
    using auth ViewChange by (simp add: pm_canonical_def)
  show ?thesis
  proof (cases "unat (quorum_size cfg) \<le> hm_len (supporters_of msg st)")
    case True
    then have st': "st' = record_new_view C cfg msg st"
      and nv: "nv_verify C (quorum_size cfg) (master_public_key cfg) (public_keys cfg)
        (new_view_of C cfg msg st)" using *(3) by simp_all
    show ?thesis unfolding st' record_new_view_def vc_vote_of_def
    proof (rule raise_to_inv)
      show "core_inv C cfg (record_view_change (pm_view msg) (pm_sender_id msg)
          (pm_seq msg, pm_digest msg, pm_signature msg)
          (st\<lparr>current_view := pm_view msg,
             new_view_certificates :=
               fmupd (pm_view msg) (new_view_of C cfg msg st) (new_view_certificates st)\<rparr>))"
        using True nv *(1)
        by (intro record_new_view_inv [OF inv a])
          (simp_all add: new_view_of_def supporters_of_def vc_vote_of_def del: hm_len_upd)
    qed (simp_all add: record_view_change_def split: option.split)
  next
    case False
    then show ?thesis using *(3) record_view_change_inv [OF inv a]
      by (simp add: vc_vote_of_def supporters_of_def not_le del: hm_len_upd)
  qed
next
  case Checkpoint
  then have ok: "on_checkpoint cfg msg st = (Ok r, st')" using ok by (simp add: dispatch_def)
  note * = on_checkpoint_Ok [OF ok, unfolded proposal_key_def]
  have a: "vote_auth C cfg (canonical_msg (phase_u8 Checkpoint) (pm_view msg) (pm_seq msg)
      (pm_digest msg)) (pm_sender_id msg) (pm_signature msg)"
    using auth Checkpoint by (simp add: pm_canonical_def)
  show ?thesis
    using *(2,3) fresh [OF Checkpoint]
    by (auto intro!: retain_after_inv [OF _ cfg] record_checkpoint_stable_inv [OF inv a]
        record_checkpoint_inv [OF inv a] simp del: hm_len_upd split: if_splits)
qed

section \<open>The dead branch of a view change\<close>

text \<open>When every stored vote is authenticated, the new-view certificate the handler builds always
  verifies: the check before it is installed cannot fail.\<close>

lemma new_view_of_verifies:
  assumes inv: "core_inv C cfg st"
    and auth: "vote_auth C cfg (pm_canonical msg) (pm_sender_id msg) (pm_signature msg)"
    and ph: "pm_phase msg = ViewChange"
    and q: "unat (quorum_size cfg) \<le> hm_len (supporters_of msg st)"
    and slot: "highest_view_change_slot (supporters_of msg st) = Some (m, d)"
    and bound: "0 < m \<Longrightarrow> bound_cert_of C cfg msg st \<noteq> None"
  shows "nv_verify C (quorum_size cfg) (master_public_key cfg) (public_keys cfg)
    (new_view_of C cfg msg st)"
proof -
  have "vc_votes_auth C cfg (add_vote (pm_view msg) (pm_sender_id msg) (vc_vote_of msg)
      (view_change_votes st))"
    unfolding vc_vote_of_def using inv auth ph
    by (intro vc_votes_auth_add) (simp_all add: core_inv_parts pm_canonical_def)
  from vc_votes_auth_valid [OF this, of "pm_view msg"]
  have "length (filter (vc_vote_valid C (public_keys cfg) (pm_view msg))
      (hm_items (supporters_of msg st))) = hm_len (supporters_of msg st)"
    by (intro vc_votes_all_valid) (simp add: supporters_of_def)
  moreover have "case bound_cert_of C cfg msg st of
      None \<Rightarrow> m = 0
    | Some c \<Rightarrow> pc_verify C (quorum_size cfg) (master_public_key cfg) c \<and>
        pc_view c < pm_view msg \<and> pc_seq c = m \<and> pc_digest c = d"
  proof (cases "m = 0")
    case True
    then show ?thesis using slot by (simp add: bound_cert_of_def)
  next
    case False
    then obtain c where "bound_cert_of C cfg msg st = Some c" using bound word_gt_0 by blast
    then show ?thesis
      using slot False select_highest_Some(2)
      by (fastforce simp: bound_cert_of_def cert_eligible_def word_gt_0)
  qed
  ultimately show ?thesis
    using q slot by (auto simp: nv_verify_iff new_view_of_def split: option.splits)
qed

lemma on_view_change_never_unverified:
  assumes "core_inv C cfg st"
    and "vote_auth C cfg (pm_canonical msg) (pm_sender_id msg) (pm_signature msg)"
    and "pm_phase msg = ViewChange"
  shows "fst (on_view_change C cfg msg st) \<noteq> Err NEW_VIEW_VERIFICATION_FAILED"
  using new_view_of_verifies [OF assms]
  unfolding on_view_change_def Let_def
  by (fold vc_vote_of_def, fold supporters_of_def)
    (auto simp: install_new_view_cases Let_def new_view_of_def bound_cert_of_def
      split: option.splits if_splits)

section \<open>The whole handler\<close>

definition node_inv ::
  "('s::field, 'g1::ab_group_add, 'g2, 'gt) bls \<Rightarrow> ('g1, 'g2) pbft_state \<Rightarrow> bool" where
  "node_inv C st \<longleftrightarrow> config_ok (st_config st) \<and> core_inv C (st_config st) (st_core st)"

text \<open>The guards before the dispatch.\<close>

definition admissible ::
  "('s::field, 'g1::ab_group_add, 'g2, 'gt) bls \<Rightarrow> 'g1 pbft_message \<Rightarrow>
    ('g1, 'g2) pbft_state \<Rightarrow> bool" where
  "admissible C msg st \<longleftrightarrow> \<not> wal_failed st \<and>
     vote_auth C (st_config st) (pm_canonical msg) (pm_sender_id msg) (pm_signature msg) \<and>
     (pm_phase msg = Checkpoint \<longrightarrow> last_stable_checkpoint (st_core st) < pm_seq msg)"

text \<open>Either the core is unchanged, or an admissible message was dispatched and accepted.\<close>

lemma handle_message_core:
  assumes "handle_message C io msg st = (res, st')"
  shows "st_config st' = st_config st \<and>
    (st_core st' = st_core st \<or>
     admissible C msg st \<and>
     (\<exists>r. dispatch C (st_config st) msg (st_core st) = (Ok r, st_core st') \<and>
          (res = Ok r \<or> res = Err WAL_PRUNE_ERROR \<and> r = CHECKPOINT_STABILIZED)))"
  using assms
  by (auto simp: handle_message_def Let_def admissible_def vote_auth_def not_le
      split: if_splits option.splits prod.splits sum.splits)

lemma handle_message_inv [inv_intros]:
  assumes "node_inv C st"
  shows "node_inv C (snd (handle_message C io msg st))"
proof -
  obtain res st' where h: "handle_message C io msg st = (res, st')" by fastforce
  from handle_message_core [OF h] assms show ?thesis
    by (auto simp: h node_inv_def admissible_def intro: dispatch_inv)
qed

type_synonym 'g1 node_event = "handler_io \<times> 'g1 pbft_message"

definition node_step ::
  "('s::field, 'g1::ab_group_add, 'g2, 'gt) bls \<Rightarrow> 'g1 node_event \<Rightarrow> ('g1, 'g2) pbft_state \<Rightarrow>
    ('g1, 'g2) pbft_state" where
  "node_step C ev st = snd (handle_message C (fst ev) (snd ev) st)"

interpretation node: step_system node_step node_inv
  by unfold_locales (simp add: node_step_def handle_message_inv)

text \<open>Acceptance in one lemma: the guards, the transition and the write to the log.\<close>

lemma handle_message_Ok:
  assumes "handle_message C io msg st = (Ok r, st')" "r \<noteq> CHECKPOINT_OBSOLETE"
  shows "admissible C msg st"
    "dispatch C (st_config st) msg (st_core st) = (Ok r, st_core st')"
    "st_config st' = st_config st" "\<not> wal_failed st'"
    "\<exists>w. append_entry C (h_append io) (msg_row msg) (st_wal st) = (Ok (), w) \<and>
       (if r = CHECKPOINT_STABILIZED
        then prune_before (h_prune io) (pm_seq msg) w = (Ok (), st_wal st')
        else st_wal st' = w)"
  using assms
  by (auto simp: handle_message_def Let_def admissible_def vote_auth_def not_le dispatch_def
      on_pre_prepare_Ok on_prepare_def on_commit_def on_view_change_def install_new_view_cases
      split: if_splits option.splits prod.splits sum.splits phase.splits)

lemma node_run_config: "st_config (fold (node_step C) evs st) = st_config st"
proof (induction evs arbitrary: st)
  case (Cons ev evs)
  have "st_config (node_step C ev st) = st_config st"
    using handle_message_core [of C "fst ev" "snd ev" st] by (simp add: node_step_def prod_eq_iff)
  then show ?case using Cons.IH [of "node_step C ev st"] by simp
qed simp

text \<open>Only a checkpoint quorum moves the stable checkpoint.\<close>

lemma dispatch_checkpoint_changed:
  assumes ok: "dispatch C cfg msg st = (Ok r, st')"
    and changed: "last_stable_checkpoint st' \<noteq> last_stable_checkpoint st"
  shows "pm_phase msg = Checkpoint" "on_checkpoint cfg msg st = (Ok CHECKPOINT_STABILIZED, st')"
proof -
  have same: "last_stable_checkpoint st' = last_stable_checkpoint st" if "pm_phase msg \<noteq> Checkpoint"
  proof (cases "pm_phase msg")
    case PrePrepare
    then show ?thesis using ok by (simp add: dispatch_def on_pre_prepare_Ok record_proposal_def raise_to_def)
  next
    case Prepare
    then have "on_prepare C cfg msg st = (Ok r, st')" using ok by (simp add: dispatch_def)
    from on_prepare_Ok(3) [OF this] show ?thesis
      by (auto simp: record_prepare_def Let_def simp del: hm_len_upd split: prod.splits)
  next
    case Commit
    then have "on_commit C cfg msg st = (Ok r, st')" using ok by (simp add: dispatch_def)
    from on_commit_Ok(4) [OF this] show ?thesis
      by (auto simp: record_commit_def Let_def simp del: hm_len_upd split: prod.splits)
  next
    case ViewChange
    then have "on_view_change C cfg msg st = (Ok r, st')" using ok by (simp add: dispatch_def)
    from on_view_change_Ok(3) [OF this] show ?thesis
      by (auto simp: record_new_view_def raise_to_def record_view_change_def split: if_splits)
  qed (use that in simp)
  then show ph: "pm_phase msg = Checkpoint" using changed by blast
  have on: "on_checkpoint cfg msg st = (Ok r, st')" using ok ph by (simp add: dispatch_def)
  have "r = CHECKPOINT_STABILIZED"
    using on_checkpoint_Ok(3) [OF on] changed by (auto simp: record_checkpoint_def split: if_splits)
  then show "on_checkpoint cfg msg st = (Ok CHECKPOINT_STABILIZED, st')" using on by simp
qed

section \<open>The errors of the phase handlers\<close>

lemma install_new_view_errors:
  "install_new_view C cfg v votes b st = (Err e, st') \<Longrightarrow> e = NEW_VIEW_VERIFICATION_FAILED"
  by (auto simp: install_new_view_cases Let_def split: if_splits)

lemma dispatch_errors:
  assumes "dispatch C cfg msg st = (Err e, st')"
  shows "e \<in> (case pm_phase msg of
      PrePrepare \<Rightarrow> {VIEW_MISMATCH, LEADER_VIOLATION, EQUIVOCATION_DETECTED, DUPLICATE_PROPOSAL}
    | Prepare \<Rightarrow> {VIEW_MISMATCH, ORPHAN_PREPARE, CERTIFICATE_VERIFICATION_FAILED}
    | Commit \<Rightarrow> {VIEW_MISMATCH, ORPHAN_COMMIT, SAFETY_VIOLATION, EQUIVOCATION_DETECTED,
        CERTIFICATE_VERIFICATION_FAILED}
    | ViewChange \<Rightarrow> {VIEW_CHANGE_INVALID, CERTIFICATE_INVALID, CONFLICTING_VIEW_CHANGE_DIGESTS,
        MISSING_QUORUM_CERTIFICATE, NEW_VIEW_VERIFICATION_FAILED}
    | Checkpoint \<Rightarrow> {VIEW_MISMATCH})"
proof (cases "pm_phase msg")
  case PrePrepare
  with assms show ?thesis by (auto simp: dispatch_def on_pre_prepare_def split: if_splits)
next
  case Prepare
  with assms show ?thesis
    by (auto simp: dispatch_def on_prepare_def Let_def simp del: hm_len_upd split: if_splits)
next
  case Commit
  with assms show ?thesis
    by (auto simp: dispatch_def on_commit_def Let_def simp del: hm_len_upd split: if_splits)
next
  case ViewChange
  with assms show ?thesis
    by (auto simp: dispatch_def on_view_change_def Let_def simp del: hm_len_upd
        dest: install_new_view_errors split: if_splits option.splits)
next
  case Checkpoint
  with assms show ?thesis
    by (auto simp: dispatch_def on_checkpoint_def Let_def simp del: hm_len_upd split: if_splits)
qed

lemma dispatch_no_io_error:
  "dispatch C cfg msg st = (Err e, st') \<Longrightarrow>
    e \<notin> {WAL_ERROR, WAL_PRUNE_ERROR, WAL_UNAVAILABLE, PANIC_UNWRAP_NONE, AUTH_FAILED}"
  using dispatch_errors [of C cfg msg st e st'] by (cases "pm_phase msg") auto

section \<open>Errors that cannot occur\<close>

lemma handle_message_no_panic:
  assumes "node_inv C st"
  shows "fst (handle_message C io msg st) \<noteq> Err PANIC_UNWRAP_NONE"
  using assms
  by (auto simp: handle_message_def node_inv_def config_ok_def Let_def
      dest: dispatch_no_io_error split: prod.splits sum.splits option.splits if_splits)

lemma handle_message_new_view_verifies:
  assumes inv: "node_inv C st"
  shows "fst (handle_message C io msg st) \<noteq> Err NEW_VIEW_VERIFICATION_FAILED"
proof
  assume e: "fst (handle_message C io msg st) = Err NEW_VIEW_VERIFICATION_FAILED"
  then obtain st' where d: "dispatch C (st_config st) msg (st_core st) = (Err NEW_VIEW_VERIFICATION_FAILED, st')"
    and auth: "vote_auth C (st_config st) (pm_canonical msg) (pm_sender_id msg) (pm_signature msg)"
    by (auto simp: handle_message_def vote_auth_def Let_def
        split: prod.splits sum.splits option.splits if_splits)
  have "pm_phase msg = ViewChange"
    using dispatch_errors [OF d] by (cases "pm_phase msg") auto
  then show False
    using on_view_change_never_unverified [of C "st_config st" "st_core st" msg] inv auth d
    by (simp add: node_inv_def dispatch_def)
qed

end
