(* ===== verification/Pbft_Recovery.thy ===== *)
theory Pbft_Recovery
  imports Pbft_Handler
begin

text \<open>
  Construction of a replica: \<open>PbftState::new_with_wal_path\<close>, with the replay of the log.
  The local variables \<open>recovered_*\<close> are a core; \<open>rc_error\<close> is the flag \<open>recovery_error\<close>. A row
  that sets the flag is \<open>None\<close>: the source keeps the variables it has already written, but returns
  an error and drops them all. The lemmas: every construction that succeeds, from whatever bytes
  the log holds, yields a replica that satisfies the invariant; and the rows that a live replica
  has acknowledged rebuild it.
\<close>

section \<open>Topology and registry\<close>

fun register_loop ::
  "(u32, 'g2) fmap \<Rightarrow> u32 list \<Rightarrow> u32 fset \<Rightarrow> (pbft_error, u32 fset) result" where
  "register_loop keys [] registered = Ok registered"
| "register_loop keys (i # ids) registered =
     (if \<not> hm_contains keys i then Err REGISTRY_VIOLATION
      else register_loop keys ids (finsert i registered))"

definition make_config ::
  "usize \<Rightarrow> (u32, 'g2) fmap \<Rightarrow> 'g2 \<Rightarrow> (pbft_error, 'g2 pbft_config) result" where
  "make_config n keys mpk =
     (let f = (n - 1) div 3 in
      if n \<noteq> 3 * f + 1 then Err TOPOLOGY_VIOLATION
      else case register_loop keys (map word_of_nat [0..<unat (ucast n :: u32)]) {||} of
        Err e \<Rightarrow> Err e
      | Ok registered \<Rightarrow>
          Ok \<lparr>total_nodes = n, byz_f = f, quorum_size = 2 * f + 1,
              registered_nodes = registered, public_keys = keys, master_public_key = mpk\<rparr>)"

section \<open>Replaying a row\<close>

record 'g1 recovery =
  rc_core :: "'g1 pbft_core"
  rc_error :: bool

definition row_key :: "'g1 wal_row \<Rightarrow> proposal" where
  "row_key r = (row_view r, row_seq r, row_digest r)"

definition recover_prepare ::
  "('s::field, 'g1::ab_group_add, 'g2, 'gt) bls \<Rightarrow> 'g2 pbft_config \<Rightarrow> 'g1 wal_row \<Rightarrow>
    'g1 pbft_core \<Rightarrow> 'g1 pbft_core option" where
  "recover_prepare C cfg r st =
     (if row_key r |\<notin>| pre_prepared_proposals st then None
      else
        let sigs = fmupd (row_sender_id r) (row_signature r)
                     (hm_entry (prepare_votes st) (row_key r));
            st1 = st\<lparr>prepare_votes := fmupd (row_key r) sigs (prepare_votes st)\<rparr>
        in if unat (quorum_size cfg) \<le> hm_len sigs then
             let cert = \<lparr>pc_view = row_view r, pc_seq = row_seq r, pc_digest = row_digest r,
                         pc_signatures = sigs\<rparr>
             in if \<not> pc_verify C (quorum_size cfg) (master_public_key cfg) cert then None
                else Some (st1\<lparr>prepared_certificates :=
                       fmupd (row_view r, row_seq r) cert (prepared_certificates st1)\<rparr>)
           else Some st1)"

definition recover_commit ::
  "('s::field, 'g1::ab_group_add, 'g2, 'gt) bls \<Rightarrow> 'g2 pbft_config \<Rightarrow> 'g1 wal_row \<Rightarrow>
    'g1 pbft_core \<Rightarrow> 'g1 pbft_core option" where
  "recover_commit C cfg r st =
     (if row_key r |\<notin>| pre_prepared_proposals st \<or>
         \<not> has_certificate C cfg (\<lambda>view. view = row_view r) (row_seq r) (row_digest r) st
      then None
      else
        let sigs = fmupd (row_sender_id r) (row_signature r)
                     (hm_entry (commit_votes st) (row_key r));
            st1 = st\<lparr>commit_votes := fmupd (row_key r) sigs (commit_votes st)\<rparr>
        in if unat (quorum_size cfg) \<le> hm_len sigs then
             let commit_cert = \<lparr>cc_view = row_view r, cc_seq = row_seq r,
                                cc_digest = row_digest r, cc_signatures = sigs\<rparr>
             in if \<not> cc_verify C (quorum_size cfg) (master_public_key cfg) commit_cert then None
                else Some (st1\<lparr>commit_certificates :=
                         fmupd (row_view r, row_seq r) commit_cert (commit_certificates st1),
                       committed_digest :=
                         fmupd (row_view r, row_seq r) (row_digest r) (committed_digest st1)\<rparr>)
           else Some st1)"

definition recover_new_view ::
  "('s::field, 'g1::ab_group_add, 'g2, 'gt) bls \<Rightarrow> 'g2 pbft_config \<Rightarrow> u64 \<Rightarrow>
    (u32, 'g1 vc_vote) fmap \<Rightarrow> 'g1 prepared_certificate option \<Rightarrow> 'g1 pbft_core \<Rightarrow>
    'g1 pbft_core option" where
  "recover_new_view C cfg view supporters selected st =
     (let new_view_cert = \<lparr>nv_target_view = view, nv_view_change_votes = supporters,
                           nv_selected = selected\<rparr>
      in if \<not> nv_verify C (quorum_size cfg) (master_public_key cfg) (public_keys cfg) new_view_cert
         then None
         else Some (st\<lparr>current_view := max (current_view st) view,
                      new_view_certificates :=
                        fmupd view new_view_cert (new_view_certificates st)\<rparr>))"

definition recover_view_change ::
  "('s::field, 'g1::ab_group_add, 'g2, 'gt) bls \<Rightarrow> 'g2 pbft_config \<Rightarrow> 'g1 wal_row \<Rightarrow>
    'g1 pbft_core \<Rightarrow> 'g1 pbft_core option" where
  "recover_view_change C cfg r st =
     (if 0 < row_seq r \<and>
         \<not> has_certificate C cfg (\<lambda>view. view < row_view r) (row_seq r) (row_digest r) st
      then None
      else
        let supporters = fmupd (row_sender_id r) (row_seq r, row_digest r, row_signature r)
                           (hm_entry (view_change_votes st) (row_view r));
            st1 = st\<lparr>view_change_votes := fmupd (row_view r) supporters (view_change_votes st)\<rparr>
        in if unat (quorum_size cfg) \<le> hm_len supporters then
             (case highest_view_change_slot supporters of
                None \<Rightarrow> None
              | Some (max_quorum_seq, best_digest) \<Rightarrow>
                  (if 0 < max_quorum_seq then
                     (case select_highest_prepared_certificate C
                             (hm_values (prepared_certificates st1)) (row_view r) max_quorum_seq
                             best_digest (quorum_size cfg) (master_public_key cfg) of
                        None \<Rightarrow> None
                      | Some cert \<Rightarrow>
                          recover_new_view C cfg (row_view r) supporters (Some cert) st1)
                   else recover_new_view C cfg (row_view r) supporters None st1))
           else Some st1)"

definition recover_checkpoint ::
  "'g2 pbft_config \<Rightarrow> 'g1 wal_row \<Rightarrow> 'g1 pbft_core \<Rightarrow> 'g1 pbft_core option" where
  "recover_checkpoint cfg r st =
     (let supporters = fmupd (row_sender_id r) (row_signature r)
                         (hm_entry (checkpoint_votes st) (row_key r));
          st1 = st\<lparr>checkpoint_votes := fmupd (row_key r) supporters (checkpoint_votes st)\<rparr>
      in if unat (quorum_size cfg) \<le> hm_len supporters then
           let st2 = (if last_stable_checkpoint st1 < row_seq r
                      then st1\<lparr>last_stable_checkpoint := row_seq r\<rparr> else st1)
           in Some (st2\<lparr>current_view := max (current_view st2) (row_view r)\<rparr>)
         else Some st1)"

text \<open>The match on the phase byte.\<close>

definition recover_phase ::
  "('s::field, 'g1::ab_group_add, 'g2, 'gt) bls \<Rightarrow> 'g2 pbft_config \<Rightarrow> 'g1 wal_row \<Rightarrow>
    'g1 pbft_core \<Rightarrow> 'g1 pbft_core option" where
  "recover_phase C cfg r st =
     (case phase_of_u8 (row_phase r) of
        None \<Rightarrow> None
      | Some PrePrepare \<Rightarrow>
          Some (st\<lparr>pre_prepared_proposals := finsert (row_key r) (pre_prepared_proposals st)\<rparr>)
      | Some Prepare \<Rightarrow> recover_prepare C cfg r st
      | Some Commit \<Rightarrow> recover_commit C cfg r st
      | Some ViewChange \<Rightarrow> recover_view_change C cfg r st
      | Some Checkpoint \<Rightarrow> recover_checkpoint cfg r st)"

definition recover_core ::
  "('s::field, 'g1::ab_group_add, 'g2, 'gt) bls \<Rightarrow> 'g2 pbft_config \<Rightarrow> 'g1 wal_row \<Rightarrow>
    'g1 pbft_core \<Rightarrow> 'g1 pbft_core option" where
  "recover_core C cfg r st =
     (if 4 < row_phase r \<or> row_sender_id r |\<notin>| registered_nodes cfg then None
      else case fmlookup (public_keys cfg) (row_sender_id r) of
        None \<Rightarrow> None
      | Some sender_pk \<Rightarrow>
          if \<not> verify_bls_signature C
                 (canonical_msg (row_phase r) (row_view r) (row_seq r) (row_digest r))
                 (row_signature r) sender_pk
          then None
          else if row_phase r = 0 \<and>
                  (row_sender_id r \<noteq> get_expected_leader cfg (row_view r) \<or>
                   fBex (pre_prepared_proposals st) (\<lambda>(old_view, old_seq, old_digest).
                     old_view = row_view r \<and> old_seq = row_seq r \<and> old_digest \<noteq> row_digest r))
          then None
          else
            let st1 = (if row_phase r \<le> 2 \<and> current_view st < row_view r
                       then st\<lparr>current_view := row_view r\<rparr> else st);
                st2 = (if highest_seq st1 < row_seq r
                       then st1\<lparr>highest_seq := row_seq r\<rparr> else st1)
            in recover_phase C cfg r st2)"

definition recover_row ::
  "('s::field, 'g1::ab_group_add, 'g2, 'gt) bls \<Rightarrow> 'g2 pbft_config \<Rightarrow> 'g1 wal_row \<Rightarrow>
    'g1 recovery \<Rightarrow> 'g1 recovery" where
  "recover_row C cfg r rc =
     (if rc_error rc then rc
      else case recover_core C cfg r (rc_core rc) of
        None \<Rightarrow> rc\<lparr>rc_error := True\<rparr>
      | Some st \<Rightarrow> rc\<lparr>rc_core := st\<rparr>)"

section \<open>Construction\<close>

text \<open>The log file as the constructor finds it, and the outcomes of its system calls.\<close>

record recovery_io =
  o_open :: bool
  o_reopen :: bool
  o_reads :: "read_event list"
  o_disk :: bytes

definition new_with_wal_path ::
  "('s::field, 'g1::ab_group_add, 'g2, 'gt) bls \<Rightarrow> recovery_io \<Rightarrow> usize \<Rightarrow> (u32, 'g2) fmap \<Rightarrow>
    'g2 \<Rightarrow> (pbft_error, ('g1, 'g2) pbft_state) result" where
  "new_with_wal_path C io n keys mpk =
     (case make_config n keys mpk of
        Err e \<Rightarrow> Err e
      | Ok cfg \<Rightarrow>
          if \<not> o_open io then Err WAL_ERROR
          else if \<not> o_reopen io then Err WAL_REPLAY_ERROR
          else case replay_log C (recover_row C cfg) (o_reads io) (o_disk io)
                      \<lparr>rc_core = empty_core, rc_error = False\<rparr> of
            (Err _, _) \<Rightarrow> Err WAL_REPLAY_ERROR
          | (Ok _, rc) \<Rightarrow>
              if rc_error rc then Err WAL_REPLAY_ERROR
              else
                let core = (if 0 < last_stable_checkpoint (rc_core rc)
                            then retain_after (last_stable_checkpoint (rc_core rc)) (rc_core rc)
                            else rc_core rc)
                in Ok \<lparr>st_config = cfg, st_core = core, st_wal = wal_open (o_disk io),
                       wal_failed = False\<rparr>)"

section \<open>The configuration\<close>

lemma register_loop_Ok:
  "register_loop keys ids R = Ok R' \<longleftrightarrow>
     (\<forall>i\<in>set ids. hm_contains keys i) \<and> R' = R |\<union>| fset_of_list ids"
  by (induction ids arbitrary: R) auto

lemma register_loop_Err: "register_loop keys ids R = Err e \<Longrightarrow> e = REGISTRY_VIOLATION"
  by (induction ids arbitrary: R) (auto split: if_splits)

text \<open>What the topology check ensures. Under wrap-around it also lets zero nodes pass.\<close>

definition topology_ok :: "'g2 pbft_config \<Rightarrow> bool" where
  "topology_ok cfg \<longleftrightarrow>
     unat (total_nodes cfg) = 3 * unat (byz_f cfg) + 1 \<and>
     unat (quorum_size cfg) = 2 * unat (byz_f cfg) + 1 \<and>
     fset (registered_nodes cfg) \<subseteq> {i. unat i < unat (total_nodes cfg)}"

lemma topology_words:
  fixes n :: usize
  assumes "n \<noteq> 0" "n = 3 * ((n - 1) div 3) + 1"
  shows "unat n = 3 * unat ((n - 1) div 3) + 1"
    and "unat (2 * ((n - 1) div 3) + 1) = 2 * unat ((n - 1) div 3) + 1"
proof -
  have n: "0 < unat n" using assms(1) by (simp add: unat_gt_0)
  have "unat (n - 1) = unat n - 1" using assms(1) by (simp add: unat_minus_one)
  then have f: "unat ((n - 1) div 3) = (unat n - 1) div 3" by (simp add: unat_div)
  have "unat n < 2 ^ 64" using unsigned_less [of n] by simp
  then have "3 * unat ((n - 1) div 3) + 1 < 2 ^ 64"
    unfolding f using times_div_less_eq_dividend [of 3 "unat n - 1"] n by linarith
  then have "unat (3 * ((n - 1) div 3) + 1 :: usize) = 3 * unat ((n - 1) div 3) + 1"
    and "unat (2 * ((n - 1) div 3) + 1 :: usize) = 2 * unat ((n - 1) div 3) + 1"
    by (simp_all add: unat_word_ariths)
  then show "unat n = 3 * unat ((n - 1) div 3) + 1"
    and "unat (2 * ((n - 1) div 3) + 1) = 2 * unat ((n - 1) div 3) + 1"
    using assms(2) by simp_all
qed

lemma make_config_Ok:
  assumes "make_config n keys mpk = Ok cfg"
  shows "config_ok cfg" "n \<noteq> 0 \<Longrightarrow> topology_ok cfg"
    "total_nodes cfg = n" "public_keys cfg = keys" "master_public_key cfg = mpk"
    "i |\<in>| registered_nodes cfg \<longleftrightarrow> unat i < unat (ucast n :: u32)"
proof -
  let ?f = "(n - 1) div 3" and ?ids = "map word_of_nat [0..<unat (ucast n :: u32)] :: u32 list"
  obtain R where R: "register_loop keys ?ids {||} = Ok R" and n: "n = 3 * ?f + 1"
    and cfg: "cfg = \<lparr>total_nodes = n, byz_f = ?f, quorum_size = 2 * ?f + 1,
      registered_nodes = R, public_keys = keys, master_public_key = mpk\<rparr>"
    using assms by (auto simp: make_config_def Let_def split: if_splits sum.splits)
  show fields: "total_nodes cfg = n" "public_keys cfg = keys" "master_public_key cfg = mpk"
    by (simp_all add: cfg)
  have ids: "i \<in> set ?ids \<longleftrightarrow> unat i < unat (ucast n :: u32)" for i :: u32
  proof
    assume "unat i < unat (ucast n :: u32)"
    then show "i \<in> set ?ids" by (auto intro: image_eqI [of _ _ "unat i"])
  next
    assume "i \<in> set ?ids"
    then obtain k where k: "i = word_of_nat k" "k < unat (ucast n :: u32)" by auto
    have "unat (ucast n :: u32) < 2 ^ 32" using unsigned_less [of "ucast n :: u32"] by simp
    then have "k < 2 ^ 32" using k by linarith
    then show "unat i < unat (ucast n :: u32)" using k by (simp add: unat_of_nat)
  qed
  have keys: "\<forall>i\<in>set ?ids. hm_contains keys i" and reg: "R = fset_of_list ?ids"
    using R by (simp_all add: register_loop_Ok)
  have mem: "i |\<in>| registered_nodes cfg \<longleftrightarrow> i \<in> set ?ids" for i
    unfolding cfg reg by (simp only: pbft_config.select_convs fset_of_list_elem)
  show "i |\<in>| registered_nodes cfg \<longleftrightarrow> unat i < unat (ucast n :: u32)"
    unfolding mem ids ..
  show "topology_ok cfg" if "n \<noteq> 0"
  proof -
    have "unat i < unat n" if "unat i < unat (ucast n :: u32)" for i :: u32
      using that by (simp add: unsigned_ucast_eq take_bit_nat_def)
    then show ?thesis
      using topology_words [OF \<open>n \<noteq> 0\<close> n] mem ids
      by (auto simp: topology_ok_def cfg)
  qed
  have "0 < unat (2 * ?f + 1)"
  proof (cases "n = 0")
    case True
    then show ?thesis by simp
  next
    case False
    then show ?thesis using topology_words(2) [OF False n] by simp
  qed
  then show "config_ok cfg"
    using keys mem unfolding config_ok_def fields
    by (metis cfg hm_contains_def pbft_config.select_convs(3))
qed

section \<open>What an accepted row does\<close>

text \<open>The views and sequences a row raises before its phase is handled.\<close>

definition row_raise :: "'g1 wal_row \<Rightarrow> 'g1 pbft_core \<Rightarrow> 'g1 pbft_core" where
  "row_raise r st = raise_to
     (if row_phase r \<le> 2 then max (current_view st) (row_view r) else current_view st)
     (max (highest_seq st) (row_seq r)) st"

text \<open>The guards before a row is applied.\<close>

definition row_auth ::
  "('s, 'g1, 'g2, 'gt) bls \<Rightarrow> 'g2 pbft_config \<Rightarrow> 'g1 wal_row \<Rightarrow> bool" where
  "row_auth C cfg r \<longleftrightarrow> vote_auth C cfg
     (canonical_msg (row_phase r) (row_view r) (row_seq r) (row_digest r))
     (row_sender_id r) (row_signature r)"

lemma row_raise_eq:
  "(let st1 = (if row_phase r \<le> 2 \<and> current_view st < row_view r
               then st\<lparr>current_view := row_view r\<rparr> else st)
    in if highest_seq st1 < row_seq r then st1\<lparr>highest_seq := row_seq r\<rparr> else st1) =
   row_raise r st"
  by (auto simp: row_raise_def raise_to_def max_def Let_def not_less)

lemma recover_core_eq:
  "recover_core C cfg r st =
     (if \<not> row_auth C cfg r then None
      else case phase_of_u8 (row_phase r) of
        None \<Rightarrow> None
      | Some PrePrepare \<Rightarrow>
          (if row_sender_id r \<noteq> get_expected_leader cfg (row_view r) \<or>
              fBex (pre_prepared_proposals st) (\<lambda>(old_view, old_seq, old_digest).
                old_view = row_view r \<and> old_seq = row_seq r \<and> old_digest \<noteq> row_digest r)
           then None else Some (record_proposal (row_key r) (row_raise r st)))
      | Some Prepare \<Rightarrow> recover_prepare C cfg r (row_raise r st)
      | Some Commit \<Rightarrow> recover_commit C cfg r (row_raise r st)
      | Some ViewChange \<Rightarrow> recover_view_change C cfg r (row_raise r st)
      | Some Checkpoint \<Rightarrow> recover_checkpoint cfg r (row_raise r st))"
proof (cases "phase_of_u8 (row_phase r)")
  case None
  then have "4 < row_phase r" by (simp add: phase_of_u8_None)
  then show ?thesis using None by (simp add: recover_core_def)
next
  case (Some p)
  then have p: "row_phase r = phase_u8 p" by (simp add: phase_of_u8_Some)
  have le: "\<not> 4 < row_phase r" using Some phase_of_u8_None by (metis option.distinct(1))
  have zero: "row_phase r = 0 \<longleftrightarrow> p = PrePrepare" using p phase_u8_inject [of p PrePrepare] by simp
  have guard: "(if \<not> row_auth C cfg r then None else X) =
    (if 4 < row_phase r \<or> row_sender_id r |\<notin>| registered_nodes cfg then None
     else case fmlookup (public_keys cfg) (row_sender_id r) of
       None \<Rightarrow> None
     | Some sender_pk \<Rightarrow>
         if \<not> verify_bls_signature C
                (canonical_msg (row_phase r) (row_view r) (row_seq r) (row_digest r))
                (row_signature r) sender_pk then None else X)"
    for X
    using le by (auto simp: row_auth_def vote_auth_def split: option.split)
  have "recover_core C cfg r st =
    (if \<not> row_auth C cfg r then None
     else if row_phase r = 0 \<and>
                 (row_sender_id r \<noteq> get_expected_leader cfg (row_view r) \<or>
                  fBex (pre_prepared_proposals st) (\<lambda>(old_view, old_seq, old_digest).
                    old_view = row_view r \<and> old_seq = row_seq r \<and> old_digest \<noteq> row_digest r))
     then None
     else recover_phase C cfg r (row_raise r st))"
    unfolding guard recover_core_def row_raise_eq [symmetric] Let_def by (rule refl)
  then show ?thesis
    using Some zero by (cases p) (simp_all add: recover_phase_def record_proposal_def)
qed

lemma recover_prepare_Some:
  assumes "recover_prepare C cfg r st = Some st'"
  shows "row_key r |\<in>| pre_prepared_proposals st"
    "st' = record_prepare (unat (quorum_size cfg)) (row_key r) (row_sender_id r)
       (row_signature r) st"
    "let sigs = fmupd (row_sender_id r) (row_signature r)
        (hm_entry (prepare_votes st) (row_key r)) in
      unat (quorum_size cfg) \<le> hm_len sigs \<longrightarrow>
      pc_verify C (quorum_size cfg) (master_public_key cfg) (mk_prepared (row_key r) sigs)"
  using assms
  by (auto simp: recover_prepare_def record_prepare_def Let_def mk_prepared_def row_key_def
      simp del: hm_len_upd split: if_splits)

lemma recover_commit_Some:
  assumes "recover_commit C cfg r st = Some st'"
  shows "row_key r |\<in>| pre_prepared_proposals st"
    "has_certificate C cfg (\<lambda>view. view = row_view r) (row_seq r) (row_digest r) st"
    "st' = record_commit (unat (quorum_size cfg)) (row_key r) (row_sender_id r)
       (row_signature r) st"
    "let sigs = fmupd (row_sender_id r) (row_signature r)
        (hm_entry (commit_votes st) (row_key r)) in
      unat (quorum_size cfg) \<le> hm_len sigs \<longrightarrow>
      cc_verify C (quorum_size cfg) (master_public_key cfg) (mk_commit (row_key r) sigs)"
  using assms
  by (auto simp: recover_commit_def record_commit_def Let_def mk_commit_def row_key_def
      simp del: hm_len_upd split: if_splits)

lemma recover_checkpoint_Some:
  assumes "recover_checkpoint cfg r st = Some st'"
  defines "st1 \<equiv> record_checkpoint (row_key r) (row_sender_id r) (row_signature r) st"
  shows "st' = (if unat (quorum_size cfg) \<le> hm_len (fmupd (row_sender_id r) (row_signature r)
            (hm_entry (checkpoint_votes st) (row_key r)))
    then raise_to (max (current_view st) (row_view r)) (highest_seq st)
           (st1\<lparr>last_stable_checkpoint := max (last_stable_checkpoint st) (row_seq r)\<rparr>)
    else st1)"
  using assms(1)
  by (auto simp: recover_checkpoint_def st1_def record_checkpoint_def Let_def raise_to_def max_def
      simp del: hm_len_upd split: if_splits)

text \<open>The message a row records.\<close>

definition row_msg :: "phase \<Rightarrow> 'g1 wal_row \<Rightarrow> 'g1 pbft_message" where
  "row_msg p r = \<lparr>pm_phase = p, pm_view = row_view r, pm_seq = row_seq r,
     pm_digest = row_digest r, pm_sender_id = row_sender_id r, pm_signature = row_signature r\<rparr>"

definition record_recovered_view ::
  "('s::field, 'g1::ab_group_add, 'g2, 'gt) bls \<Rightarrow> 'g2 pbft_config \<Rightarrow> 'g1 pbft_message \<Rightarrow>
    'g1 pbft_core \<Rightarrow> 'g1 pbft_core" where
  "record_recovered_view C cfg msg st =
     record_view_change (pm_view msg) (pm_sender_id msg) (vc_vote_of msg)
       (st\<lparr>current_view := max (current_view st) (pm_view msg),
          new_view_certificates :=
            fmupd (pm_view msg) (new_view_of C cfg msg st) (new_view_certificates st)\<rparr>)"

lemma recover_new_view_eq:
  "recover_new_view C cfg (pm_view msg) (supporters_of msg st) (bound_cert_of C cfg msg st)
     (record_view_change (pm_view msg) (pm_sender_id msg) (vc_vote_of msg) st) =
   (if nv_verify C (quorum_size cfg) (master_public_key cfg) (public_keys cfg)
         (new_view_of C cfg msg st)
    then Some (record_recovered_view C cfg msg st) else None)"
  by (simp add: recover_new_view_def new_view_of_def record_recovered_view_def
      record_view_change_def Let_def)

text \<open>The verification of the new-view certificate subsumes the two early returns before it.\<close>

lemma new_view_of_checks:
  assumes "nv_verify C q pk keys (new_view_of C cfg msg st)"
  shows "\<exists>m d. highest_view_change_slot (supporters_of msg st) = Some (m, d) \<and>
    (0 < m \<longrightarrow> bound_cert_of C cfg msg st \<noteq> None)"
  using assms
  by (auto simp: nv_verify_iff new_view_of_def split: option.splits)

lemma selection_cases:
  "B = (if c then sel else None) \<Longrightarrow>
    (if c then (case sel of None \<Rightarrow> None | Some cert \<Rightarrow> R (Some cert)) else R None) =
    (if c \<and> B = None then None else R B)"
  by (cases sel) auto

lemma recover_view_change_eq:
  assumes "msg = row_msg ViewChange r"
  shows "recover_view_change C cfg r st =
    (if 0 < row_seq r \<and>
        \<not> has_certificate C cfg (\<lambda>view. view < row_view r) (row_seq r) (row_digest r) st
     then None
     else if unat (quorum_size cfg) \<le> hm_len (supporters_of msg st)
     then (if nv_verify C (quorum_size cfg) (master_public_key cfg) (public_keys cfg)
               (new_view_of C cfg msg st)
           then Some (record_recovered_view C cfg msg st) else None)
     else Some (record_view_change (pm_view msg) (pm_sender_id msg) (vc_vote_of msg) st))"
proof -
  have m: "row_view r = pm_view msg" "row_sender_id r = pm_sender_id msg" "row_seq r = pm_seq msg"
    "row_digest r = pm_digest msg" "row_signature r = pm_signature msg"
    by (simp_all add: assms row_msg_def)
  let ?st1 = "record_view_change (pm_view msg) (pm_sender_id msg) (vc_vote_of msg) st"
  have sup: "fmupd (pm_sender_id msg) (pm_seq msg, pm_digest msg, pm_signature msg)
      (hm_entry (view_change_votes st) (pm_view msg)) = supporters_of msg st"
    and st1: "st\<lparr>view_change_votes := fmupd (pm_view msg) (supporters_of msg st)
      (view_change_votes st)\<rparr> = ?st1"
    and pcs: "prepared_certificates ?st1 = prepared_certificates st"
    by (simp_all add: supporters_of_def vc_vote_of_def record_view_change_def)
  note run = recover_view_change_def [of C cfg r st, unfolded Let_def m sup st1 pcs]
  have "recover_view_change C cfg r st =
    (if 0 < pm_seq msg \<and>
        \<not> has_certificate C cfg (\<lambda>view. view < pm_view msg) (pm_seq msg) (pm_digest msg) st
     then None
     else if unat (quorum_size cfg) \<le> hm_len (supporters_of msg st)
     then (case highest_view_change_slot (supporters_of msg st) of
        None \<Rightarrow> None
      | Some (mx, d) \<Rightarrow>
          (if 0 < mx \<and> bound_cert_of C cfg msg st = None then None
           else recover_new_view C cfg (pm_view msg) (supporters_of msg st)
                  (bound_cert_of C cfg msg st) ?st1))
     else Some ?st1)"
  proof (cases "highest_view_change_slot (supporters_of msg st)")
    case None
    then show ?thesis unfolding run by simp
  next
    case (Some slot)
    obtain mx d where slot: "slot = (mx, d)" by (cases slot)
    have "bound_cert_of C cfg msg st = (if 0 < mx
        then select_highest_prepared_certificate C (hm_values (prepared_certificates st))
               (pm_view msg) mx d (quorum_size cfg) (master_public_key cfg)
        else None)"
      unfolding bound_cert_of_def Some slot by (simp only: option.case prod.case)
    from selection_cases [OF this, where R = "\<lambda>b.
        recover_new_view C cfg (pm_view msg) (supporters_of msg st) b ?st1"] show ?thesis
      unfolding run Some slot option.case prod.case by (simp only:)
  qed
  note flow = this
  have checks: "(case highest_view_change_slot (supporters_of msg st) of
        None \<Rightarrow> None
      | Some (mx, d) \<Rightarrow>
          (if 0 < mx \<and> bound_cert_of C cfg msg st = None then None
           else if nv_verify C (quorum_size cfg) (master_public_key cfg) (public_keys cfg)
               (new_view_of C cfg msg st) then Some X else None)) =
      (if nv_verify C (quorum_size cfg) (master_public_key cfg) (public_keys cfg)
         (new_view_of C cfg msg st) then Some X else None)" for X
  proof (cases "nv_verify C (quorum_size cfg) (master_public_key cfg) (public_keys cfg)
      (new_view_of C cfg msg st)")
    case True
    then obtain mx d where "highest_view_change_slot (supporters_of msg st) = Some (mx, d)"
      "0 < mx \<longrightarrow> bound_cert_of C cfg msg st \<noteq> None"
      using new_view_of_checks [OF True] by (elim exE conjE)
    then show ?thesis using True by auto
  next
    case False
    then show ?thesis by (simp split: option.split)
  qed
  show ?thesis unfolding flow recover_new_view_eq checks m by (rule refl)
qed

lemma recover_view_change_Some:
  assumes "recover_view_change C cfg r st = Some st'"
  defines "msg \<equiv> row_msg ViewChange r"
  shows "if unat (quorum_size cfg) \<le> hm_len (supporters_of msg st)
     then nv_verify C (quorum_size cfg) (master_public_key cfg) (public_keys cfg)
         (new_view_of C cfg msg st) \<and> st' = record_recovered_view C cfg msg st
     else st' = record_view_change (pm_view msg) (pm_sender_id msg) (vc_vote_of msg) st"
  using assms(1) recover_view_change_eq [of msg r C cfg st] by (auto simp: msg_def split: if_splits)

lemma recover_core_inv [inv_intros]:
  assumes inv: "core_inv C cfg st" and cfg: "config_ok cfg"
    and ok: "recover_core C cfg r st = Some st'"
  shows "core_inv C cfg st'"
proof -
  have auth: "row_auth C cfg r" using ok by (auto simp: recover_core_eq split: if_splits)
  have inv1: "core_inv C cfg (row_raise r st)"
    unfolding row_raise_def using inv by (rule raise_to_inv) simp_all
  obtain p where p: "phase_of_u8 (row_phase r) = Some p"
    using ok by (auto simp: recover_core_eq split: if_splits option.splits)
  have a: "vote_auth C cfg (canonical_msg (phase_u8 p) (row_view r) (row_seq r) (row_digest r))
      (row_sender_id r) (row_signature r)"
    using auth p by (simp add: row_auth_def phase_of_u8_Some)
  show ?thesis
  proof (cases p)
    case PrePrepare
    then have "\<not> fBex (pre_prepared_proposals st) (\<lambda>(v', s', d').
        v' = row_view r \<and> s' = row_seq r \<and> d' \<noteq> row_digest r)"
      and st': "st' = record_proposal (row_key r) (row_raise r st)"
      using ok auth p by (auto simp: recover_core_eq split: if_splits)
    moreover have "row_phase r \<le> 2" using p PrePrepare by (simp add: phase_of_u8_Some)
    ultimately show ?thesis
      unfolding st' row_key_def by (intro record_proposal_inv [OF inv1])
        (simp_all add: row_raise_def raise_to_def)
  next
    case Prepare
    then have *: "recover_prepare C cfg r (row_raise r st) = Some st'"
      using ok auth p by (simp add: recover_core_eq)
    note R = recover_prepare_Some [OF *, unfolded row_key_def]
    show ?thesis
      unfolding R(2) by (rule record_prepare_inv [OF inv1 cfg R(1) _ R(3)]) (use a Prepare in simp)
  next
    case Commit
    then have *: "recover_commit C cfg r (row_raise r st) = Some st'"
      using ok auth p by (simp add: recover_core_eq)
    note R = recover_commit_Some [OF *, unfolded row_key_def]
    have "unat (quorum_size cfg) \<le>
        hm_len (hm_entry (prepare_votes (row_raise r st)) (row_view r, row_seq r, row_digest r))"
      using R(2) has_certificate_iff [OF inv1] by auto
    then show ?thesis
      unfolding R(3) by (rule record_commit_inv [OF inv1 cfg R(1) _ _ R(4)]) (use a Commit in simp)
  next
    case ViewChange
    then have *: "recover_view_change C cfg r (row_raise r st) = Some st'"
      using ok auth p by (simp add: recover_core_eq)
    have a: "vote_auth C cfg (canonical_msg (phase_u8 ViewChange) (row_view r) (row_seq r)
        (row_digest r)) (row_sender_id r) (row_signature r)" using a ViewChange by simp
    note R = recover_view_change_Some [OF *]
    show ?thesis
    proof (cases "unat (quorum_size cfg) \<le>
        hm_len (supporters_of (row_msg ViewChange r) (row_raise r st))")
      case True
      then show ?thesis
        using R record_new_view_inv [OF inv1 a]
        by (simp add: record_recovered_view_def new_view_of_def supporters_of_def vc_vote_of_def
            row_msg_def del: hm_len_upd)
    next
      case False
      then show ?thesis
        using R record_view_change_inv [OF inv1 a]
        by (simp add: supporters_of_def vc_vote_of_def row_msg_def not_le del: hm_len_upd)
    qed
  next
    case Checkpoint
    then have *: "recover_checkpoint cfg r (row_raise r st) = Some st'"
      using ok auth p by (simp add: recover_core_eq)
    have a: "vote_auth C cfg (canonical_msg (phase_u8 Checkpoint) (row_view r) (row_seq r)
        (row_digest r)) (row_sender_id r) (row_signature r)" using a Checkpoint by simp
    show ?thesis
      unfolding recover_checkpoint_Some [OF *] row_key_def
      by (auto intro!: raise_to_inv record_checkpoint_stable_inv [OF inv1 a]
          record_checkpoint_inv [OF inv1 a] simp del: hm_len_upd)
        (simp_all add: record_checkpoint_def)
  qed
qed

section \<open>The constructed replica\<close>

text \<open>Replay keeps what every row keeps, whatever the file holds and however it is read.\<close>

lemma replay_log_keeps:
  assumes step: "\<And>r st. P st \<Longrightarrow> P (h r st)"
  shows "P st \<Longrightarrow> P (snd (replay_log C h es inp st))"
proof (induction "length inp" arbitrary: es inp st rule: less_induct)
  case less
  obtain res rest es' where rr: "read_record es inp [] = (res, rest, es')" by (metis prod_cases3)
  show ?case
  proof (cases "\<exists>buf r. res = Ok (Some buf) \<and> row_from_bytes C buf = Ok r")
    case True
    then obtain buf r where b: "res = Ok (Some buf)" "row_from_bytes C buf = Ok r" by blast
    have "length rest < length inp"
      using read_record_length [of es inp "[]" buf rest es'] rr b by (simp add: RECORD_LEN_def)
    from less.hyps [OF this step [OF less.prems]] show ?thesis
      using rr b by (simp add: replay_log.simps [of C h es])
  next
    case False
    then show ?thesis
      using rr less.prems
      by (auto simp: replay_log.simps [of C h es] split: sum.splits option.splits)
  qed
qed

definition recovery_inv ::
  "('s::field, 'g1::ab_group_add, 'g2, 'gt) bls \<times> 'g2 pbft_config \<Rightarrow> 'g1 recovery \<Rightarrow> bool" where
  "recovery_inv = (\<lambda>(C, cfg) rc. config_ok cfg \<and> core_inv C cfg (rc_core rc))"

definition recovery_step ::
  "('s::field, 'g1::ab_group_add, 'g2, 'gt) bls \<times> 'g2 pbft_config \<Rightarrow> 'g1 wal_row \<Rightarrow>
    'g1 recovery \<Rightarrow> 'g1 recovery" where
  "recovery_step = (\<lambda>(C, cfg). recover_row C cfg)"

interpretation recovery: step_system recovery_step recovery_inv
  by unfold_locales
    (auto simp: recovery_step_def recovery_inv_def recover_row_def intro: recover_core_inv
      split: option.split)

lemma new_with_wal_path_Ok:
  assumes "new_with_wal_path C io n keys mpk = Ok st"
  obtains cfg core where "make_config n keys mpk = Ok cfg" "st_config st = cfg"
    "replay_log C (recover_row C cfg) (o_reads io) (o_disk io)
       \<lparr>rc_core = empty_core, rc_error = False\<rparr> = (Ok (), \<lparr>rc_core = core, rc_error = False\<rparr>)"
    "st_core st = (if 0 < last_stable_checkpoint core
       then retain_after (last_stable_checkpoint core) core else core)"
    "st_wal st = wal_open (o_disk io)" "\<not> wal_failed st"
proof -
  obtain cfg where c: "make_config n keys mpk = Ok cfg"
    using assms by (auto simp: new_with_wal_path_def split: sum.splits)
  obtain rc where rc: "replay_log C (recover_row C cfg) (o_reads io) (o_disk io)
      \<lparr>rc_core = empty_core, rc_error = False\<rparr> = (Ok (), rc)" "\<not> rc_error rc"
    and st: "st = \<lparr>st_config = cfg,
      st_core = (if 0 < last_stable_checkpoint (rc_core rc)
        then retain_after (last_stable_checkpoint (rc_core rc)) (rc_core rc) else rc_core rc),
      st_wal = wal_open (o_disk io), wal_failed = False\<rparr>"
    using assms c by (auto simp: new_with_wal_path_def Let_def split: if_splits sum.splits prod.splits)
  show thesis
  proof (rule that [OF c, of "rc_core rc"])
    show "replay_log C (recover_row C cfg) (o_reads io) (o_disk io)
        \<lparr>rc_core = empty_core, rc_error = False\<rparr> =
      (Ok (), \<lparr>rc_core = rc_core rc, rc_error = False\<rparr>)"
      using rc by (cases rc) simp
  qed (simp_all add: st)
qed

text \<open>Whatever the disk holds, a replica that starts satisfies the invariant.\<close>

lemma new_with_wal_path_inv [inv_intros]:
  assumes "new_with_wal_path C io n keys mpk = Ok st"
  shows "node_inv C st"
proof -
  obtain cfg core where c: "make_config n keys mpk = Ok cfg" "st_config st = cfg"
    and run: "replay_log C (recover_row C cfg) (o_reads io) (o_disk io)
       \<lparr>rc_core = empty_core, rc_error = False\<rparr> = (Ok (), \<lparr>rc_core = core, rc_error = False\<rparr>)"
    and core: "st_core st = (if 0 < last_stable_checkpoint core
       then retain_after (last_stable_checkpoint core) core else core)"
    using new_with_wal_path_Ok [OF assms] by metis
  have cfg: "config_ok cfg" by (rule make_config_Ok(1) [OF c(1)])
  have "recovery_inv (C, cfg) (snd (replay_log C (recover_row C cfg) (o_reads io) (o_disk io)
      \<lparr>rc_core = empty_core, rc_error = False\<rparr>))"
    by (rule replay_log_keeps)
      (auto simp: recovery_inv_def cfg empty_core_inv
        dest: recovery.step_inv [of "(C, cfg)", unfolded recovery_step_def, simplified])
  then have "core_inv C cfg core" by (simp add: run recovery_inv_def)
  then show ?thesis
    using core cfg c(2) by (simp add: node_inv_def retain_after_inv)
qed

text \<open>The rows one by one, and the fold over them.\<close>

primrec recover_rows ::
  "('s::field, 'g1::ab_group_add, 'g2, 'gt) bls \<Rightarrow> 'g2 pbft_config \<Rightarrow> 'g1 wal_row list \<Rightarrow>
    'g1 pbft_core \<Rightarrow> 'g1 pbft_core option" where
  "recover_rows C cfg [] st = Some st"
| "recover_rows C cfg (r # rs) st =
     Option.bind (recover_core C cfg r st) (recover_rows C cfg rs)"

lemma recover_rows_append:
  "recover_rows C cfg (rs @ rs') st =
    Option.bind (recover_rows C cfg rs st) (recover_rows C cfg rs')"
proof (induction rs arbitrary: st)
  case (Cons r rs)
  then show ?case by (cases "recover_core C cfg r st") simp_all
qed simp

lemma fold_recover_error: "rc_error rc \<Longrightarrow> fold (recover_row C cfg) rs rc = rc"
  by (induction rs) (simp_all add: recover_row_def)

lemma fold_recover_rows:
  "case recover_rows C cfg rs st of
     None \<Rightarrow> rc_error (fold (recover_row C cfg) rs \<lparr>rc_core = st, rc_error = False\<rparr>)
   | Some st' \<Rightarrow> fold (recover_row C cfg) rs \<lparr>rc_core = st, rc_error = False\<rparr> =
       \<lparr>rc_core = st', rc_error = False\<rparr>"
proof (induction rs arbitrary: st)
  case (Cons r rs)
  show ?case
  proof (cases "recover_core C cfg r st")
    case None
    then show ?thesis by (simp add: recover_row_def fold_recover_error)
  next
    case (Some st1)
    then show ?thesis
      using Cons.IH [of st1] by (simp add: recover_row_def split: option.splits)
  qed
qed simp

text \<open>A log of whole rows: construction is the fold, and fails exactly when a row is refused.\<close>

text \<open>Every row of a log that recovers is authentic.\<close>

lemma recover_rows_auth:
  "recover_rows C cfg rs st = Some st' \<Longrightarrow> \<forall>r\<in>set rs. row_auth C cfg r \<and> row_phase r \<le> 4"
  by (induction rs arbitrary: st)
    (auto simp: recover_core_def bind_eq_Some_conv row_auth_def vote_auth_def
      split: if_splits option.splits)

lemma new_with_wal_path_stored:
  assumes rows: "\<forall>r\<in>set rs. storable C r"
    and io: "o_open io" "o_reopen io" "no_fault (o_reads io)" "o_disk io = encode_rows C rs"
    and cfg: "make_config n keys mpk = Ok cfg"
  shows "new_with_wal_path C io n keys mpk =
    (case recover_rows C cfg rs empty_core of
       None \<Rightarrow> Err WAL_REPLAY_ERROR
     | Some core \<Rightarrow> Ok \<lparr>st_config = cfg,
         st_core = (if 0 < last_stable_checkpoint core
           then retain_after (last_stable_checkpoint core) core else core),
         st_wal = wal_open (encode_rows C rs), wal_failed = False\<rparr>)"
  using replay_log_stored [OF rows io(3), of "recover_row C cfg"
      "\<lparr>rc_core = empty_core, rc_error = False\<rparr>"]
    fold_recover_rows [of C cfg rs empty_core] io cfg
  by (cases "recover_rows C cfg rs empty_core") (simp_all add: new_with_wal_path_def Let_def)

text \<open>A first row that is refused, such as a row signed under keys the constructor is not given, fails
  the construction, whatever follows it.\<close>

lemma foreign_first_row:
  assumes r: "storable C r" and refused: "recover_core C cfg r empty_core = None"
    and cfg: "make_config n keys mpk = Ok cfg"
    and io: "o_open io" "o_reopen io" "no_fault (o_reads io)" "o_disk io = row_to_bytes C r @ rest"
  shows "new_with_wal_path C io n keys mpk = Err WAL_REPLAY_ERROR"
proof -
  let ?h = "recover_row C cfg" and ?rc = "\<lparr>rc_core = empty_core, rc_error = False\<rparr>"
  obtain es' where "replay_log C ?h (o_reads io) (row_to_bytes C r @ rest) ?rc = replay_log C ?h es' rest (?h r ?rc)"
    by (rule replay_log_row [OF r io(3)])
  moreover have "rc_error (snd (replay_log C ?h es' rest (?h r ?rc)))"
    by (rule replay_log_keeps) (simp_all add: recover_row_def refused)
  ultimately show ?thesis
    using io cfg by (auto simp: new_with_wal_path_def split: sum.splits prod.splits)
qed

lemmas new_with_wal_path_rows = new_with_wal_path_stored [OF storable_rows]

end
