(* ===== verification/Pbft_Durability.thy ===== *)
theory Pbft_Durability
  imports Pbft_Recovery
begin

text \<open>
  Refinement between the live handler and recovery: a row is the message it records, and replaying
  the rows a replica has acknowledged leads to the core the replica had, up to \<open>highest_seq\<close>,
  which recovery raises on every row. The relation is \<open>same_core\<close>; the lemmas go phase by phase
  and then along a history of messages, until a checkpoint is stable and the log is compacted.
\<close>

definition same_core :: "'g1 pbft_core \<Rightarrow> 'g1 pbft_core \<Rightarrow> bool" where
  "same_core st rc \<longleftrightarrow> (\<exists>h. rc = st\<lparr>highest_seq := h\<rparr>)"

lemma same_core_refl [simp]: "same_core st st"
  by (auto simp: same_core_def intro: exI [of _ "highest_seq st"])

section \<open>One message\<close>

lemma msg_row_fields [simp]:
  "row_view (msg_row msg) = pm_view msg" "row_seq (msg_row msg) = pm_seq msg"
  "row_phase (msg_row msg) = phase_u8 (pm_phase msg)"
  "row_sender_id (msg_row msg) = pm_sender_id msg" "row_digest (msg_row msg) = pm_digest msg"
  "row_signature (msg_row msg) = pm_signature msg" "row_key (msg_row msg) = proposal_key msg"
  by (simp_all add: msg_row_def row_key_def proposal_key_def)

lemma row_msg_msg_row: "pm_phase msg = p \<Longrightarrow> row_msg p (msg_row msg) = msg"
  by (simp add: row_msg_def)

lemma msg_row_wf [simp]: "row_wf (msg_row msg) \<longleftrightarrow> pm_wf msg"
  by (simp add: row_wf_def pm_wf_def)

lemma row_auth_msg:
  "row_auth C cfg (msg_row msg) \<longleftrightarrow>
    vote_auth C cfg (pm_canonical msg) (pm_sender_id msg) (pm_signature msg)"
  by (simp add: row_auth_def pm_canonical_def)

text \<open>A phase handler that accepts, and the row of the message, on cores that differ in
  \<open>highest_seq\<close> only.\<close>

lemma recover_prepare_sim:
  assumes "on_prepare C cfg msg st = (Ok r, st')"
  shows "recover_prepare C cfg (msg_row msg) (st\<lparr>highest_seq := h\<rparr>) =
    Some (st'\<lparr>highest_seq := h\<rparr>)"
  using assms
  by (auto simp: on_prepare_def recover_prepare_def Let_def simp del: hm_len_upd split: if_splits)

lemma recover_commit_sim:
  assumes "on_commit C cfg msg st = (Ok r, st')"
  shows "recover_commit C cfg (msg_row msg) (st\<lparr>highest_seq := h\<rparr>) =
    Some (st'\<lparr>highest_seq := h\<rparr>)"
  using assms
  by (auto simp: on_commit_def recover_commit_def has_certificate_def Let_def
      simp del: hm_len_upd split: if_splits)

lemma recover_checkpoint_sim:
  assumes "on_checkpoint cfg msg st = (Ok r, st')" "r \<noteq> CHECKPOINT_STABILIZED"
  shows "recover_checkpoint cfg (msg_row msg) (st\<lparr>highest_seq := h\<rparr>) =
    Some (st'\<lparr>highest_seq := h\<rparr>)"
  using assms
  by (auto simp: on_checkpoint_def recover_checkpoint_def Let_def
      simp del: hm_len_upd split: if_splits)

text \<open>The live check accepts a certificate of any view, recovery only of an earlier view than the
  target. Under the invariant the two agree on a message for a later view.\<close>

lemma has_certificate_earlier:
  assumes inv: "core_inv C cfg st" and cfg: "config_ok cfg" and v: "current_view st < v"
  shows "has_certificate C cfg (\<lambda>view. view < v) s d st \<longleftrightarrow>
    has_certificate C cfg (\<lambda>view. True) s d st"
proof -
  have "v' < v" if "unat (quorum_size cfg) \<le> hm_len (hm_entry (prepare_votes st) (v', s, d))" for v'
  proof -
    have "hm_entry (prepare_votes st) (v', s, d) \<noteq> fmempty"
      using that cfg by (auto simp: config_ok_def)
    then have "v' \<le> current_view st"
      using inv unfolding core_inv_parts voted_def by blast
    then show ?thesis using v by simp
  qed
  then show ?thesis using has_certificate_iff [OF inv] by auto
qed

lemma has_certificate_highest_seq [simp]:
  "has_certificate C cfg P s d (st\<lparr>highest_seq := h\<rparr>) = has_certificate C cfg P s d st"
  by (simp add: has_certificate_def)

lemma recover_view_change_sim:
  assumes inv: "core_inv C cfg st" and cfg: "config_ok cfg"
    and ok: "on_view_change C cfg msg st = (Ok r, st')" and ph: "pm_phase msg = ViewChange"
  shows "recover_view_change C cfg (msg_row msg) (st\<lparr>highest_seq := h\<rparr>) =
    Some (st'\<lparr>highest_seq := h\<rparr>)"
proof -
  have v: "current_view st < pm_view msg" using on_view_change_Ok(1) [OF ok] .
  have cert: "\<not> (0 < pm_seq msg \<and>
      \<not> has_certificate C cfg (\<lambda>view. view < pm_view msg) (pm_seq msg) (pm_digest msg) st)"
    using on_view_change_Ok(2) [OF ok] has_certificate_earlier [OF inv cfg v] by auto
  have h: "supporters_of msg (st\<lparr>highest_seq := h\<rparr>) = supporters_of msg st"
    "bound_cert_of C cfg msg (st\<lparr>highest_seq := h\<rparr>) = bound_cert_of C cfg msg st"
    "new_view_of C cfg msg (st\<lparr>highest_seq := h\<rparr>) = new_view_of C cfg msg st"
    by (simp_all add: supporters_of_def bound_cert_of_def new_view_of_def split: option.split)
  show ?thesis
    unfolding recover_view_change_eq [OF row_msg_msg_row [OF ph, symmetric]] h
    using on_view_change_Ok(3) [OF ok] cert v
    by (simp add: record_recovered_view_def record_new_view_def record_view_change_def raise_to_def h
        split: if_splits)
qed

text \<open>What recovery does with the row of an accepted message.\<close>

lemma recover_core_message:
  fixes h0 :: u64
  assumes auth: "vote_auth C cfg (pm_canonical msg) (pm_sender_id msg) (pm_signature msg)"
    and ok: "dispatch C cfg msg st = (Ok r, st')"
  defines "h \<equiv> max h0 (pm_seq msg)"
  shows "recover_core C cfg (msg_row msg) (st\<lparr>highest_seq := h0\<rparr>) =
     (case pm_phase msg of
        PrePrepare \<Rightarrow>
          (if pm_sender_id msg \<noteq> get_expected_leader cfg (pm_view msg) \<or>
              fBex (pre_prepared_proposals st) (\<lambda>(old_view, old_seq, old_digest).
                old_view = pm_view msg \<and> old_seq = pm_seq msg \<and> old_digest \<noteq> pm_digest msg)
           then None else Some (record_proposal (proposal_key msg) (st\<lparr>highest_seq := h\<rparr>)))
      | Prepare \<Rightarrow> recover_prepare C cfg (msg_row msg) (st\<lparr>highest_seq := h\<rparr>)
      | Commit \<Rightarrow> recover_commit C cfg (msg_row msg) (st\<lparr>highest_seq := h\<rparr>)
      | ViewChange \<Rightarrow> recover_view_change C cfg (msg_row msg) (st\<lparr>highest_seq := h\<rparr>)
      | Checkpoint \<Rightarrow> recover_checkpoint cfg (msg_row msg) (st\<lparr>highest_seq := h\<rparr>))"
proof -
  have view: "current_view st = pm_view msg" if "phase_u8 (pm_phase msg) \<le> 2"
    using that ok on_prepare_Ok(1) [of C cfg msg st r st'] on_commit_Ok(1) [of C cfg msg st r st']
    by (cases "pm_phase msg") (auto simp: dispatch_def on_pre_prepare_Ok)
  have raise: "row_raise (msg_row msg) (st\<lparr>highest_seq := h0\<rparr>) = st\<lparr>highest_seq := h\<rparr>"
    using view by (cases "phase_u8 (pm_phase msg) \<le> 2") (simp_all add: row_raise_def raise_to_def h_def)
  show ?thesis
    unfolding recover_core_eq raise using auth by (cases "pm_phase msg") (simp_all add: row_auth_msg)
qed

lemma dispatch_sim:
  assumes inv: "core_inv C cfg st" and cfg: "config_ok cfg"
    and auth: "vote_auth C cfg (pm_canonical msg) (pm_sender_id msg) (pm_signature msg)"
    and ok: "dispatch C cfg msg st = (Ok r, st')" "r \<noteq> CHECKPOINT_STABILIZED"
    and sim: "same_core st rc"
  obtains rc' where "recover_core C cfg (msg_row msg) rc = Some rc'" "same_core st' rc'"
proof -
  obtain h0 where rc: "rc = st\<lparr>highest_seq := h0\<rparr>" using sim by (auto simp: same_core_def)
  define h where "h = max h0 (pm_seq msg)"
  note core = recover_core_message [OF auth ok(1), of h0, folded h_def rc]
  have "recover_core C cfg (msg_row msg) rc = Some (st'\<lparr>highest_seq := h\<rparr>)"
  proof (cases "pm_phase msg")
    case PrePrepare
    then have *: "on_pre_prepare cfg msg st = (Ok r, st')" using ok by (simp add: dispatch_def)
    then show ?thesis
      unfolding core using PrePrepare
      by (auto simp: on_pre_prepare_Ok record_proposal_def raise_to_def)
  next
    case Prepare
    then show ?thesis unfolding core using ok Prepare recover_prepare_sim by (simp add: dispatch_def)
  next
    case Commit
    then show ?thesis unfolding core using ok Commit recover_commit_sim by (simp add: dispatch_def)
  next
    case ViewChange
    then show ?thesis
      unfolding core using ok recover_view_change_sim [OF inv cfg _ ViewChange] ViewChange by (simp add: dispatch_def)
  next
    case Checkpoint
    then show ?thesis unfolding core using ok Checkpoint recover_checkpoint_sim by (simp add: dispatch_def)
  qed
  then show thesis by (rule that) (auto simp: same_core_def)
qed

section \<open>Progress of a replica\<close>

lemma retain_after_fields [simp]:
  "current_view (retain_after n st) = current_view st"
  "highest_seq (retain_after n st) = highest_seq st"
  "last_stable_checkpoint (retain_after n st) = last_stable_checkpoint st"
  "new_view_certificates (retain_after n st) = new_view_certificates st"
  "view_change_votes (retain_after n st) = view_change_votes st"
  by (simp_all add: retain_after_def)

lemma dispatch_progress:
  assumes "dispatch C cfg msg st = (Ok r, st')"
    and "pm_phase msg = Checkpoint \<Longrightarrow> last_stable_checkpoint st < pm_seq msg"
  shows "current_view st \<le> current_view st' \<and> highest_seq st \<le> highest_seq st' \<and>
    last_stable_checkpoint st \<le> last_stable_checkpoint st'"
proof (cases "pm_phase msg")
  case PrePrepare
  then show ?thesis
    using assms(1) by (auto simp: dispatch_def on_pre_prepare_Ok record_proposal_def raise_to_def)
next
  case Prepare
  then have "on_prepare C cfg msg st = (Ok r, st')" using assms(1) by (simp add: dispatch_def)
  from on_prepare_Ok(3) [OF this] show ?thesis
    by (simp add: record_prepare_def proposal_key_def Let_def del: hm_len_upd)
next
  case Commit
  then have "on_commit C cfg msg st = (Ok r, st')" using assms(1) by (simp add: dispatch_def)
  from on_commit_Ok(4) [OF this] show ?thesis
    by (simp add: record_commit_def proposal_key_def Let_def del: hm_len_upd)
next
  case ViewChange
  then have "on_view_change C cfg msg st = (Ok r, st')" using assms(1) by (simp add: dispatch_def)
  from on_view_change_Ok [OF this] show ?thesis
    by (cases "unat (quorum_size cfg) \<le> hm_len (supporters_of msg st)")
      (auto simp: record_new_view_def record_view_change_def raise_to_def split: option.split)
next
  case Checkpoint
  then have "on_checkpoint cfg msg st = (Ok r, st')" using assms(1) by (simp add: dispatch_def)
  from on_checkpoint_Ok(3) [OF this] show ?thesis
    using assms(2) [OF Checkpoint] by (auto simp: record_checkpoint_def intro: less_imp_le)
qed

lemma handle_message_progress:
  assumes "handle_message C io msg st = (res, st')"
  shows "current_view (st_core st) \<le> current_view (st_core st') \<and>
    highest_seq (st_core st) \<le> highest_seq (st_core st') \<and>
    last_stable_checkpoint (st_core st) \<le> last_stable_checkpoint (st_core st')"
  using handle_message_core [OF assms]
    dispatch_progress [of C "st_config st" msg "st_core st" _ "st_core st'"]
  by (fastforce simp: admissible_def)

lemma node_run_progress:
  "current_view (st_core st) \<le> current_view (st_core (fold (node_step C) evs st)) \<and>
    highest_seq (st_core st) \<le> highest_seq (st_core (fold (node_step C) evs st)) \<and>
    last_stable_checkpoint (st_core st) \<le> last_stable_checkpoint (st_core (fold (node_step C) evs st))"
proof (induction evs arbitrary: st)
  case (Cons ev evs)
  obtain res st1 where h: "handle_message C (fst ev) (snd ev) st = (res, st1)" by fastforce
  then have "node_step C ev st = st1" by (simp add: node_step_def)
  then show ?case
    using Cons.IH [of st1] handle_message_progress [OF h] by (auto intro: order_trans)
qed simp

lemma handle_message_failed:
  "wal_failed st \<Longrightarrow> handle_message C io msg st = (Err WAL_UNAVAILABLE, st)"
  by (simp add: handle_message_def)

lemma node_run_failed: "wal_failed st \<Longrightarrow> fold (node_step C) evs st = st"
  by (induction evs) (simp_all add: node_step_def handle_message_failed)

text \<open>A stable checkpoint is never zero.\<close>

lemma stabilized_positive:
  assumes "dispatch C cfg msg st = (Ok CHECKPOINT_STABILIZED, st')"
    and "pm_phase msg = Checkpoint \<Longrightarrow> last_stable_checkpoint st < pm_seq msg"
  shows "pm_phase msg = Checkpoint \<and> last_stable_checkpoint st' = pm_seq msg \<and>
    last_stable_checkpoint st < last_stable_checkpoint st'"
proof -
  have ph: "pm_phase msg = Checkpoint"
    using assms(1) by (auto simp: dispatch_def on_pre_prepare_Ok on_prepare_def on_commit_def
        on_view_change_def install_new_view_cases Let_def
        split: phase.splits if_splits option.splits)
  then have "on_checkpoint cfg msg st = (Ok CHECKPOINT_STABILIZED, st')"
    using assms(1) by (simp add: dispatch_def)
  from on_checkpoint_Ok(3) [OF this] show ?thesis
    using ph assms(2) by (simp add: record_checkpoint_def)
qed

lemma dispatch_not_obsolete: "dispatch C cfg msg st \<noteq> (Ok CHECKPOINT_OBSOLETE, st')"
  by (auto simp: dispatch_def on_pre_prepare_Ok on_prepare_def on_commit_def on_view_change_def
      on_checkpoint_def install_new_view_cases Let_def
      split: phase.splits if_splits option.splits)

text \<open>A message that is not acknowledged as new changes nothing, unless the log failed.\<close>

lemma handle_message_rejected:
  assumes "handle_message C io msg st = (res, st')"
    and "res = Ok CHECKPOINT_OBSOLETE \<or> (\<exists>e. res = Err e \<and> e \<noteq> WAL_ERROR \<and> e \<noteq> WAL_PRUNE_ERROR)"
  shows "st' = st"
  using assms dispatch_not_obsolete [of C "st_config st" msg "st_core st"]
  by (auto simp: handle_message_def Let_def split: if_splits option.splits prod.splits sum.splits)

lemma handle_message_wal_error:
  assumes "handle_message C io msg st = (Err e, st')" "e = WAL_ERROR \<or> e = WAL_PRUNE_ERROR"
  shows "wal_failed st' \<or> st' = st"
  using assms
  by (auto simp: handle_message_def Let_def split: if_splits option.splits prod.splits sum.splits)

section \<open>A history of messages\<close>

text \<open>The messages of a history that the replica acknowledged and logged.\<close>

fun node_trace ::
  "('s::field, 'g1::ab_group_add, 'g2, 'gt) bls \<Rightarrow> 'g1 node_event list \<Rightarrow>
    ('g1, 'g2) pbft_state \<Rightarrow> 'g1 pbft_message list \<times> ('g1, 'g2) pbft_state" where
  "node_trace C [] st = ([], st)"
| "node_trace C ((io, msg) # evs) st =
     (case handle_message C io msg st of
        (res, st1) \<Rightarrow>
          (case node_trace C evs st1 of
             (acked, st2) \<Rightarrow>
               (if is_ok res \<and> res \<noteq> Ok CHECKPOINT_OBSOLETE then msg # acked else acked, st2)))"

lemma node_trace_run: "snd (node_trace C evs st) = fold (node_step C) evs st"
proof (induction evs arbitrary: st)
  case (Cons ev evs)
  obtain io msg where ev: "ev = (io, msg)" by (cases ev)
  obtain res st1 where h: "handle_message C io msg st = (res, st1)" by fastforce
  then have "node_step C ev st = st1" by (simp add: ev node_step_def)
  then show ?case using Cons.IH [of st1] by (cases "node_trace C evs st1") (simp add: ev h)
qed simp

definition durable_inv ::
  "('s::field, 'g1::ab_group_add, 'g2, 'gt) bls \<Rightarrow> ('g1, 'g2) pbft_state \<Rightarrow> 'g1 wal_row list \<Rightarrow>
    bool" where
  "durable_inv C st rs \<longleftrightarrow> wal_log C (st_wal st) rs \<and> last_stable_checkpoint (st_core st) = 0 \<and>
     (\<exists>rc. recover_rows C (st_config st) rs empty_core = Some rc \<and> same_core (st_core st) rc)"

lemma handle_message_durable:
  assumes inv: "node_inv C st" and dur: "durable_inv C st rs"
    and h: "handle_message C io msg st = (res, st')" and wf: "pm_wf msg"
    and live: "\<not> wal_failed st'" "last_stable_checkpoint (st_core st') = 0"
  shows "durable_inv C st'
    (rs @ (if is_ok res \<and> res \<noteq> Ok CHECKPOINT_OBSOLETE then [msg_row msg] else []))"
proof (cases "is_ok res \<and> res \<noteq> Ok CHECKPOINT_OBSOLETE")
  case False
  then have "st' = st"
    using handle_message_rejected [OF h] handle_message_wal_error [of C io msg st _ st'] h live(1)
    by (cases res) auto
  then show ?thesis using False dur by auto
next
  case True
  then obtain r where r: "res = Ok r" "r \<noteq> CHECKPOINT_OBSOLETE" by (cases res) auto
  note H = handle_message_Ok [OF h [unfolded r(1)] r(2)]
  have adm: "vote_auth C (st_config st) (pm_canonical msg) (pm_sender_id msg) (pm_signature msg)"
    "pm_phase msg = Checkpoint \<Longrightarrow> last_stable_checkpoint (st_core st) < pm_seq msg"
    using H(1) by (simp_all add: admissible_def)
  have ns: "r \<noteq> CHECKPOINT_STABILIZED"
    using stabilized_positive [OF _ adm(2)] H(2) live(2) by fastforce
  obtain rc where rc: "recover_rows C (st_config st) rs empty_core = Some rc"
    "same_core (st_core st) rc" using dur by (auto simp: durable_inv_def)
  obtain rc' where "recover_core C (st_config st) (msg_row msg) rc = Some rc'"
    "same_core (st_core st') rc'"
    using dispatch_sim [OF _ _ adm(1) H(2) ns rc(2)] inv by (auto simp: node_inv_def)
  moreover have "wal_log C (st_wal st') (rs @ [msg_row msg])"
    using H(5) ns dur wf append_entry_ok_log [of C "st_wal st" rs "msg_row msg" _ _ "st_wal st'"]
    by (auto simp: durable_inv_def)
  ultimately show ?thesis
    using True live(2) H(3) rc(1) by (simp add: durable_inv_def recover_rows_append)
qed

text \<open>A replica constructed over an empty log.\<close>

lemma fresh_replica:
  assumes "new_with_wal_path C io n keys mpk = Ok st" "o_disk io = []"
  shows "make_config n keys mpk = Ok (st_config st)" "st_core st = empty_core" "durable_inv C st []"
proof -
  obtain cfg core where R: "make_config n keys mpk = Ok cfg" "st_config st = cfg"
    "replay_log C (recover_row C cfg) (o_reads io) (o_disk io)
       \<lparr>rc_core = empty_core, rc_error = False\<rparr> = (Ok (), \<lparr>rc_core = core, rc_error = False\<rparr>)"
    "st_core st = (if 0 < last_stable_checkpoint core
       then retain_after (last_stable_checkpoint core) core else core)"
    "st_wal st = wal_open (o_disk io)"
    using new_with_wal_path_Ok [OF assms(1)] by metis
  have "core = empty_core" using replay_log_empty R(3) assms(2) by fastforce
  then have core: "st_core st = empty_core" using R(4) by (simp add: empty_core_def)
  then show "make_config n keys mpk = Ok (st_config st)" "st_core st = empty_core"
    using R(1,2) by simp_all
  show "durable_inv C st []"
    using R(5) core assms(2) by (simp add: durable_inv_def wal_log_def wal_open_def)
      (simp add: empty_core_def)
qed

end
