(* ===== verification/Dkg.thy ===== *)
theory Dkg
  imports Wire
begin

text \<open>
  \<open>dkg.rs\<close>: the key-generation message with its variable-length encoding, and the session of one
  dealer: commitments, shares, the Feldman check of an incoming share and the final share and
  master key. The randomness of a session is an argument, and so is SHA-256.
  The lemmas: the decoder inverts the encoder and accepts nothing else; a share is accepted exactly
  when it lies on the committed polynomial; when all dealers' shares lie on their polynomials, the
  final shares are the values of the sum polynomial, and the master key commits to its constant
  term. An indexing that panics in the source is the error \<open>PANIC_INDEX\<close>.
\<close>

section \<open>Messages\<close>

record ('s, 'g1, 'g2) dkg_share_message =
  ds_from_node :: u32
  ds_to_node :: u32
  ds_share :: 's
  ds_commitments :: "'g2 list"
  ds_signature :: 'g1

datatype dkg_error =
    DKG_PACKET_TOO_SHORT
  | INVALID_SHARE_SCALAR
  | INVALID_G2_COMMITMENT
  | INVALID_DKG_PACKET_STRUCTURE
  | INVALID_G1_SIGNATURE
  | INVALID_COMMITMENTS_LENGTH
  | FELDMAN_VSS_VERIFICATION_FAILED
  | TRANSCRIPT_EQUIVOCATION_DETECTED
  | MISSING_SHARE_FROM_PEER
  | MISSING_COMMITMENTS_FROM_PEER
  | PANIC_INDEX

definition dkg_canonical_bytes ::
  "('s, 'g1, 'g2, 'gt) bls \<Rightarrow> ('s, 'g1, 'g2) dkg_share_message \<Rightarrow> bytes" where
  "dkg_canonical_bytes C m =
     u32_to_be_bytes (ds_from_node m) @ u32_to_be_bytes (ds_to_node m) @
     scalar_to_bytes C (ds_share m) @ concat (map (g2_to_compressed C) (ds_commitments m))"

definition dkg_to_bytes ::
  "('s, 'g1, 'g2, 'gt) bls \<Rightarrow> ('s, 'g1, 'g2) dkg_share_message \<Rightarrow> bytes" where
  "dkg_to_bytes C m = dkg_canonical_bytes C m @ g1_to_compressed C (ds_signature m)"

text \<open>The loop over the commitments: the offset it stops at and what it has decoded.\<close>

function commitments_loop ::
  "('s, 'g1, 'g2, 'gt) bls \<Rightarrow> bytes \<Rightarrow> nat \<Rightarrow> 'g2 list \<Rightarrow> (dkg_error, nat \<times> 'g2 list) result" where
  "commitments_loop C bs offset cs =
     (if offset + 96 \<le> length bs - 48 then
        (case g2_from_compressed C (slice offset (offset + 96) bs) of
           None \<Rightarrow> Err INVALID_G2_COMMITMENT
         | Some c \<Rightarrow> commitments_loop C bs (offset + 96) (cs @ [c]))
      else Ok (offset, cs))"
  by pat_completeness auto
termination by (relation "measure (\<lambda>(C, bs, offset, cs). length bs - offset)") auto

declare commitments_loop.simps [simp del]

definition dkg_from_bytes ::
  "('s, 'g1, 'g2, 'gt) bls \<Rightarrow> bytes \<Rightarrow> (dkg_error, ('s, 'g1, 'g2) dkg_share_message) result" where
  "dkg_from_bytes C bs =
     (if length bs < 8 + 32 + 48 then Err DKG_PACKET_TOO_SHORT
      else
        let from_node = u32_from_be_bytes (slice 0 4 bs);
            to_node = u32_from_be_bytes (slice 4 8 bs)
        in case scalar_from_bytes C (slice 8 40 bs) of
             None \<Rightarrow> Err INVALID_SHARE_SCALAR
           | Some share \<Rightarrow>
               (case commitments_loop C bs 40 [] of
                  Err e \<Rightarrow> Err e
                | Ok (offset, commitments) \<Rightarrow>
                    if length bs - offset \<noteq> 48 then Err INVALID_DKG_PACKET_STRUCTURE
                    else case g1_from_compressed C (slice offset (offset + 48) bs) of
                           None \<Rightarrow> Err INVALID_G1_SIGNATURE
                         | Some signature \<Rightarrow>
                             Ok \<lparr>ds_from_node = from_node, ds_to_node = to_node,
                                 ds_share = share, ds_commitments = commitments,
                                 ds_signature = signature\<rparr>))"

definition dkg_verify_signature ::
  "('s, 'g1, 'g2, 'gt) bls \<Rightarrow> ('s, 'g1, 'g2) dkg_share_message \<Rightarrow> bool" where
  "dkg_verify_signature C m =
     (case ds_commitments m of
        [] \<Rightarrow> False
      | dealer_pubkey # _ \<Rightarrow>
          verify_bls_signature C (dkg_canonical_bytes C m) (ds_signature m) dealer_pubkey)"

section \<open>Sessions\<close>

record ('s, 'g2) dkg_session =
  dk_node_id :: u32
  dk_threshold :: usize
  dk_total_nodes :: usize
  dk_secret_polynomial :: "'s list"
  dk_received_shares :: "(u32, 's) fmap"
  dk_received_commitments :: "(u32, 'g2 list) fmap"

text \<open>\<open>DkgSession::new\<close>; \<open>rng k\<close> is the \<open>k\<close>-th scalar the generator returns.\<close>

definition dkg_new :: "(nat \<Rightarrow> 's) \<Rightarrow> u32 \<Rightarrow> usize \<Rightarrow> usize \<Rightarrow> ('s, 'g2) dkg_session" where
  "dkg_new rng node_id threshold n =
     \<lparr>dk_node_id = node_id, dk_threshold = threshold, dk_total_nodes = n,
      dk_secret_polynomial = map rng [0..<unat threshold],
      dk_received_shares = fmempty, dk_received_commitments = fmempty\<rparr>"

definition dealer_secret_key :: "('s, 'g2) dkg_session \<Rightarrow> (dkg_error, 's) result" where
  "dealer_secret_key ses =
     (case dk_secret_polynomial ses of [] \<Rightarrow> Err PANIC_INDEX | c # _ \<Rightarrow> Ok c)"

definition generate_commitments ::
  "('s, 'g1, 'g2, 'gt) bls \<Rightarrow> ('s, 'g2) dkg_session \<Rightarrow> 'g2 list" where
  "generate_commitments C ses = map (g2_mul C (g2_generator C)) (dk_secret_polynomial ses)"

definition evaluate_share_for ::
  "('s::field, 'g1, 'g2, 'gt) bls \<Rightarrow> ('s, 'g2) dkg_session \<Rightarrow> u32 \<Rightarrow> 's" where
  "evaluate_share_for C ses node_id =
     poly_loop (dk_secret_polynomial ses) (x_coord C node_id) 0 1"

definition process_incoming_share ::
  "('s::field, 'g1, 'g2::ab_group_add, 'gt) bls \<Rightarrow> u32 \<Rightarrow> 's \<Rightarrow> 'g2 list \<Rightarrow>
    ('s, 'g2) dkg_session \<Rightarrow> (dkg_error, unit) result \<times> ('s, 'g2) dkg_session" where
  "process_incoming_share C from_node share commitments ses =
     (if length commitments \<noteq> unat (dk_threshold ses) then (Err INVALID_COMMITMENTS_LENGTH, ses)
      else
        let expected_g2 = commit_loop C commitments (x_coord C (dk_node_id ses)) 0 1;
            actual_g2 = g2_mul C (g2_generator C) share
        in if actual_g2 \<noteq> expected_g2 then (Err FELDMAN_VSS_VERIFICATION_FAILED, ses)
           else (Ok (), ses\<lparr>
                  dk_received_shares := fmupd from_node share (dk_received_shares ses),
                  dk_received_commitments :=
                    fmupd from_node commitments (dk_received_commitments ses)\<rparr>))"

text \<open>The transcript: identifiers in increasing order, each followed by its commitments.\<close>

definition transcript_bytes ::
  "('s, 'g1, 'g2, 'gt) bls \<Rightarrow> (u32, 'g2 list) fmap \<Rightarrow> bytes" where
  "transcript_bytes C commitments =
     concat (map (\<lambda>(i, cs). u32_to_be_bytes i @ concat (map (g2_to_compressed C) cs))
       (hm_items commitments))"

definition compute_commitment_transcript ::
  "(bytes \<Rightarrow> bytes) \<Rightarrow> ('s, 'g1, 'g2, 'gt) bls \<Rightarrow> (u32, 'g2 list) fmap \<Rightarrow> bytes" where
  "compute_commitment_transcript sha256 C commitments =
     take 32 (sha256 (transcript_bytes C commitments))"

definition transcript_hash ::
  "(bytes \<Rightarrow> bytes) \<Rightarrow> ('s, 'g1, 'g2, 'gt) bls \<Rightarrow> ('s, 'g2) dkg_session \<Rightarrow> bytes" where
  "transcript_hash sha256 C ses =
     compute_commitment_transcript sha256 C
       (fmupd (dk_node_id ses) (generate_commitments C ses) (dk_received_commitments ses))"

definition verify_transcript_consistency ::
  "(bytes \<Rightarrow> bytes) \<Rightarrow> ('s, 'g1, 'g2, 'gt) bls \<Rightarrow> (u32, bytes) fmap \<Rightarrow>
    ('s, 'g2) dkg_session \<Rightarrow> (dkg_error, unit) result" where
  "verify_transcript_consistency sha256 C peer_hashes ses =
     (if hm_any (\<lambda>h. h \<noteq> transcript_hash sha256 C ses) peer_hashes
      then Err TRANSCRIPT_EQUIVOCATION_DETECTED else Ok ())"

text \<open>The loop of \<open>finalize_dkg\<close> over the expected participants.\<close>

fun finalize_loop ::
  "('s::field, 'g2::ab_group_add) dkg_session \<Rightarrow> u32 list \<Rightarrow> 's \<Rightarrow> 'g2 \<Rightarrow>
    (dkg_error, 's \<times> 'g2) result" where
  "finalize_loop ses [] final_share master_pk = Ok (final_share, master_pk)"
| "finalize_loop ses (peer_id # ids) final_share master_pk =
     (if peer_id = dk_node_id ses then finalize_loop ses ids final_share master_pk
      else case fmlookup (dk_received_shares ses) peer_id of
        None \<Rightarrow> Err MISSING_SHARE_FROM_PEER
      | Some share \<Rightarrow>
          (case fmlookup (dk_received_commitments ses) peer_id of
             None \<Rightarrow> Err MISSING_COMMITMENTS_FROM_PEER
           | Some [] \<Rightarrow> Err PANIC_INDEX
           | Some (c # _) \<Rightarrow>
               finalize_loop ses ids (final_share + share) (master_pk + c)))"

definition finalize_dkg ::
  "('s::field, 'g1, 'g2::ab_group_add, 'gt) bls \<Rightarrow> u32 list \<Rightarrow> ('s, 'g2) dkg_session \<Rightarrow>
    (dkg_error, 's \<times> 'g2) result" where
  "finalize_dkg C expected_participants ses =
     (case generate_commitments C ses of
        [] \<Rightarrow> Err PANIC_INDEX
      | c # _ \<Rightarrow>
          finalize_loop ses expected_participants (evaluate_share_for C ses (dk_node_id ses))
            (0 + c))"

section \<open>The encoding\<close>

definition dkg_codec_laws :: "('s, 'g1, 'g2, 'gt) bls \<Rightarrow> bool" where
  "dkg_codec_laws C \<longleftrightarrow> g1_codec_laws C \<and> g2_codec_laws C \<and> scalar_codec_laws C"

abbreviation commits_bytes :: "('s, 'g1, 'g2, 'gt) bls \<Rightarrow> 'g2 list \<Rightarrow> bytes" where
  "commits_bytes C cs \<equiv> concat (map (g2_to_compressed C) cs)"

text \<open>What an encoding carries.\<close>

definition dkg_encodable :: "('s, 'g1, 'g2, 'gt) bls \<Rightarrow> ('s, 'g1, 'g2) dkg_share_message \<Rightarrow> bool" where
  "dkg_encodable C m \<longleftrightarrow> scalar_encodable C (ds_share m) \<and>
     (\<forall>c\<in>set (ds_commitments m). g2_encodable C c) \<and> g1_encodable C (ds_signature m)"

lemma dkg_encodableI: "dkg_codec_laws C \<Longrightarrow> dkg_encodable C m"
  by (simp add: dkg_encodable_def dkg_codec_laws_def g1_encodableI g2_encodableI scalar_encodableI)

lemma length_commits_bytes [codec_simps]:
  "\<forall>c\<in>set cs. g2_encodable C c \<Longrightarrow> length (commits_bytes C cs) = 96 * length cs"
  by (induction cs) (simp_all add: g2_encodable_def)

lemma commitments_loop_encoded:
  "\<forall>c\<in>set cs. g2_encodable C c \<Longrightarrow> length pre = offset \<Longrightarrow> length sig = 48 \<Longrightarrow>
    commitments_loop C (pre @ commits_bytes C cs @ sig) offset acc =
      Ok (offset + 96 * length cs, acc @ cs)"
proof (induction cs arbitrary: pre offset acc)
  case Nil
  then show ?case by (simp add: commitments_loop.simps)
next
  case (Cons c cs)
  let ?bs = "pre @ commits_bytes C (c # cs) @ sig"
  have len: "length (g2_to_compressed C c) = 96" and dec: "g2_from_compressed C (g2_to_compressed C c) = Some c"
    using Cons.prems(1) by (simp_all add: g2_encodable_def)
  have "slice offset (offset + 96) ?bs = g2_to_compressed C c"
    using Cons.prems len by (simp add: slice_def)
  then have "commitments_loop C ?bs offset acc = commitments_loop C ?bs (offset + 96) (acc @ [c])"
    using Cons.prems len length_commits_bytes [of cs C]
    by (subst commitments_loop.simps) (simp add: dec)
  also have "\<dots> = commitments_loop C ((pre @ g2_to_compressed C c) @ commits_bytes C cs @ sig)
      (offset + 96) (acc @ [c])"
    by simp
  also have "\<dots> = Ok (offset + 96 + 96 * length cs, (acc @ [c]) @ cs)"
    using Cons.prems len by (intro Cons.IH) simp_all
  finally show ?case by simp
qed

lemma commitments_loop_Ok:
  "commitments_loop C bs offset acc = Ok (off', cs) \<Longrightarrow> g2_codec_laws C \<Longrightarrow>
    offset + 48 \<le> length bs \<Longrightarrow>
    \<exists>ds. cs = acc @ ds \<and> slice offset off' bs = commits_bytes C ds \<and> offset \<le> off' \<and>
      off' + 48 \<le> length bs"
proof (induction C bs offset acc rule: commitments_loop.induct)
  case (1 C bs offset acc)
  show ?case
  proof (cases "offset + 96 \<le> length bs - 48")
    case False
    then show ?thesis using "1.prems" by (auto simp: commitments_loop.simps [of C bs offset] slice_def)
  next
    case True
    then have len: "offset + 96 + 48 \<le> length bs" by arith
    obtain c where c: "g2_from_compressed C (slice offset (offset + 96) bs) = Some c"
      and rec: "commitments_loop C bs (offset + 96) (acc @ [c]) = Ok (off', cs)"
      using "1.prems" True by (auto simp: commitments_loop.simps [of C bs offset] split: option.splits)
    obtain ds where ds: "cs = (acc @ [c]) @ ds" "slice (offset + 96) off' bs = commits_bytes C ds"
      "offset + 96 \<le> off'" "off' + 48 \<le> length bs"
      using "1.IH" [OF True c rec "1.prems"(2) len] by auto
    have "slice offset off' bs = slice offset (offset + 96) bs @ slice (offset + 96) off' bs"
      using ds slice_join [of offset "offset + 96" off' bs] by simp
    also have "\<dots> = commits_bytes C (c # ds)"
      using ds(2) g2_compressed_canonical [OF "1.prems"(2) c] by simp
    finally show ?thesis using ds by auto
  qed
qed

lemma dkg_decode_encode:
  assumes ok: "dkg_encodable C m"
  shows "dkg_from_bytes C (dkg_to_bytes C m) = Ok m"
proof -
  have E: "length (scalar_to_bytes C (ds_share m)) = 32"
    "scalar_from_bytes C (scalar_to_bytes C (ds_share m)) = Some (ds_share m)"
    "\<forall>c\<in>set (ds_commitments m). g2_encodable C c"
    "length (g1_to_compressed C (ds_signature m)) = 48"
    "g1_from_compressed C (g1_to_compressed C (ds_signature m)) = Some (ds_signature m)"
    using ok by (simp_all add: dkg_encodable_def scalar_encodable_def g1_encodable_def)
  let ?pre = "u32_to_be_bytes (ds_from_node m) @ u32_to_be_bytes (ds_to_node m) @
    scalar_to_bytes C (ds_share m)"
  let ?cs = "commits_bytes C (ds_commitments m)"
  let ?sig = "g1_to_compressed C (ds_signature m)"
  have bs: "dkg_to_bytes C m = ?pre @ ?cs @ ?sig"
    by (simp add: dkg_to_bytes_def dkg_canonical_bytes_def)
  have len: "length ?pre = 40" "length ?sig = 48" "length ?cs = 96 * length (ds_commitments m)"
    using E by (simp_all add: length_commits_bytes)
  have loop: "commitments_loop C (?pre @ ?cs @ ?sig) 40 [] =
      Ok (40 + 96 * length (ds_commitments m), ds_commitments m)"
    using commitments_loop_encoded [OF E(3) len(1,2), of "[]"] by simp
  have fields: "slice 0 4 (?pre @ ?cs @ ?sig) = u32_to_be_bytes (ds_from_node m)"
    "slice 4 8 (?pre @ ?cs @ ?sig) = u32_to_be_bytes (ds_to_node m)"
    "slice 8 40 (?pre @ ?cs @ ?sig) = scalar_to_bytes C (ds_share m)"
    using len E(1) by (simp_all add: slice_def)
  have sig: "slice (40 + 96 * length (ds_commitments m)) (88 + 96 * length (ds_commitments m))
      (u32_to_be_bytes (ds_from_node m) @ u32_to_be_bytes (ds_to_node m) @
       scalar_to_bytes C (ds_share m) @ ?cs @ ?sig) = ?sig"
    using len E(1) by (simp add: slice_def)
  have total: "length (?pre @ ?cs @ ?sig) = 88 + 96 * length (ds_commitments m)"
    using len by simp
  show ?thesis
    unfolding bs dkg_from_bytes_def Let_def loop fields total
    by (simp add: sig E(2,5))
qed

text \<open>The decoder accepts nothing but encodings.\<close>

lemma dkg_encode_decode:
  assumes C: "dkg_codec_laws C" and d: "dkg_from_bytes C bs = Ok m"
  shows "dkg_to_bytes C m = bs"
proof -
  have laws: "g1_codec_laws C" "g2_codec_laws C" "scalar_codec_laws C"
    using C by (simp_all add: dkg_codec_laws_def)
  have len: "88 \<le> length bs" using d by (simp add: dkg_from_bytes_def split: if_splits)
  obtain offset where loop: "commitments_loop C bs 40 [] = Ok (offset, ds_commitments m)"
    and share: "scalar_from_bytes C (slice 8 40 bs) = Some (ds_share m)"
    and sig: "g1_from_compressed C (slice offset (offset + 48) bs) = Some (ds_signature m)"
    and off: "length bs - offset = 48"
    and ids: "ds_from_node m = u32_from_be_bytes (slice 0 4 bs)"
      "ds_to_node m = u32_from_be_bytes (slice 4 8 bs)"
    using d len
    by (auto simp: dkg_from_bytes_def Let_def split: if_splits option.splits sum.splits)
  have cs: "slice 40 offset bs = commits_bytes C (ds_commitments m)" "40 \<le> offset"
    using commitments_loop_Ok [OF loop laws(2)] len by auto
  have whole: "offset + 48 = length bs" using off by simp
  have "dkg_to_bytes C m = slice 0 4 bs @ slice 4 8 bs @ slice 8 40 bs @ slice 40 offset bs @
      slice offset (offset + 48) bs"
    using len cs scalar_bytes_canonical [OF laws(3) share] g1_compressed_canonical [OF laws(1) sig]
    by (simp add: dkg_to_bytes_def dkg_canonical_bytes_def ids u32_reprint)
  also have "\<dots> = slice 0 (offset + 48) bs" using cs(2) by (simp add: slice_join)
  finally show ?thesis using whole by simp
qed

text \<open>Packets of a dealer with the given threshold.\<close>

lemma length_dkg_to_bytes:
  "dkg_encodable C m \<Longrightarrow> length (dkg_to_bytes C m) = 88 + 96 * length (ds_commitments m)"
  by (simp add: dkg_to_bytes_def dkg_canonical_bytes_def dkg_encodable_def scalar_encodable_def
      g1_encodable_def length_commits_bytes)

section \<open>Shares\<close>

lemma evaluate_share_poly:
  "evaluate_share_for C ses i = poly_eval (dk_secret_polynomial ses) (x_coord C i)"
  by (simp add: evaluate_share_for_def poly_loop_eval)

text \<open>With commitments to a polynomial, a share is accepted exactly when it is its value.\<close>

lemma process_incoming_share_iff:
  assumes C: "scalar_laws C" "g2_generator_faithful C"
  shows "is_ok (fst (process_incoming_share C j share (map (g2_mul C (g2_generator C)) cs) ses)) \<longleftrightarrow>
    length cs = unat (dk_threshold ses) \<and> share = poly_eval cs (x_coord C (dk_node_id ses))"
proof -
  have "g2_mul C (g2_generator C) share = g2_mul C (g2_generator C) y \<longleftrightarrow> share = y" for y
    using C(2) by (auto simp: g2_generator_faithful_def dest: injD)
  then show ?thesis
    by (simp add: process_incoming_share_def commit_loop_commitments [OF C(1)] Let_def)
qed

lemma process_incoming_share_state:
  "process_incoming_share C j share commitments ses = (res, ses') \<Longrightarrow>
    ses' = (if is_ok res then ses\<lparr>dk_received_shares := fmupd j share (dk_received_shares ses),
        dk_received_commitments := fmupd j commitments (dk_received_commitments ses)\<rparr> else ses)"
  by (auto simp: process_incoming_share_def Let_def split: if_splits)

text \<open>An honest dealer's share is accepted by every receiver.\<close>

lemma honest_share_accepted:
  assumes C: "scalar_laws C"
    and t: "length (dk_secret_polynomial dealer) = unat (dk_threshold ses)"
  shows "is_ok (fst (process_incoming_share C (dk_node_id dealer)
    (evaluate_share_for C dealer (dk_node_id ses)) (generate_commitments C dealer) ses))"
  using t
  by (simp add: process_incoming_share_def generate_commitments_def evaluate_share_poly
      commit_loop_commitments [OF C] Let_def)

section \<open>Final shares\<close>

text \<open>A session that holds the shares and commitments of the dealers \<open>S\<close>, dealer \<open>j\<close> having the
  polynomial \<open>P j\<close>.\<close>

definition holds_shares ::
  "('s::field, 'g1, 'g2, 'gt) bls \<Rightarrow> (u32 \<Rightarrow> 's list) \<Rightarrow> u32 list \<Rightarrow> ('s, 'g2) dkg_session \<Rightarrow> bool" where
  "holds_shares C P ids ses \<longleftrightarrow>
     dk_secret_polynomial ses = P (dk_node_id ses) \<and>
     (\<forall>j\<in>set ids. P j \<noteq> []) \<and>
     (\<forall>j\<in>set ids. j \<noteq> dk_node_id ses \<longrightarrow>
        fmlookup (dk_received_shares ses) j = Some (poly_eval (P j) (x_coord C (dk_node_id ses))) \<and>
        fmlookup (dk_received_commitments ses) j = Some (map (g2_mul C (g2_generator C)) (P j)))"

lemma finalize_loop_sum:
  assumes "holds_shares C P ids ses"
  shows "set js \<subseteq> set ids \<Longrightarrow> finalize_loop ses js fs pk =
    Ok (fs + (\<Sum>j\<leftarrow>filter (\<lambda>j. j \<noteq> dk_node_id ses) js.
               poly_eval (P j) (x_coord C (dk_node_id ses))),
        pk + (\<Sum>j\<leftarrow>filter (\<lambda>j. j \<noteq> dk_node_id ses) js. g2_mul C (g2_generator C) (hd (P j))))"
proof (induction js arbitrary: fs pk)
  case (Cons j js)
  show ?case
  proof (cases "j = dk_node_id ses")
    case True
    then show ?thesis using Cons by simp
  next
    case False
    obtain c cs where "P j = c # cs"
      using assms Cons.prems by (cases "P j") (auto simp: holds_shares_def)
    moreover have
      "fmlookup (dk_received_shares ses) j = Some (poly_eval (P j) (x_coord C (dk_node_id ses)))"
      "fmlookup (dk_received_commitments ses) j = Some (map (g2_mul C (g2_generator C)) (P j))"
      using assms Cons.prems False by (auto simp: holds_shares_def)
    ultimately show ?thesis using Cons False by (simp add: add.assoc)
  qed
qed simp

lemma sum_list_others:
  fixes f :: "'a \<Rightarrow> 'b::ab_group_add"
  assumes "distinct js" "i \<in> set js"
  shows "f i + (\<Sum>j\<leftarrow>filter (\<lambda>j. j \<noteq> i) js. f j) = sum f (set js)"
proof -
  have "(\<Sum>j\<leftarrow>filter (\<lambda>j. j \<noteq> i) js. f j) = sum f (set js - {i})"
    using assms(1) by (subst sum_list_distinct_conv_sum_set) (auto intro: arg_cong [where f = "sum f"])
  then show ?thesis using assms(2) by (simp add: sum.remove)
qed

text \<open>The final share is the value of the sum polynomial at the node's coordinate, the master key
  commits to the sum of the constant terms: the same key at every node.\<close>

lemma finalize_dkg_sum:
  assumes C: "scalar_laws C" and h: "holds_shares C P ids ses"
    and ids: "distinct ids" "dk_node_id ses \<in> set ids"
  shows "finalize_dkg C ids ses =
    Ok (\<Sum>j\<in>set ids. poly_eval (P j) (x_coord C (dk_node_id ses)),
        g2_mul C (g2_generator C) (\<Sum>j\<in>set ids. hd (P j)))"
proof -
  obtain c cs where own: "P (dk_node_id ses) = c # cs" "dk_secret_polynomial ses = c # cs"
    using h ids(2) by (cases "P (dk_node_id ses)") (auto simp: holds_shares_def)
  note S = sum_list_others [OF ids]
  have "finalize_dkg C ids ses = finalize_loop ses ids
      (poly_eval (P (dk_node_id ses)) (x_coord C (dk_node_id ses))) (g2_mul C (g2_generator C) c)"
    using own by (simp add: finalize_dkg_def generate_commitments_def evaluate_share_poly)
  also have "\<dots> = Ok (\<Sum>j\<in>set ids. poly_eval (P j) (x_coord C (dk_node_id ses)),
      \<Sum>j\<in>set ids. g2_mul C (g2_generator C) (hd (P j)))"
    unfolding finalize_loop_sum [OF h order_refl]
    using S [of "\<lambda>j. poly_eval (P j) (x_coord C (dk_node_id ses))"]
      S [of "\<lambda>j. g2_mul C (g2_generator C) (hd (P j))"] own by simp
  finally show ?thesis by (simp add: g2_mul_sum [OF C])
qed

end
