(* ===== verification/Pbft_Safety.thy ===== *)
theory Pbft_Safety
  imports Pbft_Durability Dkg
begin

text \<open>
  Safety of certificates. \<open>quorum_rule\<close> is interpreted on the replica's configuration: with
  \<open>3f + 1\<close> nodes, two quorums of \<open>2f + 1\<close> share \<open>f + 1\<close> of them. So conflicting certificates of
  two replicas convict more than \<open>f\<close> registered nodes, each by two valid signatures. And with
  keys that come from one polynomial, as the key generation makes them, a quorum of votes that
  verify one by one always makes a certificate that verifies.
\<close>

section \<open>Quorums of a configuration\<close>

interpretation pbft_quorum: quorum_rule topology_ok "\<lambda>cfg. unat (total_nodes cfg)"
  "\<lambda>cfg. unat (byz_f cfg)" "\<lambda>cfg. unat (quorum_size cfg)"
  by unfold_locales (simp add: topology_ok_def)

lemma card_ids_below: "n \<le> 2 ^ 32 \<Longrightarrow> card {i :: u32. unat i < n} = n"
proof -
  assume n: "n \<le> 2 ^ 32"
  have "{i :: u32. unat i < n} = word_of_nat ` {..<n}"
  proof (intro set_eqI iffI)
    fix i :: u32 assume "i \<in> word_of_nat ` {..<n}"
    then obtain k where "i = word_of_nat k" "k < n" by auto
    then show "i \<in> {i. unat i < n}" using n by (simp add: unat_of_nat)
  next
    fix i :: u32 assume "i \<in> {i. unat i < n}"
    then have "i = word_of_nat (unat i)" "unat i \<in> {..<n}" by simp_all
    then show "i \<in> word_of_nat ` {..<n}" by (rule image_eqI)
  qed
  moreover have "inj_on (word_of_nat :: nat \<Rightarrow> u32) {..<n}"
    using n by (auto simp: inj_on_def unat_of_nat dest!: arg_cong [where f = unat])
  ultimately show ?thesis by (simp add: card_image)
qed

lemma registered_card:
  assumes "topology_ok cfg"
  shows "finite (fset (registered_nodes cfg))" "card (fset (registered_nodes cfg)) \<le> unat (total_nodes cfg)"
proof -
  show "finite (fset (registered_nodes cfg))" by simp
  have sub: "fset (registered_nodes cfg) \<subseteq> {i. unat i < unat (total_nodes cfg)}"
    using assms unfolding topology_ok_def by blast
  show "card (fset (registered_nodes cfg)) \<le> unat (total_nodes cfg)"
  proof (cases "unat (total_nodes cfg) \<le> 2 ^ 32")
    case True
    have "card (fset (registered_nodes cfg)) \<le> card {i :: u32. unat i < unat (total_nodes cfg)}"
      by (rule card_mono) (use sub in simp_all)
    then show ?thesis using card_ids_below [OF True] by simp
  next
    case False
    have "card (fset (registered_nodes cfg)) \<le> card (UNIV :: u32 set)"
      by (rule card_mono) simp_all
    also have "\<dots> = 2 ^ 32" by (simp add: card_word)
    finally show ?thesis using False by simp
  qed
qed

text \<open>The signers of a vote map.\<close>

definition signers :: "(u32, 'g1) fmap \<Rightarrow> u32 set" where
  "signers sigs = {i. fmlookup sigs i \<noteq> None}"

lemma card_signers: "card (signers sigs) = hm_len sigs"
proof -
  have "signers sigs = fset (fmdom sigs)" by (auto simp: signers_def fmlookup_dom_iff)
  then show ?thesis by (simp add: hm_len_def fcard.rep_eq)
qed

lemma signers_registered:
  assumes "votes_auth C cfg ph votes" "sigs = hm_entry votes (v, s, d)"
  shows "signers sigs \<subseteq> fset (registered_nodes cfg)"
  using assms by (auto simp: signers_def votes_auth_def vote_auth_def)

lemma votes_authD:
  "votes_auth C cfg ph votes \<Longrightarrow> fmlookup (hm_entry votes (v, s, d)) i = Some sig \<Longrightarrow>
    vote_auth C cfg (canonical_msg (phase_u8 ph) v s d) i sig"
  by (simp add: votes_auth_def)

text \<open>Nodes with two valid signatures, on different digests of one slot.\<close>

definition convicted ::
  "('s, 'g1, 'g2, 'gt) bls \<Rightarrow> 'g2 pbft_config \<Rightarrow> phase \<Rightarrow> u64 \<Rightarrow> u64 \<Rightarrow> bytes \<Rightarrow> bytes \<Rightarrow> u32 set" where
  "convicted C cfg ph v s d d' =
     {i. (\<exists>sig. vote_auth C cfg (canonical_msg (phase_u8 ph) v s d) i sig) \<and>
         (\<exists>sig. vote_auth C cfg (canonical_msg (phase_u8 ph) v s d') i sig)}"

lemma quorums_convict:
  assumes t: "topology_ok cfg"
    and a: "votes_auth C cfg ph votes" "unat (quorum_size cfg) \<le> hm_len (hm_entry votes (v, s, d))"
    and b: "votes_auth C cfg ph votes'" "unat (quorum_size cfg) \<le> hm_len (hm_entry votes' (v, s, d'))"
  shows "unat (byz_f cfg) < card (convicted C cfg ph v s d d')"
proof -
  let ?P = "signers (hm_entry votes (v, s, d))" and ?Q = "signers (hm_entry votes' (v, s, d'))"
  have "unat (byz_f cfg) < card (?P \<inter> ?Q)"
    using a(2) b(2) signers_registered [OF a(1) refl] signers_registered [OF b(1) refl]
    by (intro pbft_quorum.intersection [OF t registered_card [OF t]]) (simp_all add: card_signers)
  also have "card (?P \<inter> ?Q) \<le> card (convicted C cfg ph v s d d')"
  proof (rule card_mono)
    show "finite (convicted C cfg ph v s d d')"
      by (rule finite_subset [of _ "fset (registered_nodes cfg)"])
        (auto simp: convicted_def vote_auth_def)
    show "?P \<inter> ?Q \<subseteq> convicted C cfg ph v s d d'"
    proof
      fix i assume "i \<in> ?P \<inter> ?Q"
      then obtain g g' where g: "fmlookup (hm_entry votes (v, s, d)) i = Some g"
        "fmlookup (hm_entry votes' (v, s, d')) i = Some g'" by (auto simp: signers_def)
      show "i \<in> convicted C cfg ph v s d d'"
        unfolding convicted_def using votes_authD [OF a(1) g(1)] votes_authD [OF b(1) g(2)]
        by blast
    qed
  qed
  finally show ?thesis .
qed

text \<open>What a certificate in the table of a replica stands for.\<close>

lemma prepared_quorum:
  assumes "core_inv C cfg st" "fmlookup (prepared_certificates st) (v, s) = Some c"
  shows "pc_view c = v" "pc_seq c = s" "pc_signatures c = hm_entry (prepare_votes st) (v, s, pc_digest c)"
    "unat (quorum_size cfg) \<le> hm_len (hm_entry (prepare_votes st) (v, s, pc_digest c))"
    "pc_verify C (quorum_size cfg) (master_public_key cfg) c"
proof -
  have t: "tally (unat (quorum_size cfg)) mk_prepared (prepare_votes st) (prepared_certificates st)"
    using assms(1) by (simp add: core_inv_parts)
  obtain d where "unat (quorum_size cfg) \<le> hm_len (hm_entry (prepare_votes st) (v, s, d))"
    "c = mk_prepared (v, s, d) (hm_entry (prepare_votes st) (v, s, d))"
    using tallyD [OF t assms(2)] by blast
  then show "pc_view c = v" "pc_seq c = s"
    "pc_signatures c = hm_entry (prepare_votes st) (v, s, pc_digest c)"
    "unat (quorum_size cfg) \<le> hm_len (hm_entry (prepare_votes st) (v, s, pc_digest c))"
    by (simp_all add: mk_prepared_def)
  show "pc_verify C (quorum_size cfg) (master_public_key cfg) c"
    using assms unfolding core_inv_parts by blast
qed

lemma commit_quorum:
  assumes "core_inv C cfg st" "fmlookup (commit_certificates st) (v, s) = Some c"
  shows "cc_view c = v" "cc_seq c = s"
    "unat (quorum_size cfg) \<le> hm_len (hm_entry (commit_votes st) (v, s, cc_digest c))"
    "fmlookup (committed_digest st) (v, s) = Some (cc_digest c)"
    "cc_verify C (quorum_size cfg) (master_public_key cfg) c"
proof -
  have t: "tally (unat (quorum_size cfg)) mk_commit (commit_votes st) (commit_certificates st)"
    and t': "tally (unat (quorum_size cfg)) mk_digest (commit_votes st) (committed_digest st)"
    using assms(1) by (simp_all add: core_inv_parts)
  obtain d where q: "unat (quorum_size cfg) \<le> hm_len (hm_entry (commit_votes st) (v, s, d))"
    "c = mk_commit (v, s, d) (hm_entry (commit_votes st) (v, s, d))"
    using tallyD [OF t assms(2)] by blast
  then show "cc_view c = v" "cc_seq c = s"
    "unat (quorum_size cfg) \<le> hm_len (hm_entry (commit_votes st) (v, s, cc_digest c))"
    by (simp_all add: mk_commit_def)
  show "fmlookup (committed_digest st) (v, s) = Some (cc_digest c)"
    using tallyI [OF t' q(1)] q(2) by (simp add: mk_digest_def mk_commit_def)
  show "cc_verify C (quorum_size cfg) (master_public_key cfg) c"
    using assms unfolding core_inv_parts by blast
qed

text \<open>A committed value is prepared at the same replica.\<close>

lemma committed_prepared:
  assumes inv: "core_inv C cfg st" and cfg: "config_ok cfg"
    and c: "fmlookup (committed_digest st) (v, s) = Some d"
  obtains cert where "fmlookup (prepared_certificates st) (v, s) = Some cert" "pc_digest cert = d"
proof -
  have t: "tally (unat (quorum_size cfg)) mk_digest (commit_votes st) (committed_digest st)"
    and tp: "tally (unat (quorum_size cfg)) mk_prepared (prepare_votes st) (prepared_certificates st)"
    and cp: "commit_after_prepare (unat (quorum_size cfg)) (prepare_votes st) (commit_votes st)"
    using inv by (simp_all add: core_inv_parts)
  have "unat (quorum_size cfg) \<le> hm_len (hm_entry (commit_votes st) (v, s, d))"
    using tallyD [OF t c] by (auto simp: mk_digest_def)
  then have "hm_entry (commit_votes st) (v, s, d) \<noteq> fmempty" using cfg by (auto simp: config_ok_def)
  then have "unat (quorum_size cfg) \<le> hm_len (hm_entry (prepare_votes st) (v, s, d))"
    using cp by (simp add: commit_after_prepare_def)
  from tallyI [OF tp this] show thesis by (intro that) (auto simp: mk_prepared_def)
qed

section \<open>Keys of one polynomial\<close>

text \<open>The public keys and the master key the key generation leaves: node \<open>i\<close> has the secret
  \<open>F (i + 1)\<close>, the master secret is \<open>F 0\<close>.\<close>

definition keys_from_poly ::
  "('s::field, 'g1, 'g2, 'gt) bls \<Rightarrow> 'g2 pbft_config \<Rightarrow> 's list \<Rightarrow> bool" where
  "keys_from_poly C cfg F \<longleftrightarrow>
     F \<noteq> [] \<and> length F \<le> unat (quorum_size cfg) \<and>
     master_public_key cfg = g2_mul C (g2_generator C) (hd F) \<and>
     (\<forall>i. i |\<in>| registered_nodes cfg \<longrightarrow>
        fmlookup (public_keys cfg) i = Some (g2_mul C (g2_generator C) (poly_eval F (x_coord C i))))"

lemma authenticated_quorum_verifies:
  assumes C: "scalar_laws C" "pairing_laws C" and keys: "keys_from_poly C cfg F"
    and auth: "\<And>i sig. fmlookup sigs i = Some sig \<Longrightarrow> vote_auth C cfg msg i sig"
    and q: "unat (quorum_size cfg) \<le> hm_len sigs"
  shows "verify_threshold_signature C msg sigs (master_public_key cfg) (quorum_size cfg)"
proof -
  have "sig = sign_bls_message C msg (poly_eval F (x_coord C i))" if "fmlookup sigs i = Some sig" for i sig
    using auth [OF that] keys verify_unique [OF C(2)]
    by (auto simp: vote_auth_def keys_from_poly_def)
  then show ?thesis
    using threshold_complete [OF C, of F "quorum_size cfg" sigs msg] keys q
    by (simp add: keys_from_poly_def)
qed

lemma votes_auth_entry:
  assumes "votes_auth C cfg ph votes" "vote_auth C cfg (canonical_msg (phase_u8 ph) v s d) i sig"
    and "fmlookup (fmupd i sig (hm_entry votes (v, s, d))) j = Some g"
  shows "vote_auth C cfg (canonical_msg (phase_u8 ph) v s d) j g"
  using assms by (auto simp: votes_auth_def split: if_splits)

lemma dispatch_never_unverified:
  assumes C: "scalar_laws C" "pairing_laws C" and keys: "keys_from_poly C cfg F"
    and inv: "core_inv C cfg st"
    and auth: "vote_auth C cfg (pm_canonical msg) (pm_sender_id msg) (pm_signature msg)"
  shows "fst (dispatch C cfg msg st) \<noteq> Err CERTIFICATE_VERIFICATION_FAILED"
proof (cases "pm_phase msg")
  case Prepare
  have "votes_auth C cfg Prepare (prepare_votes st)" using inv by (simp add: core_inv_parts)
  from votes_auth_entry [OF this] auth Prepare
  have "unat (quorum_size cfg) \<le> hm_len (fmupd (pm_sender_id msg) (pm_signature msg)
      (hm_entry (prepare_votes st) (proposal_key msg))) \<Longrightarrow>
    verify_threshold_signature C (pm_canonical msg) (fmupd (pm_sender_id msg) (pm_signature msg)
      (hm_entry (prepare_votes st) (proposal_key msg))) (master_public_key cfg) (quorum_size cfg)"
    by (intro authenticated_quorum_verifies [OF C keys])
      (simp_all add: pm_canonical_def proposal_key_def del: hm_len_upd fmupd_lookup)
  then show ?thesis
    using Prepare by (auto simp: dispatch_def on_prepare_def pc_verify_def pm_canonical_def Let_def
        simp del: hm_len_upd)
next
  case Commit
  have "votes_auth C cfg Commit (commit_votes st)" using inv by (simp add: core_inv_parts)
  from votes_auth_entry [OF this] auth Commit
  have "unat (quorum_size cfg) \<le> hm_len (fmupd (pm_sender_id msg) (pm_signature msg)
      (hm_entry (commit_votes st) (proposal_key msg))) \<Longrightarrow>
    verify_threshold_signature C (pm_canonical msg) (fmupd (pm_sender_id msg) (pm_signature msg)
      (hm_entry (commit_votes st) (proposal_key msg))) (master_public_key cfg) (quorum_size cfg)"
    by (intro authenticated_quorum_verifies [OF C keys])
      (simp_all add: pm_canonical_def proposal_key_def del: hm_len_upd fmupd_lookup)
  then show ?thesis
    using Commit by (auto simp: dispatch_def on_commit_def cc_verify_def pm_canonical_def Let_def
        simp del: hm_len_upd)
qed (auto simp: dispatch_def on_pre_prepare_def on_view_change_def on_checkpoint_def
    install_new_view_cases Let_def split: option.splits)

end
