(* ===== verification/Network.thy ===== *)
theory Network
  imports Dkg Pbft_Handler "HOL-Library.Multiset"
begin

text \<open>
  \<open>network.rs\<close>: framing, sending with every outcome of the socket, the broadcast to all other peers,
  \<open>handle_connection\<close>, which authenticates a packet, hands it to the replica and answers with the
  node's own vote, and the listener with its address filter and its permits. Sockets are byte streams,
  channels are the lists of what was sent on them; the events of a listener interleave the
  connections that \<open>accept\<close> returns with the tasks that serve them. The locks of the source make the
  guarded part one step; the keys it reads before are fixed at construction.
  The lemmas: what a send leaves on the wire, which frames parse and are delivered, and the history
  of a listener.
\<close>

section \<open>Frames\<close>

definition MAX_CONNECTIONS :: nat where "MAX_CONNECTIONS = 128"
definition MAX_PACKET_SIZE :: nat where "MAX_PACKET_SIZE = 8192"

definition PACKET_TYPE_DKG :: u8 where "PACKET_TYPE_DKG = 1"
definition PACKET_TYPE_PBFT :: u8 where "PACKET_TYPE_PBFT = 2"
definition PACKET_TYPE_VC :: u8 where "PACKET_TYPE_VC = 3"

datatype net_error =
    READ_FAILED
  | INVALID_PACKET_SIZE
  | DKG_DECODE_ERR dkg_error
  | PBFT_DECODE_ERR decode_error
  | VC_DECODE_ERR decode_error
  | CONSENSUS_STATE_NOT_INITIALIZED
  | SENDER_NOT_REGISTERED
  | SIGNATURE_REJECTED
  | LOCAL_SECRET_KEY_NOT_SET
  | HANDLER_ERR pbft_error
  | UNKNOWN_PACKET_TYPE

text \<open>What \<open>send_framed_message\<close> writes to the stream; the length is cast to 32 bits.\<close>

definition frame :: "u8 \<Rightarrow> bytes \<Rightarrow> bytes" where
  "frame packet_type payload =
     u32_to_be_bytes (word_of_nat (length payload + 1)) @ [packet_type] @ payload"

text \<open>\<open>read_exact\<close> on a stream.\<close>

definition read_exact :: "nat \<Rightarrow> bytes \<Rightarrow> (net_error, bytes \<times> bytes) result" where
  "read_exact n stream =
     (if length stream < n then Err READ_FAILED else Ok (take n stream, drop n stream))"

definition parse_frame :: "bytes \<Rightarrow> (net_error, u8 \<times> bytes) result" where
  "parse_frame stream =
     (case read_exact 4 stream of
        Err e \<Rightarrow> Err e
      | Ok (len_bytes, stream1) \<Rightarrow>
          (let len = unat (u32_from_be_bytes len_bytes) in
           if MAX_PACKET_SIZE < len \<or> len < 2 then Err INVALID_PACKET_SIZE
           else case read_exact 1 stream1 of
             Err e \<Rightarrow> Err e
           | Ok (type_buf, stream2) \<Rightarrow>
               (case read_exact (len - 1) stream2 of
                  Err e \<Rightarrow> Err e
                | Ok (payload, _) \<Rightarrow> Ok (hd type_buf, payload))))"

section \<open>Sending\<close>

datatype send_error = CONNECT_FAILED | WRITE_LEN_FAILED | WRITE_TYPE_FAILED | WRITE_PAYLOAD_FAILED | FLUSH_FAILED

text \<open>The outcomes of the calls on the socket; a failed write leaves some prefix of its bytes.\<close>

record send_io =
  s_connect :: bool
  s_len :: "nat option"
  s_type :: "nat option"
  s_payload :: "nat option"
  s_flush :: bool

definition send_framed_message :: "send_io \<Rightarrow> u8 \<Rightarrow> bytes \<Rightarrow> (send_error, unit) result \<times> bytes" where
  "send_framed_message io packet_type payload =
     (if \<not> s_connect io then (Err CONNECT_FAILED, [])
      else
        let len_bytes = u32_to_be_bytes (word_of_nat (length payload + 1)) in
        case s_len io of Some n \<Rightarrow> (Err WRITE_LEN_FAILED, take n len_bytes)
        | None \<Rightarrow>
       (case s_type io of Some n \<Rightarrow> (Err WRITE_TYPE_FAILED, len_bytes @ take n [packet_type])
        | None \<Rightarrow>
       (case s_payload io of Some n \<Rightarrow> (Err WRITE_PAYLOAD_FAILED, len_bytes @ [packet_type] @ take n payload)
        | None \<Rightarrow>
          (if s_flush io then Ok () else Err FLUSH_FAILED, len_bytes @ [packet_type] @ payload))))"

section \<open>Broadcast\<close>

text \<open>\<open>broadcast_message\<close>: a send to every peer but the node itself. For each peer: its address, the
  result the function returns for it, and the bytes that reach the connection.\<close>

definition broadcast_message ::
  "(u32 \<Rightarrow> send_io) \<Rightarrow> (u32, 'addr) fmap \<Rightarrow> u32 \<Rightarrow> u8 \<Rightarrow> bytes \<Rightarrow>
    (u32 \<times> 'addr \<times> (send_error, unit) result \<times> bytes) list" where
  "broadcast_message io peers self_id packet_type payload =
     map (\<lambda>(peer_id, addr). (peer_id, addr, send_framed_message (io peer_id) packet_type payload))
       (filter (\<lambda>(peer_id, addr). peer_id \<noteq> self_id) (hm_items peers))"

text \<open>The task over the messages it receives; it drops the results. The outcomes are given per message
  and peer.\<close>

definition spawn_outbound_broadcaster ::
  "('s, 'g1, 'g2, 'gt) bls \<Rightarrow> (nat \<Rightarrow> u32 \<Rightarrow> send_io) \<Rightarrow> u32 \<Rightarrow> (u32, 'addr) fmap \<Rightarrow>
    'g1 pbft_message list \<Rightarrow> (u32 \<times> 'addr \<times> (send_error, unit) result \<times> bytes) list" where
  "spawn_outbound_broadcaster C io self_id peers rx =
     concat (map (\<lambda>(k, msg). broadcast_message (io k) peers self_id PACKET_TYPE_PBFT (pm_to_bytes C msg))
       (enumerate 0 rx))"

section \<open>Connections\<close>

text \<open>The node's own vote on the value of a message.\<close>

definition own_vote ::
  "('s, 'g1, 'g2, 'gt) bls \<Rightarrow> 's \<Rightarrow> u32 \<Rightarrow> phase \<Rightarrow> 'g1 pbft_message \<Rightarrow> 'g1 pbft_message" where
  "own_vote C sk self_id ph msg =
     \<lparr>pm_phase = ph, pm_view = pm_view msg, pm_seq = pm_seq msg, pm_digest = pm_digest msg,
      pm_sender_id = self_id,
      pm_signature = sign_bls_message C
        (canonical_msg (phase_u8 ph) (pm_view msg) (pm_seq msg) (pm_digest msg)) sk\<rparr>"

text \<open>\<open>outgoing_msg\<close>, from the state after the message was handled.\<close>

definition outgoing ::
  "('s, 'g1, 'g2, 'gt) bls \<Rightarrow> 's \<Rightarrow> u32 \<Rightarrow> 'g1 pbft_message \<Rightarrow> ('g1, 'g2) pbft_state \<Rightarrow>
    'g1 pbft_message option" where
  "outgoing C sk self_id msg st =
     (case pm_phase msg of
        PrePrepare \<Rightarrow> Some (own_vote C sk self_id Prepare msg)
      | Prepare \<Rightarrow>
          (if hm_contains (prepared_certificates (st_core st)) (pm_view msg, pm_seq msg)
           then Some (own_vote C sk self_id Commit msg) else None)
      | _ \<Rightarrow> None)"

text \<open>The state a connection works on, and what it sends on the two channels.\<close>

record ('s, 'g1, 'g2) endpoint =
  e_state :: "('g1, 'g2) pbft_state option"
  e_sk :: "'s option"
  e_tx_pbft :: "'g1 pbft_message list"
  e_tx_dkg :: "('s, 'g1, 'g2) dkg_share_message list"

definition on_pbft_packet ::
  "('s::field, 'g1::ab_group_add, 'g2, 'gt) bls \<Rightarrow> handler_io \<Rightarrow> u32 \<Rightarrow> 'g1 pbft_message \<Rightarrow>
    ('s, 'g1, 'g2) endpoint \<Rightarrow> (net_error, unit) result \<times> ('s, 'g1, 'g2) endpoint" where
  "on_pbft_packet C io self_id msg ep =
     (case e_state ep of
        None \<Rightarrow> (Err CONSENSUS_STATE_NOT_INITIALIZED, ep)
      | Some st \<Rightarrow>
          (case fmlookup (public_keys (st_config st)) (pm_sender_id msg) of
             None \<Rightarrow> (Err SENDER_NOT_REGISTERED, ep)
           | Some pk \<Rightarrow>
               if \<not> verify_bls_signature C (pm_canonical msg) (pm_signature msg) pk then
                 (Err SIGNATURE_REJECTED, ep)
               else case e_sk ep of
                 None \<Rightarrow> (Err LOCAL_SECRET_KEY_NOT_SET, ep)
               | Some sk \<Rightarrow>
                   (case handle_message C io msg st of
                      (Err e, st') \<Rightarrow> (Err (HANDLER_ERR e), ep\<lparr>e_state := Some st'\<rparr>)
                    | (Ok _, st') \<Rightarrow>
                        (Ok (), ep\<lparr>e_state := Some st',
                           e_tx_pbft := e_tx_pbft ep @
                             (case outgoing C sk self_id msg st' of
                                None \<Rightarrow> [] | Some out \<Rightarrow> [out])\<rparr>))))"

definition on_vc_packet ::
  "('s::field, 'g1::ab_group_add, 'g2, 'gt) bls \<Rightarrow> 'g1 view_change_payload \<Rightarrow>
    ('s, 'g1, 'g2) endpoint \<Rightarrow> (net_error, unit) result" where
  "on_vc_packet C payload ep =
     (case e_state ep of
        None \<Rightarrow> Err CONSENSUS_STATE_NOT_INITIALIZED
      | Some st \<Rightarrow>
          (case fmlookup (public_keys (st_config st)) (vc_sender_id payload) of
             None \<Rightarrow> Err SENDER_NOT_REGISTERED
           | Some pk \<Rightarrow>
               if \<not> verify_bls_signature C (vc_canonical_bytes payload) (vc_signature payload) pk
               then Err SIGNATURE_REJECTED
               else case handle_view_change_payload C payload st of
                 Err e \<Rightarrow> Err (HANDLER_ERR e)
               | Ok _ \<Rightarrow> Ok ()))"

definition handle_connection ::
  "('s::field, 'g1::ab_group_add, 'g2, 'gt) bls \<Rightarrow> handler_io \<Rightarrow> u32 \<Rightarrow> bytes \<Rightarrow>
    ('s, 'g1, 'g2) endpoint \<Rightarrow> (net_error, unit) result \<times> ('s, 'g1, 'g2) endpoint" where
  "handle_connection C io self_id stream ep =
     (case parse_frame stream of
        Err e \<Rightarrow> (Err e, ep)
      | Ok (packet_type, payload) \<Rightarrow>
          (if packet_type = PACKET_TYPE_DKG then
             (case dkg_from_bytes C payload of
                Err e \<Rightarrow> (Err (DKG_DECODE_ERR e), ep)
              | Ok dkg_msg \<Rightarrow> (Ok (), ep\<lparr>e_tx_dkg := e_tx_dkg ep @ [dkg_msg]\<rparr>))
           else if packet_type = PACKET_TYPE_PBFT then
             (case pm_from_bytes C payload of
                Err e \<Rightarrow> (Err (PBFT_DECODE_ERR e), ep)
              | Ok msg \<Rightarrow> on_pbft_packet C io self_id msg ep)
           else if packet_type = PACKET_TYPE_VC then
             (case vc_from_bytes C payload of
                Err e \<Rightarrow> (Err (VC_DECODE_ERR e), ep)
              | Ok payload_vc \<Rightarrow> (on_vc_packet C payload_vc ep, ep))
           else (Err UNKNOWN_PACKET_TYPE, ep)))"

section \<open>The listener\<close>

datatype listen_error = BIND_FAILED | ACCEPT_FAILED

datatype admission = Admitted | REJECTED_UNAUTHORIZED_IP | DROP_OVERLOAD

text \<open>One \<open>accept\<close>: the address filter, then a permit of the semaphore; the number of permits
  taken so far.\<close>

definition admit :: "'ip fset \<Rightarrow> 'ip \<Rightarrow> nat \<Rightarrow> admission \<times> nat" where
  "admit allowed_ips ip active =
     (if ip |\<notin>| allowed_ips then (REJECTED_UNAUTHORIZED_IP, active)
      else if active < MAX_CONNECTIONS then (Admitted, Suc active)
      else (DROP_OVERLOAD, active))"

text \<open>A listener: the state its connections share, the streams of the connections that hold a permit,
  and the error with which \<open>start_tcp_listener\<close> has returned. Connections that were spawned outlive it.\<close>

record ('s, 'g1, 'g2) server =
  sv_endpoint :: "('s, 'g1, 'g2) endpoint"
  sv_open :: "bytes list"
  sv_error :: "listen_error option"

text \<open>What happens to a listener: \<open>accept\<close> returns a connection and its stream, or fails; the task of the
  \<open>k\<close>-th open connection runs and returns its permit.\<close>

datatype 'ip listener_event =
    Accept 'ip bytes
  | Accept_Failed
  | Serve nat handler_io

fun listener_step ::
  "('s::field, 'g1::ab_group_add, 'g2, 'gt) bls \<times> u32 \<times> 'ip fset \<Rightarrow> 'ip listener_event \<Rightarrow>
    ('s, 'g1, 'g2) server \<Rightarrow> ('s, 'g1, 'g2) server" where
  "listener_step (C, self_id, allowed_ips) (Accept ip stream) sv =
     (if sv_error sv \<noteq> None then sv
      else case admit allowed_ips ip (length (sv_open sv)) of
        (Admitted, _) \<Rightarrow> sv\<lparr>sv_open := sv_open sv @ [stream]\<rparr>
      | (REJECTED_UNAUTHORIZED_IP, _) \<Rightarrow> sv
      | (DROP_OVERLOAD, _) \<Rightarrow> sv)"
| "listener_step (C, self_id, allowed_ips) Accept_Failed sv =
     (if sv_error sv \<noteq> None then sv else sv\<lparr>sv_error := Some ACCEPT_FAILED\<rparr>)"
| "listener_step (C, self_id, allowed_ips) (Serve k io) sv =
     (if k < length (sv_open sv)
      then sv\<lparr>sv_endpoint := snd (handle_connection C io self_id (sv_open sv ! k) (sv_endpoint sv)),
              sv_open := take k (sv_open sv) @ drop (Suc k) (sv_open sv)\<rparr>
      else sv)"

definition start_tcp_listener ::
  "('s::field, 'g1::ab_group_add, 'g2, 'gt) bls \<Rightarrow> bool \<Rightarrow> u32 \<Rightarrow> ('addr \<Rightarrow> 'ip) \<Rightarrow> (u32, 'addr) fmap \<Rightarrow>
    'ip listener_event list \<Rightarrow> ('s, 'g1, 'g2) endpoint \<Rightarrow> ('s, 'g1, 'g2) server" where
  "start_tcp_listener C bind_ok self_id ip peer_map events ep =
     (if \<not> bind_ok then \<lparr>sv_endpoint = ep, sv_open = [], sv_error = Some BIND_FAILED\<rparr>
      else fold (listener_step (C, self_id, ip |`| fmran peer_map)) events
             \<lparr>sv_endpoint = ep, sv_open = [], sv_error = None\<rparr>)"

interpretation listener: step_system listener_step "\<lambda>_ sv. length (sv_open sv) \<le> MAX_CONNECTIONS"
proof
  fix c :: "('s::field, 'g1::ab_group_add, 'g2, 'gt) bls \<times> u32 \<times> 'ip fset" and ev
    and sv :: "('s, 'g1, 'g2) server"
  assume "length (sv_open sv) \<le> MAX_CONNECTIONS"
  then show "length (sv_open (listener_step c ev sv)) \<le> MAX_CONNECTIONS"
    by (cases c; cases ev) (auto simp: admit_def)
qed

section \<open>Correctness of the transport\<close>

lemma parse_frame_frame:
  assumes "payload \<noteq> []" "length payload < 8192"
  shows "parse_frame (frame t payload @ rest) = Ok (t, payload)"
proof -
  have len: "unat (word_of_nat (Suc (length payload)) :: u32) = Suc (length payload)"
    using assms(2) by (subst unat_of_nat) simp
  have "2 \<le> Suc (length payload)" using assms(1) by (cases payload) simp_all
  then show ?thesis
    using assms len
    by (simp add: parse_frame_def frame_def read_exact_def Let_def MAX_PACKET_SIZE_def)
qed

text \<open>A send that succeeds writes the frame; one that fails writes a prefix of it, the whole of it
  only when the flush fails.\<close>

lemma send_framed_message_bytes:
  "fst (send_framed_message io t payload) = Ok () \<Longrightarrow> snd (send_framed_message io t payload) = frame t payload"
  "\<exists>n. snd (send_framed_message io t payload) = take n (frame t payload)"
proof -
  show "fst (send_framed_message io t payload) = Ok () \<Longrightarrow>
      snd (send_framed_message io t payload) = frame t payload"
    by (auto simp: send_framed_message_def frame_def Let_def split: if_splits option.splits)
  let ?l = "u32_to_be_bytes (word_of_nat (length payload + 1))"
  have "take n ?l = take (min n 4) (frame t payload)"
    "?l @ take n [t] = take (4 + min n 1) (frame t payload)"
    "?l @ [t] @ take n payload = take (5 + n) (frame t payload)"
    "?l @ [t] @ payload = take (length (frame t payload)) (frame t payload)"
    "[] = take 0 (frame t payload)" for n
    by (auto simp: frame_def min_def take_Cons' le_Suc_eq)
  then show "\<exists>n. snd (send_framed_message io t payload) = take n (frame t payload)"
    unfolding send_framed_message_def Let_def
    by (auto split: option.splits simp del: take_0 take_append) (metis take_all order_refl)+
qed

text \<open>A prefix of a frame is a frame only when it is the whole.\<close>

lemma parse_frame_prefix:
  assumes "length payload < 8192" and ok: "parse_frame (take n (frame t payload)) = Ok (t', p)"
  shows "t' = t \<and> p = payload"
proof -
  have len: "unat (word_of_nat (Suc (length payload)) :: u32) = Suc (length payload)"
    using assms(1) by (subst unat_of_nat) simp
  show ?thesis
    using ok len unfolding parse_frame_def frame_def read_exact_def Let_def
    by (auto simp: take_Cons' split: if_splits sum.splits)
qed

lemma broadcast_targets:
  "(i, addr, res, bs) \<in> set (broadcast_message io peers self_id t payload) \<longleftrightarrow>
    i \<noteq> self_id \<and> fmlookup peers i = Some addr \<and> (res, bs) = send_framed_message (io i) t payload"
  by (auto simp: broadcast_message_def set_hm_items image_iff)

lemma broadcaster_targets:
  "(i, addr, res, bs) \<in> set (spawn_outbound_broadcaster C io self_id peers rx) \<longleftrightarrow>
    i \<noteq> self_id \<and> fmlookup peers i = Some addr \<and>
    (\<exists>k<length rx. (res, bs) = send_framed_message (io k i) PACKET_TYPE_PBFT (pm_to_bytes C (rx ! k)))"
  by (force simp: spawn_outbound_broadcaster_def broadcast_targets in_set_enumerate_eq)

definition send_io_ok :: send_io where
  "send_io_ok = \<lparr>s_connect = True, s_len = None, s_type = None, s_payload = None, s_flush = True\<rparr>"

lemma send_io_ok [simp]: "send_framed_message send_io_ok t payload = (Ok (), frame t payload)"
  by (simp add: send_framed_message_def send_io_ok_def frame_def)

text \<open>A framed consensus message reaches the handler as it was sent.\<close>

lemma parse_sendable:
  assumes "pm_sendable C msg"
  shows "parse_frame (frame PACKET_TYPE_PBFT (pm_to_bytes C msg)) = Ok (PACKET_TYPE_PBFT, pm_to_bytes C msg)"
  using parse_frame_frame [of "pm_to_bytes C msg" PACKET_TYPE_PBFT "[]"] length_sendable [OF assms]
  by (auto simp flip: length_0_conv)

lemma handle_connection_sendable:
  assumes "pm_sendable C msg"
  shows "handle_connection C io self_id (frame PACKET_TYPE_PBFT (pm_to_bytes C msg)) ep =
    on_pbft_packet C io self_id msg ep"
  using parse_sendable [OF assms] decode_sendable [OF assms, of "[]"]
  by (simp add: handle_connection_def PACKET_TYPE_DKG_def PACKET_TYPE_PBFT_def)

lemma handle_connection_pbft:
  "g1_codec_laws C \<Longrightarrow> pm_wf msg \<Longrightarrow>
    handle_connection C io self_id (frame PACKET_TYPE_PBFT (pm_to_bytes C msg)) ep =
      on_pbft_packet C io self_id msg ep"
  by (rule handle_connection_sendable [OF pm_sendableI])

text \<open>A framed message that the replica accepts is answered by the vote it calls for.\<close>

lemma delivered_message_is_handled:
  assumes C: "g1_codec_laws C" and msg: "pm_wf msg"
    and ep: "e_state ep = Some st" "e_sk ep = Some sk"
    and ok: "handle_message C io msg st = (Ok r, st')" "r \<noteq> CHECKPOINT_OBSOLETE"
  shows "handle_connection C io self_id (frame PACKET_TYPE_PBFT (pm_to_bytes C msg)) ep =
    (Ok (), ep\<lparr>e_state := Some st',
       e_tx_pbft := e_tx_pbft ep @ (case outgoing C sk self_id msg st' of None \<Rightarrow> [] | Some out \<Rightarrow> [out])\<rparr>)"
proof -
  have "admissible C msg st" by (rule handle_message_Ok(1) [OF ok])
  then obtain pk where "fmlookup (public_keys (st_config st)) (pm_sender_id msg) = Some pk"
    "verify_bls_signature C (pm_canonical msg) (pm_signature msg) pk"
    by (auto simp: admissible_def vote_auth_def)
  then show ?thesis by (simp add: handle_connection_pbft [OF C msg] on_pbft_packet_def ep ok(1))
qed

lemma handle_connection_dkg:
  assumes C: "dkg_encodable C m" and n: "length (ds_commitments m) \<le> 84"
  shows "handle_connection C io self_id (frame PACKET_TYPE_DKG (dkg_to_bytes C m)) ep =
    (Ok (), ep\<lparr>e_tx_dkg := e_tx_dkg ep @ [m]\<rparr>)"
proof -
  have len: "length (dkg_to_bytes C m) = 88 + 96 * length (ds_commitments m)"
    by (rule length_dkg_to_bytes [OF C])
  have "parse_frame (frame PACKET_TYPE_DKG (dkg_to_bytes C m) @ []) =
      Ok (PACKET_TYPE_DKG, dkg_to_bytes C m)"
    using len n by (intro parse_frame_frame) auto
  then show ?thesis by (simp add: handle_connection_def dkg_decode_encode [OF C])
qed

text \<open>Of a send that broke off, nothing is delivered.\<close>

lemma handle_connection_dkg_prefix:
  assumes C: "dkg_encodable C m" and n: "length (ds_commitments m) \<le> 84"
  shows "snd (handle_connection C io self_id (take k (frame PACKET_TYPE_DKG (dkg_to_bytes C m))) ep) = ep \<or>
    snd (handle_connection C io self_id (take k (frame PACKET_TYPE_DKG (dkg_to_bytes C m))) ep) =
      ep\<lparr>e_tx_dkg := e_tx_dkg ep @ [m]\<rparr>"
proof (cases "parse_frame (take k (frame PACKET_TYPE_DKG (dkg_to_bytes C m)))")
  case (Inl e)
  then show ?thesis by (simp add: handle_connection_def)
next
  case (Inr r)
  obtain t p where r: "r = (t, p)" by fastforce
  have "length (dkg_to_bytes C m) < 8192" using n by (simp add: length_dkg_to_bytes [OF C])
  from parse_frame_prefix [OF this] Inr r have "t = PACKET_TYPE_DKG \<and> p = dkg_to_bytes C m" by simp
  then show ?thesis using Inr r by (simp add: handle_connection_def dkg_decode_encode [OF C])
qed

lemma dkg_packet_too_large:
  assumes C: "dkg_encodable C m" and n: "85 \<le> length (ds_commitments m)"
    "length (ds_commitments m) < 2 ^ 24"
  shows "handle_connection C io self_id (frame PACKET_TYPE_DKG (dkg_to_bytes C m)) ep =
    (Err INVALID_PACKET_SIZE, ep)"
proof -
  have len: "length (dkg_to_bytes C m) = 88 + 96 * length (ds_commitments m)"
    by (rule length_dkg_to_bytes [OF C])
  have "unat (word_of_nat (Suc (length (dkg_to_bytes C m))) :: u32) =
      Suc (length (dkg_to_bytes C m))"
    using n by (subst unat_of_nat) (simp add: len)
  then show ?thesis
    using n len by (simp add: handle_connection_def parse_frame_def frame_def read_exact_def
        Let_def MAX_PACKET_SIZE_def)
qed

section \<open>What the listener serves\<close>

fun admissible_streams :: "'ip fset \<Rightarrow> 'ip listener_event list \<Rightarrow> bytes list" where
  "admissible_streams allowed [] = []"
| "admissible_streams allowed (Accept ip stream # evs) =
     (if ip |\<in>| allowed then stream # admissible_streams allowed evs else admissible_streams allowed evs)"
| "admissible_streams allowed (_ # evs) = admissible_streams allowed evs"

abbreviation serve_all ::
  "('s::field, 'g1::ab_group_add, 'g2, 'gt) bls \<Rightarrow> u32 \<Rightarrow> (handler_io \<times> bytes) list \<Rightarrow>
    ('s, 'g1, 'g2) endpoint \<Rightarrow> ('s, 'g1, 'g2) endpoint" where
  "serve_all C self_id served ep \<equiv>
     fold (\<lambda>(io, stream) ep. snd (handle_connection C io self_id stream ep)) served ep"

lemma mset_remove_nth:
  "k < length xs \<Longrightarrow> mset xs = add_mset (xs ! k) (mset (take k xs @ drop (Suc k) xs))"
  by (subst (1) id_take_nth_drop [of k xs]) simp_all

lemma listener_history:
  "\<exists>served lost. sv_endpoint (fold (listener_step (C, self_id, allowed)) evs sv) =
       serve_all C self_id served (sv_endpoint sv) \<and>
     mset (sv_open sv) + mset (admissible_streams allowed evs) =
       mset (map snd served) + mset (sv_open (fold (listener_step (C, self_id, allowed)) evs sv)) + lost \<and>
     (lost = {#} \<or> sv_error sv \<noteq> None \<or> Accept_Failed \<in> set evs \<or>
        MAX_CONNECTIONS < length (sv_open sv) + length (admissible_streams allowed evs))"
proof (induction evs arbitrary: sv)
  case Nil
  show ?case by (intro exI [of _ "[]"] exI [of _ "{#}"]) simp
next
  case (Cons ev evs)
  let ?sv = "listener_step (C, self_id, allowed) ev sv"
  obtain served lost where IH:
    "sv_endpoint (fold (listener_step (C, self_id, allowed)) evs ?sv) = serve_all C self_id served (sv_endpoint ?sv)"
    "mset (sv_open ?sv) + mset (admissible_streams allowed evs) =
       mset (map snd served) + mset (sv_open (fold (listener_step (C, self_id, allowed)) evs ?sv)) + lost"
    "lost = {#} \<or> sv_error ?sv \<noteq> None \<or> Accept_Failed \<in> set evs \<or>
       MAX_CONNECTIONS < length (sv_open ?sv) + length (admissible_streams allowed evs)"
    using Cons.IH [of ?sv] by blast
  show ?case
  proof (cases ev)
    case (Accept ip stream)
    show ?thesis
    proof (cases "sv_error sv = None \<and> ip |\<in>| allowed \<and> length (sv_open sv) < MAX_CONNECTIONS")
      case True
      then have "?sv = sv\<lparr>sv_open := sv_open sv @ [stream]\<rparr>" by (simp add: Accept admit_def)
      then show ?thesis using IH True by (intro exI [of _ served] exI [of _ lost]) (simp add: Accept)
    next
      case False
      then have same: "?sv = sv" by (auto simp: Accept admit_def)
      show ?thesis
      proof (cases "ip |\<in>| allowed")
        case True
        then show ?thesis using IH False unfolding fold_simps same
          by (intro exI [of _ served] exI [of _ "add_mset stream lost"]) (auto simp: Accept)
      next
        case False
        then show ?thesis using IH unfolding fold_simps same
          by (intro exI [of _ served] exI [of _ lost]) (auto simp: Accept)
      qed
    qed
  next
    case Accept_Failed
    then show ?thesis using IH by (intro exI [of _ served] exI [of _ lost]) (auto split: if_splits)
  next
    case (Serve k io)
    show ?thesis
    proof (cases "k < length (sv_open sv)")
      case True
      define sv' where "sv' = listener_step (C, self_id, allowed) ev sv"
      have sv': "sv_endpoint sv' = snd (handle_connection C io self_id (sv_open sv ! k) (sv_endpoint sv))"
        "mset (sv_open sv) = add_mset (sv_open sv ! k) (mset (sv_open sv'))"
        "length (sv_open sv') \<le> length (sv_open sv)" "sv_error sv' = sv_error sv"
        using True mset_remove_nth [OF True] by (simp_all add: Serve sv'_def)
      have adm: "admissible_streams allowed (ev # evs) = admissible_streams allowed evs"
        "Accept_Failed \<in> set (ev # evs) \<longleftrightarrow> Accept_Failed \<in> set evs"
        by (simp_all add: Serve)
      show ?thesis
        unfolding fold_simps adm sv'_def [symmetric]
        using IH(3) sv'(3,4) unfolding sv'_def [symmetric]
        by (intro exI [of _ "(io, sv_open sv ! k) # served"] exI [of _ lost])
          (use IH(1,2) [folded sv'_def] sv'(1,2) in auto)
    next
      case False
      then show ?thesis using IH by (intro exI [of _ served] exI [of _ lost]) (simp add: Serve)
    qed
  qed
qed

end
