(* ===== verification/Bootstrap.thy ===== *)
theory Bootstrap
  imports Pbft_Safety Network
begin

text \<open>
  The start of a node in \<open>main.rs\<close>: the shares it sends, the loop that collects the shares of the
  other nodes until it has enough or the deadline passes, and the registry of public keys it
  computes before it constructs the replica. The receiver channel is a list of events. The
  environment is in \<open>Launch\<close>, the process around the start in \<open>Node\<close>; log lines are not modelled.
  The lemmas lead to the end-to-end statement about honest nodes: the registry holds, for every
  node, the public key of the final share of that node, and the master key belongs to the same
  polynomial, so quorums of valid votes always make valid certificates.
\<close>

section \<open>Sending and collecting\<close>

record node_config =
  nc_node_id :: u32
  nc_total_nodes :: usize
  nc_threshold :: usize

definition peer_ids :: "node_config \<Rightarrow> u32 list" where
  "peer_ids cfg = map word_of_nat [0..<unat (ucast (nc_total_nodes cfg) :: u32)]"

text \<open>The signed message of a dealer to one peer.\<close>

definition dealer_message ::
  "('s::field, 'g1, 'g2::ab_group_add, 'gt) bls \<Rightarrow> 'g1 \<Rightarrow> ('s, 'g2) dkg_session \<Rightarrow> 's \<Rightarrow> u32 \<Rightarrow>
    ('s, 'g1, 'g2) dkg_share_message" where
  "dealer_message C identity ses dealer_sk peer_id =
     (let msg = \<lparr>ds_from_node = dk_node_id ses, ds_to_node = peer_id,
                 ds_share = evaluate_share_for C ses peer_id,
                 ds_commitments = generate_commitments C ses, ds_signature = identity\<rparr>
      in msg\<lparr>ds_signature := sign_bls_message C (dkg_canonical_bytes C msg) dealer_sk\<rparr>)"

definition dealer_sends ::
  "('s::field, 'g1::ab_group_add, 'g2::ab_group_add, 'gt) bls \<Rightarrow> node_config \<Rightarrow>
    ('s, 'g2) dkg_session \<Rightarrow> 's \<Rightarrow> (u32 \<times> bytes) list" where
  "dealer_sends C cfg ses dealer_sk =
     map (\<lambda>peer_id. (peer_id,
            frame PACKET_TYPE_DKG (dkg_to_bytes C (dealer_message C 0 ses dealer_sk peer_id))))
       (filter (\<lambda>peer_id. peer_id \<noteq> nc_node_id cfg) (peer_ids cfg))"

datatype ('s, 'g1, 'g2) inbound =
    Share "('s, 'g1, 'g2) dkg_share_message"
  | Deadline
  | Channel_Closed

datatype boot_error =
    FATAL_DKG_TIMEOUT "u32 list"
  | FATAL_DKG_CHANNEL_CLOSED
  | DKG_ERR dkg_error
  | PBFT_ERR pbft_error
  | STILL_WAITING \<comment> \<open>the events are used up and the loop has not ended\<close>

record ('s, 'g2) collection =
  co_session :: "('s, 'g2) dkg_session"
  co_peers :: "(u32, 'g2 list) fmap"

definition collect_share ::
  "('s::field, 'g1, 'g2::ab_group_add, 'gt) bls \<Rightarrow> node_config \<Rightarrow> ('s, 'g1, 'g2) dkg_share_message \<Rightarrow>
    ('s, 'g2) collection \<Rightarrow> ('s, 'g2) collection" where
  "collect_share C cfg msg co =
     (if ds_to_node msg = nc_node_id cfg \<and> \<not> hm_contains (co_peers co) (ds_from_node msg) then
        if \<not> dkg_verify_signature C msg then co
        else case process_incoming_share C (ds_from_node msg) (ds_share msg) (ds_commitments msg)
                    (co_session co) of
               (Ok _, ses) \<Rightarrow>
                 \<lparr>co_session = ses,
                  co_peers = fmupd (ds_from_node msg) (ds_commitments msg) (co_peers co)\<rparr>
             | (Err _, ses) \<Rightarrow> co\<lparr>co_session := ses\<rparr>
      else co)"

definition missing_peers :: "node_config \<Rightarrow> ('s, 'g2) collection \<Rightarrow> u32 list" where
  "missing_peers cfg co =
     filter (\<lambda>i. i \<noteq> nc_node_id cfg \<and> \<not> hm_contains (co_peers co) i) (peer_ids cfg)"

fun collect_loop ::
  "('s::field, 'g1, 'g2::ab_group_add, 'gt) bls \<Rightarrow> node_config \<Rightarrow> ('s, 'g1, 'g2) inbound list \<Rightarrow>
    ('s, 'g2) collection \<Rightarrow> (boot_error, ('s, 'g2) collection) result" where
  "collect_loop C cfg events co =
     (if unat (nc_total_nodes cfg - 1) \<le> hm_len (co_peers co) then Ok co
      else case events of
        [] \<Rightarrow> Err STILL_WAITING
      | Share msg # rest \<Rightarrow> collect_loop C cfg rest (collect_share C cfg msg co)
      | Deadline # _ \<Rightarrow> Err (FATAL_DKG_TIMEOUT (missing_peers cfg co))
      | Channel_Closed # _ \<Rightarrow> Err FATAL_DKG_CHANNEL_CLOSED)"

declare collect_loop.simps [simp del]

section \<open>The registry\<close>

text \<open>The loop over the collected commitments, skipping the node's own identifier.\<close>

fun add_peer_keys ::
  "('s::field, 'g1, 'g2::ab_group_add, 'gt) bls \<Rightarrow> u32 \<Rightarrow> 's \<Rightarrow> (u32 \<times> 'g2 list) list \<Rightarrow> 'g2 \<Rightarrow> 'g2" where
  "add_peer_keys C self_id x [] sum_pk = sum_pk"
| "add_peer_keys C self_id x ((peer_id, commits) # rest) sum_pk =
     (if peer_id = self_id then add_peer_keys C self_id x rest sum_pk
      else add_peer_keys C self_id x rest (sum_pk + commit_loop C commits x 0 1))"

definition node_public_key ::
  "('s::field, 'g1, 'g2::ab_group_add, 'gt) bls \<Rightarrow> node_config \<Rightarrow> ('s, 'g2) collection \<Rightarrow> u32 \<Rightarrow> 'g2" where
  "node_public_key C cfg co i =
     (let x = x_coord C i;
          my_val = poly_loop (dk_secret_polynomial (co_session co)) x 0 1
      in add_peer_keys C (nc_node_id cfg) x (hm_items (co_peers co))
           (g2_mul C (g2_generator C) my_val))"

definition public_key_registry ::
  "('s::field, 'g1, 'g2::ab_group_add, 'gt) bls \<Rightarrow> node_config \<Rightarrow> ('s, 'g2) collection \<Rightarrow>
    (u32, 'g2) fmap" where
  "public_key_registry C cfg co =
     fold (\<lambda>i keys. fmupd i (node_public_key C cfg co i) keys) (peer_ids cfg) fmempty"

text \<open>After the loop: the secret share, the master key, the registry, the replica.\<close>

definition conclude ::
  "('s::field, 'g1::ab_group_add, 'g2::ab_group_add, 'gt) bls \<Rightarrow> recovery_io \<Rightarrow> node_config \<Rightarrow>
    ('s, 'g2) collection \<Rightarrow> (boot_error, 's \<times> ('g1, 'g2) pbft_state) result" where
  "conclude C io cfg co =
     (case finalize_dkg C (peer_ids cfg) (co_session co) of
        Err e \<Rightarrow> Err (DKG_ERR e)
      | Ok (my_secret_share, canonical_master_pk) \<Rightarrow>
          (case new_with_wal_path C io (nc_total_nodes cfg)
                  (public_key_registry C cfg co) canonical_master_pk of
             Err e \<Rightarrow> Err (PBFT_ERR e)
           | Ok st \<Rightarrow> Ok (my_secret_share, st)))"

definition bootstrap ::
  "('s::field, 'g1::ab_group_add, 'g2::ab_group_add, 'gt) bls \<Rightarrow> recovery_io \<Rightarrow> node_config \<Rightarrow>
    (nat \<Rightarrow> 's) \<Rightarrow> ('s, 'g1, 'g2) inbound list \<Rightarrow>
    (boot_error, 's \<times> ('g1, 'g2) pbft_state) result" where
  "bootstrap C io cfg rng events =
     (let ses = dkg_new rng (nc_node_id cfg) (nc_threshold cfg) (nc_total_nodes cfg) in
      case dealer_secret_key ses of
        Err e \<Rightarrow> Err (DKG_ERR e)
      | Ok dealer_sk \<Rightarrow>
          (case collect_loop C cfg events \<lparr>co_session = ses, co_peers = fmempty\<rparr> of
             Err e \<Rightarrow> Err e
           | Ok co \<Rightarrow> conclude C io cfg co))"

section \<open>The identifiers\<close>

lemma peer_ids_iff: "i \<in> set (peer_ids cfg) \<longleftrightarrow> unat i < unat (ucast (nc_total_nodes cfg) :: u32)"
proof
  assume "unat i < unat (ucast (nc_total_nodes cfg) :: u32)"
  then show "i \<in> set (peer_ids cfg)" by (auto simp: peer_ids_def intro: image_eqI [of _ _ "unat i"])
next
  assume "i \<in> set (peer_ids cfg)"
  then obtain k where k: "i = word_of_nat k" "k < unat (ucast (nc_total_nodes cfg) :: u32)"
    by (auto simp: peer_ids_def)
  have "unat (ucast (nc_total_nodes cfg) :: u32) < 2 ^ 32"
    using unsigned_less [of "ucast (nc_total_nodes cfg) :: u32"] by simp
  then have "k < 2 ^ 32" using k by linarith
  then show "unat i < unat (ucast (nc_total_nodes cfg) :: u32)" using k by (simp add: unat_of_nat)
qed

lemma distinct_peer_ids: "distinct (peer_ids cfg)"
proof -
  have "unat (ucast (nc_total_nodes cfg) :: u32) < 2 ^ 32"
    using unsigned_less [of "ucast (nc_total_nodes cfg) :: u32"] by simp
  then have "inj_on (word_of_nat :: nat \<Rightarrow> u32) {0..<unat (ucast (nc_total_nodes cfg) :: u32)}"
    by (auto simp: inj_on_def unat_of_nat dest!: arg_cong [where f = unat])
  then show ?thesis by (simp add: peer_ids_def distinct_map)
qed

section \<open>Honest dealers\<close>

text \<open>Dealer \<open>j\<close> has the polynomial \<open>P j\<close>. What the collection holds under dealer \<open>j\<close> is
  consistent with it.\<close>

definition honest_inbound ::
  "('s::field, 'g1, 'g2::ab_group_add, 'gt) bls \<Rightarrow> (u32 \<Rightarrow> 's list) \<Rightarrow>
    ('s, 'g1, 'g2) inbound \<Rightarrow> bool" where
  "honest_inbound C P ev \<longleftrightarrow>
     (case ev of Share msg \<Rightarrow> ds_commitments msg = map (g2_mul C (g2_generator C)) (P (ds_from_node msg))
               | _ \<Rightarrow> True)"

definition collection_inv ::
  "('s::field, 'g1, 'g2::ab_group_add, 'gt) bls \<Rightarrow> node_config \<Rightarrow> (u32 \<Rightarrow> 's list) \<Rightarrow>
    ('s, 'g2) collection \<Rightarrow> bool" where
  "collection_inv C cfg P co \<longleftrightarrow>
     dk_node_id (co_session co) = nc_node_id cfg \<and>
     dk_secret_polynomial (co_session co) = P (nc_node_id cfg) \<and>
     dk_threshold (co_session co) = nc_threshold cfg \<and>
     co_peers co = dk_received_commitments (co_session co) \<and>
     (\<forall>j cs. fmlookup (co_peers co) j = Some cs \<longrightarrow>
        cs = map (g2_mul C (g2_generator C)) (P j) \<and> length (P j) = unat (nc_threshold cfg) \<and>
        fmlookup (dk_received_shares (co_session co)) j =
          Some (poly_eval (P j) (x_coord C (nc_node_id cfg))))"

lemma collect_share_inv:
  assumes C: "scalar_laws C" "g2_generator_faithful C"
    and inv: "collection_inv C cfg P co" and hon: "honest_inbound C P (Share msg)"
  shows "collection_inv C cfg P (collect_share C cfg msg co)"
proof (cases "ds_to_node msg = nc_node_id cfg \<and> \<not> hm_contains (co_peers co) (ds_from_node msg) \<and>
    dkg_verify_signature C msg")
  case False
  then show ?thesis using inv by (auto simp: collect_share_def)
next
  case True
  obtain res ses where p: "process_incoming_share C (ds_from_node msg) (ds_share msg)
      (ds_commitments msg) (co_session co) = (res, ses)" by fastforce
  note ses = process_incoming_share_state [OF p]
  show ?thesis
  proof (cases res)
    case (Inl e)
    then show ?thesis using True inv ses p by (simp add: collect_share_def)
  next
    case (Inr u)
    let ?j = "ds_from_node msg"
    have cs: "ds_commitments msg = map (g2_mul C (g2_generator C)) (P ?j)"
      using hon by (simp add: honest_inbound_def)
    have "length (P ?j) = unat (nc_threshold cfg) \<and>
        ds_share msg = poly_eval (P ?j) (x_coord C (nc_node_id cfg))"
      using process_incoming_share_iff [OF C, of ?j "ds_share msg" "P ?j" "co_session co"] p Inr inv
      by (simp add: cs collection_inv_def)
    then show ?thesis
      using True inv ses p Inr cs by (auto simp: collect_share_def collection_inv_def)
  qed
qed

lemma collect_loop_inv:
  assumes C: "scalar_laws C" "g2_generator_faithful C"
  shows "collection_inv C cfg P co \<Longrightarrow> \<forall>ev\<in>set events. honest_inbound C P ev \<Longrightarrow>
    collect_loop C cfg events co = Ok co' \<Longrightarrow>
    collection_inv C cfg P co' \<and> unat (nc_total_nodes cfg - 1) \<le> hm_len (co_peers co')"
proof (induction events arbitrary: co)
  case Nil
  then show ?case by (auto simp: collect_loop.simps [of C cfg "[]"] split: if_splits)
next
  case (Cons ev events)
  show ?case
  proof (cases "unat (nc_total_nodes cfg - 1) \<le> hm_len (co_peers co)")
    case True
    then show ?thesis using Cons.prems by (simp add: collect_loop.simps [of C cfg "ev # events"])
  next
    case False
    then obtain msg where msg: "ev = Share msg"
      "collect_loop C cfg events (collect_share C cfg msg co) = Ok co'"
      using Cons.prems(3)
      by (auto simp: collect_loop.simps [of C cfg "ev # events"] split: inbound.splits)
    have "honest_inbound C P (Share msg)" using Cons.prems(2) msg(1) by simp
    from Cons.IH [OF collect_share_inv [OF C Cons.prems(1) this] _ msg(2)] Cons.prems(2)
    show ?thesis by simp
  qed
qed

section \<open>From the collected shares to the registry\<close>

text \<open>The loop ends with exactly one entry per expected peer.\<close>

lemma collect_share_len:
  "hm_len (co_peers (collect_share C cfg msg co)) \<le> Suc (hm_len (co_peers co))"
  by (auto simp: collect_share_def split: sum.splits prod.splits)

text \<open>The deadline, or the end of the channel, ends the loop whatever comes before it.\<close>

lemma collect_loop_ends:
  "Deadline \<in> set events \<or> Channel_Closed \<in> set events \<Longrightarrow>
    collect_loop C cfg events co \<noteq> Err STILL_WAITING"
proof (induction events arbitrary: co)
  case (Cons ev events)
  then show ?case
    by (subst collect_loop.simps) (auto split: inbound.splits)
qed simp

lemma bootstrap_ends:
  assumes "Deadline \<in> set events \<or> Channel_Closed \<in> set events"
  shows "bootstrap C io cfg rng events \<noteq> Err STILL_WAITING"
  using collect_loop_ends [OF assms]
  by (auto simp: bootstrap_def conclude_def Let_def split: sum.splits prod.splits)

lemma collect_loop_len:
  "collect_loop C cfg events co = Ok co' \<Longrightarrow>
    hm_len (co_peers co) \<le> unat (nc_total_nodes cfg - 1) \<Longrightarrow>
    hm_len (co_peers co') = unat (nc_total_nodes cfg - 1)"
proof (induction events arbitrary: co)
  case Nil
  then show ?case by (auto simp: collect_loop.simps [of C cfg "[]"] split: if_splits)
next
  case (Cons ev events)
  show ?case
  proof (cases "unat (nc_total_nodes cfg - 1) \<le> hm_len (co_peers co)")
    case True
    then show ?thesis using Cons.prems by (simp add: collect_loop.simps [of C cfg "ev # events"])
  next
    case False
    then obtain msg where msg: "collect_loop C cfg events (collect_share C cfg msg co) = Ok co'"
      using Cons.prems(1)
      by (auto simp: collect_loop.simps [of C cfg "ev # events"] split: inbound.splits)
    show ?thesis
      by (rule Cons.IH [OF msg]) (use False collect_share_len [of C cfg msg co] in linarith)
  qed
qed

lemma finalize_loop_complete:
  "finalize_loop ses ids fs pk = Ok r \<Longrightarrow>
    j \<in> set ids \<Longrightarrow> j \<noteq> dk_node_id ses \<Longrightarrow> fmlookup (dk_received_commitments ses) j \<noteq> None"
  by (induction ids arbitrary: fs pk) (auto split: if_splits option.splits list.splits)

lemma finalize_dkg_complete:
  "finalize_dkg C ids ses = Ok r \<Longrightarrow>
    j \<in> set ids \<Longrightarrow> j \<noteq> dk_node_id ses \<Longrightarrow> fmlookup (dk_received_commitments ses) j \<noteq> None"
  by (auto simp: finalize_dkg_def dest: finalize_loop_complete split: list.splits)

text \<open>The polynomial that the dealers share: coefficient by coefficient, the sum of theirs.\<close>

definition joint_poly :: "('i \<Rightarrow> 's::comm_ring_1 list) \<Rightarrow> 'i set \<Rightarrow> nat \<Rightarrow> 's list" where
  "joint_poly P S t = map (\<lambda>k. \<Sum>j\<in>S. P j ! k) [0..<t]"

lemma joint_poly_eval:
  assumes "\<And>j. j \<in> S \<Longrightarrow> length (P j) = t"
  shows "poly_eval (joint_poly P S t) x = (\<Sum>j\<in>S. poly_eval (P j) x)"
proof -
  have "poly_eval (joint_poly P S t) x = (\<Sum>k<t. \<Sum>j\<in>S. P j ! k * x ^ k)"
    by (simp add: poly_eval_def joint_poly_def sum_distrib_right)
  also have "\<dots> = (\<Sum>j\<in>S. \<Sum>k<t. P j ! k * x ^ k)" by (rule sum.swap)
  also have "\<dots> = (\<Sum>j\<in>S. poly_eval (P j) x)"
    by (rule sum.cong) (simp_all add: poly_eval_def assms)
  finally show ?thesis .
qed

lemma joint_poly_hd:
  assumes "0 < t" "\<And>j. j \<in> S \<Longrightarrow> length (P j) = t"
  shows "hd (joint_poly P S t) = (\<Sum>j\<in>S. hd (P j))"
proof -
  have "hd (joint_poly P S t) = (\<Sum>j\<in>S. P j ! 0)"
    using assms(1) by (simp add: joint_poly_def hd_map upt_rec)
  also have "\<dots> = (\<Sum>j\<in>S. hd (P j))"
    by (rule sum.cong) (use assms in \<open>simp_all add: hd_conv_nth length_greater_0_conv [symmetric] del: length_greater_0_conv\<close>)
  finally show ?thesis .
qed

lemma add_peer_keys_sum:
  "add_peer_keys C i x items pk =
    pk + (\<Sum>(j, cs)\<leftarrow>filter (\<lambda>(j, _). j \<noteq> i) items. commit_loop C cs x 0 1)"
  by (induction items arbitrary: pk) (auto simp: add.assoc)

lemma fold_fmupd_lookup:
  "fmlookup (fold (\<lambda>i. fmupd i (f i)) js m) i = (if i \<in> set js then Some (f i) else fmlookup m i)"
  by (induction js arbitrary: m) auto

lemma registry_lookup:
  "fmlookup (public_key_registry C cfg co) i =
    (if i \<in> set (peer_ids cfg) then Some (node_public_key C cfg co i) else None)"
  by (simp add: public_key_registry_def fold_fmupd_lookup)

text \<open>A collection that holds the commitments of all peers.\<close>

lemma peers_complete:
  assumes inv: "collection_inv C cfg P co" and n: "unat (nc_total_nodes cfg) < 2 ^ 32" "nc_total_nodes cfg \<noteq> 0"
    and len: "hm_len (co_peers co) = unat (nc_total_nodes cfg - 1)"
    and fin: "finalize_dkg C (peer_ids cfg) (co_session co) = Ok r"
  shows "nc_node_id cfg \<in> set (peer_ids cfg)"
    and "fset (fmdom (co_peers co)) = set (peer_ids cfg) - {nc_node_id cfg}"
proof -
  let ?ids = "set (peer_ids cfg)" and ?D = "fset (fmdom (co_peers co))"
  have nn: "unat (ucast (nc_total_nodes cfg) :: u32) = unat (nc_total_nodes cfg)"
    using n(1) by (simp add: unsigned_ucast_eq take_bit_nat_eq_self_iff)
  have "?ids = {i. unat i < unat (nc_total_nodes cfg)}" by (auto simp: peer_ids_iff nn)
  then have card: "card ?ids = unat (nc_total_nodes cfg)" using n(1) card_ids_below by simp
  have pred: "Suc (unat (nc_total_nodes cfg - 1)) = unat (nc_total_nodes cfg)"
    using n(2) by (simp add: unat_minus_one word_neq_0_conv unat_gt_0)
  have sub: "?ids - {nc_node_id cfg} \<subseteq> ?D"
  proof
    fix j assume "j \<in> ?ids - {nc_node_id cfg}"
    then have "fmlookup (dk_received_commitments (co_session co)) j \<noteq> None"
      using finalize_dkg_complete [OF fin] inv by (auto simp: collection_inv_def)
    then show "j \<in> ?D" using inv by (auto simp: collection_inv_def fmlookup_dom_iff)
  qed
  have D: "card ?D = unat (nc_total_nodes cfg - 1)" using len by (simp add: hm_len_def fcard.rep_eq)
  show self: "nc_node_id cfg \<in> ?ids"
  proof (rule ccontr)
    assume "nc_node_id cfg \<notin> ?ids"
    then have "?ids \<subseteq> ?D" using sub by blast
    then have "card ?ids \<le> card ?D" by (rule card_mono [OF finite_fset])
    then show False using card D pred by simp
  qed
  have "card (?ids - {nc_node_id cfg}) = card ?D" using self card D pred by simp
  then show "?D = ?ids - {nc_node_id cfg}" using card_subset_eq [OF finite_fset sub] by simp
qed

lemma node_public_key_joint:
  assumes C: "scalar_laws C" and inv: "collection_inv C cfg P co"
    and self: "nc_node_id cfg \<in> S"
    and dom: "fset (fmdom (co_peers co)) = S - {nc_node_id cfg}" and S: "finite S"
  shows "node_public_key C cfg co i =
    g2_mul C (g2_generator C) (\<Sum>j\<in>S. poly_eval (P j) (x_coord C i))"
proof -
  let ?x = "x_coord C i" and ?g = "g2_mul C (g2_generator C)"
  have item: "commit_loop C cs ?x 0 1 = ?g (poly_eval (P j) ?x)" if "(j, cs) \<in> set (hm_items (co_peers co))" for j cs
  proof -
    have "cs = map ?g (P j)" using that inv by (simp add: set_hm_items collection_inv_def)
    then show ?thesis by (simp add: commit_loop_commitments [OF C])
  qed
  have others: "j \<noteq> nc_node_id cfg" if "(j, cs) \<in> set (hm_items (co_peers co))" for j cs
  proof -
    have "j \<in> fset (fmdom (co_peers co))" using that by (auto simp: set_hm_items fmlookup_dom_iff)
    then show ?thesis using dom by auto
  qed
  have "(\<Sum>(j, cs)\<leftarrow>filter (\<lambda>(j, _). j \<noteq> nc_node_id cfg) (hm_items (co_peers co)). commit_loop C cs ?x 0 1) =
      (\<Sum>j\<leftarrow>map fst (hm_items (co_peers co)). ?g (poly_eval (P j) ?x))"
    using item others
    by (subst filter_True) (auto simp: comp_def split_def intro!: arg_cong [of _ _ sum_list] map_cong)
  also have "\<dots> = (\<Sum>j\<in>S - {nc_node_id cfg}. ?g (poly_eval (P j) ?x))"
  proof -
    have "set (map fst (hm_items (co_peers co))) = S - {nc_node_id cfg}"
      by (simp flip: dom) (force simp: set_hm_items fmlookup_dom_iff)
    then show ?thesis using sum_list_distinct_conv_sum_set [OF distinct_hm_items] by metis
  qed
  finally have *: "add_peer_keys C (nc_node_id cfg) ?x (hm_items (co_peers co)) pk =
      pk + (\<Sum>j\<in>S - {nc_node_id cfg}. ?g (poly_eval (P j) ?x))" for pk
    by (simp add: add_peer_keys_sum)
  have "?g (poly_eval (P (nc_node_id cfg)) ?x) + (\<Sum>j\<in>S - {nc_node_id cfg}. ?g (poly_eval (P j) ?x)) =
      (\<Sum>j\<in>S. ?g (poly_eval (P j) ?x))"
    by (rule sum.remove [OF S self, symmetric])
  then show ?thesis
    using inv unfolding node_public_key_def Let_def *
    by (simp add: poly_loop_eval collection_inv_def g2_mul_sum [OF C])
qed

lemma collection_holds_shares:
  assumes inv: "collection_inv C cfg P co" and dom: "fset (fmdom (co_peers co)) = set (peer_ids cfg) - {nc_node_id cfg}"
    and t: "0 < unat (nc_threshold cfg)" "length (P (nc_node_id cfg)) = unat (nc_threshold cfg)"
  shows "j \<in> set (peer_ids cfg) \<Longrightarrow> length (P j) = unat (nc_threshold cfg)"
    and "holds_shares C P (peer_ids cfg) (co_session co)"
proof -
  have peer: "\<exists>cs. fmlookup (co_peers co) j = Some cs" if "j \<in> set (peer_ids cfg)" "j \<noteq> nc_node_id cfg" for j
  proof -
    have "j \<in> fset (fmdom (co_peers co))" using that dom by simp
    then show ?thesis by (auto simp: fmlookup_dom_iff)
  qed
  show len: "length (P j) = unat (nc_threshold cfg)" if "j \<in> set (peer_ids cfg)" for j
    using peer [OF that] inv t(2) by (cases "j = nc_node_id cfg") (auto simp: collection_inv_def)
  then have "P j \<noteq> []" if "j \<in> set (peer_ids cfg)" for j using that t(1) by fastforce
  then show "holds_shares C P (peer_ids cfg) (co_session co)"
    using peer inv by (fastforce simp: holds_shares_def collection_inv_def)
qed

text \<open>The registry of a joint polynomial: the same at every node.\<close>

definition joint_registry ::
  "('s::field, 'g1, 'g2, 'gt) bls \<Rightarrow> 's list \<Rightarrow> u32 list \<Rightarrow> (u32, 'g2) fmap" where
  "joint_registry C F ids =
     fmap_of_list (map (\<lambda>i. (i, g2_mul C (g2_generator C) (poly_eval F (x_coord C i)))) ids)"

lemma joint_registry_lookup:
  "fmlookup (joint_registry C F ids) i =
    (if i \<in> set ids then Some (g2_mul C (g2_generator C) (poly_eval F (x_coord C i))) else None)"
  by (simp add: joint_registry_def fmlookup_of_list map_of_map_restrict)

lemma bootstrap_config:
  assumes C: "scalar_laws C" "g2_generator_faithful C"
    and n: "unat (nc_total_nodes cfg) < 2 ^ 32" "nc_total_nodes cfg \<noteq> 0"
    and own: "P (nc_node_id cfg) = map rng [0..<unat (nc_threshold cfg)]"
    and dealers: "\<forall>ev\<in>set events. honest_inbound C P ev"
    and ok: "bootstrap C io cfg rng events = Ok (share, st)"
  defines "F \<equiv> joint_poly P (set (peer_ids cfg)) (unat (nc_threshold cfg))"
  shows "share = poly_eval F (x_coord C (nc_node_id cfg))" "F \<noteq> []" "length F = unat (nc_threshold cfg)"
    and "new_with_wal_path C io (nc_total_nodes cfg) (joint_registry C F (peer_ids cfg))
      (g2_mul C (g2_generator C) (hd F)) = Ok st"
proof -
  let ?S = "set (peer_ids cfg)" and ?t = "unat (nc_threshold cfg)"
  define ses where "ses = (dkg_new rng (nc_node_id cfg) (nc_threshold cfg) (nc_total_nodes cfg) :: ('a, 'c) dkg_session)"
  obtain co mpk where sk: "dealer_secret_key ses \<noteq> Err PANIC_INDEX"
    and co: "collect_loop C cfg events \<lparr>co_session = ses, co_peers = fmempty\<rparr> = Ok co"
    and fin: "finalize_dkg C (peer_ids cfg) (co_session co) = Ok (share, mpk)"
    and st: "new_with_wal_path C io (nc_total_nodes cfg) (public_key_registry C cfg co) mpk = Ok st"
    using ok by (auto simp: bootstrap_def conclude_def ses_def Let_def split: sum.splits)
  have t: "0 < ?t" using sk by (auto simp: ses_def dealer_secret_key_def dkg_new_def split: list.splits
      intro!: gr0I)
  have "collection_inv C cfg P \<lparr>co_session = ses, co_peers = fmempty\<rparr>"
    by (simp add: collection_inv_def ses_def dkg_new_def own)
  from collect_loop_inv [OF C this dealers co] have inv: "collection_inv C cfg P co" by blast
  have len: "hm_len (co_peers co) = unat (nc_total_nodes cfg - 1)"
    using collect_loop_len [OF co] by simp
  note dom = peers_complete [OF inv n len fin]
  have tP: "length (P (nc_node_id cfg)) = ?t" using own by simp
  note H = collection_holds_shares [OF inv dom(2) t tP]
  have id: "dk_node_id (co_session co) = nc_node_id cfg" using inv by (simp add: collection_inv_def)
  have R: "share = (\<Sum>j\<in>?S. poly_eval (P j) (x_coord C (nc_node_id cfg)))"
    "mpk = g2_mul C (g2_generator C) (\<Sum>j\<in>?S. hd (P j))"
    using finalize_dkg_sum [OF C(1) H(2) distinct_peer_ids] dom(1) fin id by simp_all
  have eval: "poly_eval F x = (\<Sum>j\<in>?S. poly_eval (P j) x)" for x
    unfolding F_def by (rule joint_poly_eval) (rule H(1))
  have "public_key_registry C cfg co = joint_registry C F (peer_ids cfg)"
    by (rule fmap_ext)
      (simp add: registry_lookup joint_registry_lookup node_public_key_joint [OF C(1) inv dom(1,2) finite_set] eval)
  moreover have "mpk = g2_mul C (g2_generator C) (hd F)"
    using R(2) joint_poly_hd [OF t H(1), of ?S] by (simp add: F_def)
  ultimately show "new_with_wal_path C io (nc_total_nodes cfg) (joint_registry C F (peer_ids cfg))
      (g2_mul C (g2_generator C) (hd F)) = Ok st"
    using st by simp
  show "share = poly_eval F (x_coord C (nc_node_id cfg))" using R(1) by (simp add: eval)
  show "F \<noteq> []" "length F = ?t" using t by (simp_all add: F_def joint_poly_def)
qed

lemma bootstrap_keys:
  assumes C: "scalar_laws C" "g2_generator_faithful C"
    and n: "unat (nc_total_nodes cfg) < 2 ^ 32" "nc_total_nodes cfg \<noteq> 0"
    and own: "P (nc_node_id cfg) = map rng [0..<unat (nc_threshold cfg)]"
    and dealers: "\<forall>ev\<in>set events. honest_inbound C P ev"
    and ok: "bootstrap C io cfg rng events = Ok (share, st)"
  defines "F \<equiv> joint_poly P (set (peer_ids cfg)) (unat (nc_threshold cfg))"
  shows "share = poly_eval F (x_coord C (nc_node_id cfg)) \<and>
    master_public_key (st_config st) = g2_mul C (g2_generator C) (hd F) \<and>
    (\<forall>i. i |\<in>| registered_nodes (st_config st) \<longrightarrow>
       fmlookup (public_keys (st_config st)) i =
         Some (g2_mul C (g2_generator C) (poly_eval F (x_coord C i)))) \<and>
    (nc_threshold cfg \<le> quorum_size (st_config st) \<longrightarrow> keys_from_poly C (st_config st) F)"
proof -
  note B = bootstrap_config [OF C n own dealers ok, folded F_def]
  have cfg: "make_config (nc_total_nodes cfg) (joint_registry C F (peer_ids cfg)) (g2_mul C (g2_generator C) (hd F)) =
      Ok (st_config st)"
    using new_with_wal_path_Ok [OF B(4)] by metis
  note M = make_config_Ok [OF cfg]
  have keys: "fmlookup (public_keys (st_config st)) i =
      Some (g2_mul C (g2_generator C) (poly_eval F (x_coord C i)))"
    if "i |\<in>| registered_nodes (st_config st)" for i
    using that M(6) by (simp add: M(4) joint_registry_lookup peer_ids_iff)
  show ?thesis
    using B(1-3) M(5) keys by (simp add: keys_from_poly_def word_le_nat_alt)
qed

section \<open>Honest shares complete the bootstrap\<close>

lemma new_with_wal_path_empty:
  assumes cfg: "make_config n keys mpk = Ok cfg"
    and io: "o_open io" "o_reopen io" "no_fault (o_reads io)" "o_disk io = []"
  shows "new_with_wal_path C io n keys mpk = Ok \<lparr>st_config = cfg, st_core = empty_core,
    st_wal = wal_open [], wal_failed = False\<rparr>"
proof -
  obtain es' where "read_record (o_reads io) [] [] = (Ok None, [], es')"
    using read_record_end [OF io(3)] by blast
  then have "replay_log C h (o_reads io) [] st = (Ok (), st)"
    for h :: "'b wal_row \<Rightarrow> 'b recovery \<Rightarrow> 'b recovery" and st
    by (simp add: replay_log.simps [of C h "o_reads io"])
  then show ?thesis using cfg io by (simp add: new_with_wal_path_def) (simp add: empty_core_def)
qed

lemma make_config_registered:
  assumes n: "n = 3 * ((n - 1) div 3) + 1"
    and keys: "\<And>i. unat i < unat (ucast n :: u32) \<Longrightarrow> fmlookup keys i \<noteq> None"
  shows "\<exists>cfg. make_config n keys mpk = Ok cfg"
proof -
  have "unat (word_of_nat k :: u32) < unat (ucast n :: u32)" if "k < unat (ucast n :: u32)" for k
  proof -
    have "unat (ucast n :: u32) < 2 ^ 32" using unsigned_less [of "ucast n :: u32"] by simp
    then have "k < 2 ^ 32" using that by linarith
    then show ?thesis using that by (simp add: unat_of_nat)
  qed
  then have "\<forall>i\<in>set (map word_of_nat [0..<unat (ucast n :: u32)]). hm_contains keys i"
    using keys by (auto simp: hm_contains_def)
  then have "register_loop keys (map word_of_nat [0..<unat (ucast n :: u32)]) {||} =
      Ok ({||} |\<union>| fset_of_list (map word_of_nat [0..<unat (ucast n :: u32)]))"
    by (simp only: register_loop_Ok simp_thms)
  then show ?thesis using n unfolding make_config_def Let_def by simp
qed

text \<open>A collection of all shares of honest dealers gives a replica.\<close>

lemma conclude_honest:
  assumes C: "scalar_laws C" and inv: "collection_inv C cfg P co"
    and dom: "fset (fmdom (co_peers co)) = set (peer_ids cfg) - {nc_node_id cfg}"
    and n: "nc_total_nodes cfg = 3 * ((nc_total_nodes cfg - 1) div 3) + 1" "nc_node_id cfg \<in> set (peer_ids cfg)"
    and t: "0 < unat (nc_threshold cfg)" "length (P (nc_node_id cfg)) = unat (nc_threshold cfg)"
    and io: "o_open io" "o_reopen io" "no_fault (o_reads io)" "o_disk io = []"
  shows "\<exists>share st. conclude C io cfg co = Ok (share, st)"
proof -
  have "dk_node_id (co_session co) \<in> set (peer_ids cfg)" using inv n(2) by (simp add: collection_inv_def)
  from finalize_dkg_sum [OF C collection_holds_shares(2) [OF inv dom t] distinct_peer_ids this]
  obtain share mpk where fin: "finalize_dkg C (peer_ids cfg) (co_session co) = Ok (share, mpk)" by blast
  obtain pc where "make_config (nc_total_nodes cfg) (public_key_registry C cfg co) mpk = Ok pc"
    using make_config_registered [OF n(1), of "public_key_registry C cfg co" mpk]
    by (auto simp: registry_lookup peer_ids_iff)
  from new_with_wal_path_empty [OF this io, of C] fin show ?thesis by (simp add: conclude_def)
qed

text \<open>The message of an honest dealer is accepted.\<close>

lemma dealer_message_fields [simp]:
  "ds_from_node (dealer_message C o1 ses sk i) = dk_node_id ses"
  "ds_to_node (dealer_message C o1 ses sk i) = i"
  "ds_share (dealer_message C o1 ses sk i) = evaluate_share_for C ses i"
  "ds_commitments (dealer_message C o1 ses sk i) = generate_commitments C ses"
  by (simp_all add: dealer_message_def Let_def)

abbreviation dealt ::
  "('s::field, 'g1::ab_group_add, 'g2::ab_group_add, 'gt) bls \<Rightarrow> node_config \<Rightarrow>
    ('s, 'g2) dkg_session \<Rightarrow> ('s, 'g1, 'g2) dkg_share_message" where
  "dealt C cfg D \<equiv> dealer_message C 0 D (hd (dk_secret_polynomial D)) (nc_node_id cfg)"

lemma dkg_canonical_unsigned [simp]:
  "dkg_canonical_bytes C (m\<lparr>ds_signature := g\<rparr>) = dkg_canonical_bytes C m"
  by (simp add: dkg_canonical_bytes_def)

lemma dealer_message_verifies:
  fixes C :: "('s::field, 'g1::ab_group_add, 'g2::ab_group_add, 'gt) bls"
  assumes C: "pairing_laws C" and ne: "dk_secret_polynomial D \<noteq> []"
  shows "dkg_verify_signature C (dealt C cfg D)"
proof -
  obtain sk cs where cs: "dk_secret_polynomial D = sk # cs" using ne by (cases "dk_secret_polynomial D") auto
  define m where "m = \<lparr>ds_from_node = dk_node_id D, ds_to_node = nc_node_id cfg,
    ds_share = evaluate_share_for C D (nc_node_id cfg),
    ds_commitments = generate_commitments C D, ds_signature = 0 :: 'g1\<rparr>"
  have "dealt C cfg D = m\<lparr>ds_signature := sign_bls_message C (dkg_canonical_bytes C m) sk\<rparr>"
    by (simp add: dealer_message_def Let_def m_def cs)
  moreover have "ds_commitments m = g2_mul C (g2_generator C) sk # map (g2_mul C (g2_generator C)) cs"
    by (simp add: m_def generate_commitments_def cs)
  ultimately show ?thesis by (simp add: dkg_verify_signature_def sign_verify [OF C])
qed

lemma collect_honest_share:
  assumes C: "scalar_laws C" "pairing_laws C"
    and d: "dk_secret_polynomial D \<noteq> []" "length (dk_secret_polynomial D) = unat (dk_threshold (co_session co))"
    and own: "dk_node_id (co_session co) = nc_node_id cfg"
    and new: "fmlookup (co_peers co) (dk_node_id D) = None"
  obtains co' where "collect_share C cfg (dealt C cfg D) co = co'"
    "co_peers co' = fmupd (dk_node_id D) (generate_commitments C D) (co_peers co)"
    "dk_node_id (co_session co') = nc_node_id cfg"
    "dk_threshold (co_session co') = dk_threshold (co_session co)"
proof -
  obtain res ses' where p: "process_incoming_share C (dk_node_id D) (evaluate_share_for C D (nc_node_id cfg))
      (generate_commitments C D) (co_session co) = (res, ses')"
    by fastforce
  have "is_ok res" using honest_share_accepted [OF C(1) d(2)] own p by simp
  then obtain u where res: "res = Ok u" by (cases res) auto
  have s: "dk_node_id ses' = dk_node_id (co_session co)" "dk_threshold ses' = dk_threshold (co_session co)"
    using process_incoming_share_state [OF p] by (simp_all add: res)
  show ?thesis
    by (rule that [OF refl])
      (simp_all add: collect_share_def hm_contains_def new dealer_message_verifies [OF C(2) d(1)] p res s own)
qed

lemma collect_loop_honest:
  assumes C: "scalar_laws C" "pairing_laws C"
  shows "\<forall>D\<in>set ds. dk_secret_polynomial D \<noteq> [] \<and>
      length (dk_secret_polynomial D) = unat (dk_threshold (co_session co)) \<and>
      fmlookup (co_peers co) (dk_node_id D) = None \<Longrightarrow>
    dk_node_id (co_session co) = nc_node_id cfg \<Longrightarrow> distinct (map dk_node_id ds) \<Longrightarrow>
    hm_len (co_peers co) + length ds = unat (nc_total_nodes cfg - 1) \<Longrightarrow>
    \<exists>co'. collect_loop C cfg (map (\<lambda>D. Share (dealt C cfg D)) ds) co = Ok co' \<and>
      fset (fmdom (co_peers co')) = fset (fmdom (co_peers co)) \<union> dk_node_id ` set ds"
proof (induction ds arbitrary: co)
  case Nil
  then show ?case by (simp add: collect_loop.simps [of C cfg "[]"])
next
  case (Cons D ds)
  have D: "dk_secret_polynomial D \<noteq> []" "length (dk_secret_polynomial D) = unat (dk_threshold (co_session co))"
    "fmlookup (co_peers co) (dk_node_id D) = None"
    using Cons.prems(1) by simp_all
  obtain co1 where co1: "collect_share C cfg (dealt C cfg D) co = co1"
    "co_peers co1 = fmupd (dk_node_id D) (generate_commitments C D) (co_peers co)"
    "dk_node_id (co_session co1) = nc_node_id cfg"
    "dk_threshold (co_session co1) = dk_threshold (co_session co)"
    by (rule collect_honest_share [OF C D(1,2) Cons.prems(2) D(3)])
  have "\<forall>D'\<in>set ds. dk_secret_polynomial D' \<noteq> [] \<and>
      length (dk_secret_polynomial D') = unat (dk_threshold (co_session co1)) \<and>
      fmlookup (co_peers co1) (dk_node_id D') = None"
    using Cons.prems(1,3) by (auto simp: co1(2,4))
  moreover have "hm_len (co_peers co1) + length ds = unat (nc_total_nodes cfg - 1)"
    using Cons.prems(4) D(3) by (simp add: co1(2))
  ultimately obtain co' where "collect_loop C cfg (map (\<lambda>D. Share (dealt C cfg D)) ds) co1 = Ok co'"
    "fset (fmdom (co_peers co')) = fset (fmdom (co_peers co1)) \<union> dk_node_id ` set ds"
    using Cons.IH [OF _ co1(3)] Cons.prems(3) by auto
  then show ?case
    using Cons.prems(4) co1(1,2) by (auto simp: collect_loop.simps [of C cfg "_ # _"])
qed

lemma honest_bootstrap:
  assumes C: "scalar_laws C" "pairing_laws C" "g2_generator_faithful C"
    and n: "nc_total_nodes cfg = 3 * ((nc_total_nodes cfg - 1) div 3) + 1"
      "unat (nc_total_nodes cfg) < 2 ^ 32" "nc_total_nodes cfg \<noteq> 0" "nc_threshold cfg \<noteq> 0"
      "unat (nc_node_id cfg) < unat (nc_total_nodes cfg)"
    and dealers: "\<forall>D\<in>set ds. length (dk_secret_polynomial D) = unat (nc_threshold cfg)"
      "distinct (map dk_node_id ds)"
      "dk_node_id ` set ds = {i. unat i < unat (nc_total_nodes cfg)} - {nc_node_id cfg}"
    and io: "o_open io" "o_reopen io" "no_fault (o_reads io)" "o_disk io = []"
  shows "\<exists>share st. bootstrap C io cfg rng (map (\<lambda>D. Share (dealt C cfg D)) ds) = Ok (share, st)"
proof -
  define ses where "ses = (dkg_new rng (nc_node_id cfg) (nc_threshold cfg) (nc_total_nodes cfg) :: ('a, 'c) dkg_session)"
  let ?co0 = "\<lparr>co_session = ses, co_peers = fmempty\<rparr>"
  have t: "0 < unat (nc_threshold cfg)" using n(4) by (simp add: unat_gt_0)
  have nn: "unat (ucast (nc_total_nodes cfg) :: u32) = unat (nc_total_nodes cfg)"
    using n(2) by (simp add: unsigned_ucast_eq take_bit_nat_eq_self_iff)
  have ids: "set (peer_ids cfg) = {i. unat i < unat (nc_total_nodes cfg)}" by (auto simp: peer_ids_iff nn)
  have "length ds = card (dk_node_id ` set ds)"
    using distinct_card [OF dealers(2)] by simp
  also have "\<dots> = unat (nc_total_nodes cfg) - 1"
    using n(2,5) card_ids_below [of "unat (nc_total_nodes cfg)"] by (simp add: dealers(3))
  finally have len: "length ds = unat (nc_total_nodes cfg - 1)" using n(3) by (simp add: unat_minus_one)
  have "\<forall>D\<in>set ds. dk_secret_polynomial D \<noteq> []" using dealers(1) t by force
  then obtain co where co: "collect_loop C cfg (map (\<lambda>D. Share (dealt C cfg D)) ds) ?co0 = Ok co"
    "fset (fmdom (co_peers co)) = set (peer_ids cfg) - {nc_node_id cfg}"
    using collect_loop_honest [OF C(1,2), of ds ?co0 cfg] dealers len
    by (auto simp: ses_def dkg_new_def ids)
  define P where "P = (\<lambda>j. if j = nc_node_id cfg then dk_secret_polynomial ses
    else dk_secret_polynomial (THE D. D \<in> set ds \<and> dk_node_id D = j))"
  have "P (dk_node_id D) = dk_secret_polynomial D" if "D \<in> set ds" for D
  proof -
    have "(THE D'. D' \<in> set ds \<and> dk_node_id D' = dk_node_id D) = D"
      using that dealers(2) by (auto simp: distinct_map dest: inj_onD)
    moreover have "dk_node_id D \<noteq> nc_node_id cfg" using that dealers(3) by auto
    ultimately show ?thesis by (simp add: P_def)
  qed
  then have hon: "\<forall>ev\<in>set (map (\<lambda>D. Share (dealt C cfg D)) ds). honest_inbound C P ev"
    by (auto simp: honest_inbound_def generate_commitments_def)
  have tP: "length (P (nc_node_id cfg)) = unat (nc_threshold cfg)" by (simp add: P_def ses_def dkg_new_def)
  have "collection_inv C cfg P ?co0" by (simp add: collection_inv_def ses_def dkg_new_def P_def)
  from collect_loop_inv [OF C(1,3) this hon co(1)] have inv: "collection_inv C cfg P co" by blast
  obtain share st where st: "conclude C io cfg co = Ok (share, st)"
    using conclude_honest [OF C(1) inv co(2) n(1) _ t tP io] n(5) by (auto simp: ids)
  obtain sk where "dealer_secret_key ses = Ok sk"
    using t by (auto simp: ses_def dealer_secret_key_def dkg_new_def upt_rec)
  then show ?thesis using co(1) st by (simp add: bootstrap_def Let_def flip: ses_def)
qed

text \<open>A sequence of messages of honest dealers, to anyone and with repetitions: the collection has the
  dealers that wrote to the node.\<close>

abbreviation honest_message ::
  "('s::field, 'g1::ab_group_add, 'g2::ab_group_add, 'gt) bls \<Rightarrow> usize \<Rightarrow> ('s, 'g1, 'g2) dkg_share_message \<Rightarrow> bool" where
  "honest_message C t m \<equiv> \<exists>D i. m = dealer_message C 0 D (hd (dk_secret_polynomial D)) i \<and>
     dk_secret_polynomial D \<noteq> [] \<and> length (dk_secret_polynomial D) = unat t"

lemma collect_share_honest:
  assumes C: "scalar_laws C" "pairing_laws C" and m: "honest_message C (dk_threshold (co_session co)) m"
    and own: "dk_node_id (co_session co) = nc_node_id cfg"
  shows "fset (fmdom (co_peers (collect_share C cfg m co))) =
      (if ds_to_node m = nc_node_id cfg then insert (ds_from_node m) (fset (fmdom (co_peers co)))
       else fset (fmdom (co_peers co))) \<and>
    dk_node_id (co_session (collect_share C cfg m co)) = nc_node_id cfg \<and>
    dk_threshold (co_session (collect_share C cfg m co)) = dk_threshold (co_session co)"
proof -
  obtain D i where D: "m = dealer_message C 0 D (hd (dk_secret_polynomial D)) i" "dk_secret_polynomial D \<noteq> []"
    "length (dk_secret_polynomial D) = unat (dk_threshold (co_session co))"
    using m by blast
  show ?thesis
  proof (cases "i = nc_node_id cfg \<and> fmlookup (co_peers co) (dk_node_id D) = None")
    case True
    then obtain co' where "collect_share C cfg m co = co'"
      "co_peers co' = fmupd (dk_node_id D) (generate_commitments C D) (co_peers co)"
      "dk_node_id (co_session co') = nc_node_id cfg"
      "dk_threshold (co_session co') = dk_threshold (co_session co)"
      using collect_honest_share [OF C D(2,3) own] D(1) by metis
    then show ?thesis using True D(1) by simp
  next
    case False
    then have "collect_share C cfg m co = co"
      "ds_to_node m = nc_node_id cfg \<Longrightarrow> ds_from_node m \<in> fset (fmdom (co_peers co))"
      using D(1) by (auto simp: collect_share_def hm_contains_def fmdom_notI fmlookup_dom_iff)
    then show ?thesis using own by auto
  qed
qed

lemma collect_honest:
  assumes C: "scalar_laws C" "pairing_laws C"
  shows "\<forall>m\<in>set ms. honest_message C (dk_threshold (co_session co)) m \<Longrightarrow>
    dk_node_id (co_session co) = nc_node_id cfg \<Longrightarrow>
    fset (fmdom (co_peers (fold (collect_share C cfg) ms co))) =
      fset (fmdom (co_peers co)) \<union> ds_from_node ` {m \<in> set ms. ds_to_node m = nc_node_id cfg}"
proof (induction ms arbitrary: co)
  case (Cons m ms)
  let ?co = "collect_share C cfg m co"
  have "honest_message C (dk_threshold (co_session co)) m" using Cons.prems(1) by simp
  note s = collect_share_honest [OF C this Cons.prems(2)]
  have "fset (fmdom (co_peers (fold (collect_share C cfg) ms ?co))) =
      fset (fmdom (co_peers ?co)) \<union> ds_from_node ` {m \<in> set ms. ds_to_node m = nc_node_id cfg}"
    using Cons.prems(1) s by (intro Cons.IH) simp_all
  then show ?case using s by auto
qed simp

end
