(* ===== verification/Cluster.thy ===== *)
theory Cluster
  imports Pbft_Safety Network
begin

text \<open>
  A cluster of replicas: honest nodes run \<open>on_pbft_packet\<close> on whatever packets the network brings,
  in any order and any number, and every signature they make is recorded. The adversary sends
  anything, but a packet with a valid signature of an honest node carries a statement that node
  has signed. The theory shows by rule induction that an honest node never signs Prepare for two
  values of one slot that it has not pruned, and that therefore two honest replicas never commit
  different values at one slot: agreement within a view.
\<close>

section \<open>The transition system\<close>

text \<open>The cluster: the endpoint of every honest node, and the signed statements.\<close>

record ('s, 'g1, 'g2) cluster =
  cl_nodes :: "u32 \<Rightarrow> ('s, 'g1, 'g2) endpoint"
  cl_signed :: "(u32 \<times> bytes) set"

text \<open>What a node has signed by answering a packet.\<close>

definition signed_by :: "u32 \<Rightarrow> 'g1 pbft_message list \<Rightarrow> (u32 \<times> bytes) set" where
  "signed_by i out = (\<lambda>m. (i, pm_canonical m)) ` set out"

text \<open>Statements an honest operator may sign outside of the answers: proposals, view changes and
  checkpoints, never votes.\<close>

definition no_vote :: "bytes \<Rightarrow> bool" where
  "no_vote m \<longleftrightarrow> (\<forall>v s d. m \<noteq> canonical_msg (phase_u8 Prepare) v s d \<and>
     m \<noteq> canonical_msg (phase_u8 Commit) v s d)"

definition genuine ::
  "u32 set \<Rightarrow> ('s, 'g1, 'g2) cluster \<Rightarrow> 'g1 pbft_message \<Rightarrow> bool" where
  "genuine H G msg \<longleftrightarrow> (pm_sender_id msg \<in> H \<longrightarrow> (pm_sender_id msg, pm_canonical msg) \<in> cl_signed G)"

inductive cluster_step ::
  "('s::field, 'g1::ab_group_add, 'g2, 'gt) bls \<Rightarrow> u32 set \<Rightarrow> ('s, 'g1, 'g2) cluster \<Rightarrow>
    ('s, 'g1, 'g2) cluster \<Rightarrow> bool"
  for C :: "('s::field, 'g1::ab_group_add, 'g2, 'gt) bls" and H :: "u32 set" where
  deliver:
    "i \<in> H \<Longrightarrow> genuine H G msg \<Longrightarrow>
     on_pbft_packet C io i msg (cl_nodes G i) = (res, ep') \<Longrightarrow>
     e_tx_pbft ep' = e_tx_pbft (cl_nodes G i) @ out \<Longrightarrow>
     cluster_step C H G \<lparr>cl_nodes = (cl_nodes G)(i := ep'),
                         cl_signed = cl_signed G \<union> signed_by i out\<rparr>"
| sign:
    "i \<in> H \<Longrightarrow> no_vote m \<Longrightarrow> cluster_step C H G (G\<lparr>cl_signed := insert (i, m) (cl_signed G)\<rparr>)"

inductive cluster_reach ::
  "('s::field, 'g1::ab_group_add, 'g2, 'gt) bls \<Rightarrow> u32 set \<Rightarrow> ('s, 'g1, 'g2) cluster \<Rightarrow>
    ('s, 'g1, 'g2) cluster \<Rightarrow> bool"
  for C H G0 where
  start: "cluster_reach C H G0 G0"
| step: "cluster_reach C H G0 G \<Longrightarrow> cluster_step C H G G' \<Longrightarrow> cluster_reach C H G0 G'"

text \<open>Fresh replicas of one configuration, with nothing signed.\<close>

definition fresh_cluster ::
  "u32 set \<Rightarrow> 'g2 pbft_config \<Rightarrow> ('s, 'g1, 'g2) cluster \<Rightarrow> bool" where
  "fresh_cluster H cfg G \<longleftrightarrow> cl_signed G = {} \<and>
     (\<forall>i\<in>H. \<exists>w. e_state (cl_nodes G i) =
        Some \<lparr>st_config = cfg, st_core = empty_core, st_wal = w, wal_failed = False\<rparr>)"

section \<open>The invariant\<close>

definition core_of :: "('s, 'g1, 'g2) cluster \<Rightarrow> u32 \<Rightarrow> 'g1 pbft_core" where
  "core_of G i = st_core (the (e_state (cl_nodes G i)))"

text \<open>Stored votes that carry an honest name were signed by that node.\<close>

definition votes_signed ::
  "u32 set \<Rightarrow> (u32 \<times> bytes) set \<Rightarrow> phase \<Rightarrow> (proposal, (u32, 'g1) fmap) fmap \<Rightarrow> bool" where
  "votes_signed H S ph votes \<longleftrightarrow>
     (\<forall>v s d j sig. fmlookup (hm_entry votes (v, s, d)) j = Some sig \<longrightarrow> j \<in> H \<longrightarrow>
        (j, canonical_msg (phase_u8 ph) v s d) \<in> S)"

text \<open>An honest node has signed Prepare for values it has accepted, or for pruned slots.\<close>

definition prepares_accepted :: "u32 \<Rightarrow> (u32 \<times> bytes) set \<Rightarrow> 'g1 pbft_core \<Rightarrow> bool" where
  "prepares_accepted i S st \<longleftrightarrow>
     (\<forall>v s d. (i, canonical_msg (phase_u8 Prepare) v s d) \<in> S \<longrightarrow>
        (v, s, d) |\<in>| pre_prepared_proposals st \<or> s \<le> last_stable_checkpoint st)"

definition node_ok ::
  "('s::field, 'g1::ab_group_add, 'g2, 'gt) bls \<Rightarrow> u32 set \<Rightarrow> 'g2 pbft_config \<Rightarrow>
    (u32 \<times> bytes) set \<Rightarrow> u32 \<Rightarrow> ('s, 'g1, 'g2) endpoint \<Rightarrow> bool" where
  "node_ok C H cfg S i ep \<longleftrightarrow>
     (\<exists>st. e_state ep = Some st \<and> st_config st = cfg \<and> core_inv C cfg (st_core st) \<and>
        votes_signed H S Prepare (prepare_votes (st_core st)) \<and>
        prepares_accepted i S (st_core st))"

definition cluster_inv ::
  "('s::field, 'g1::ab_group_add, 'g2, 'gt) bls \<Rightarrow> u32 set \<Rightarrow> 'g2 pbft_config \<Rightarrow>
    ('s, 'g1, 'g2) cluster \<Rightarrow> bool" where
  "cluster_inv C H cfg G \<longleftrightarrow> (\<forall>i\<in>H. node_ok C H cfg (cl_signed G) i (cl_nodes G i))"

lemma votes_signed_mono: "votes_signed H S ph votes \<Longrightarrow> S \<subseteq> T \<Longrightarrow> votes_signed H T ph votes"
  unfolding votes_signed_def by blast

lemma votes_signed_add:
  "votes_signed H S ph votes \<Longrightarrow>
    (i \<in> H \<longrightarrow> (i, canonical_msg (phase_u8 ph) v s d) \<in> S) \<Longrightarrow>
    votes_signed H S ph (add_vote (v, s, d) i sig votes)"
  by (auto simp: votes_signed_def)

lemma votes_signed_filter: "votes_signed H S ph votes \<Longrightarrow> votes_signed H S ph (fmfilter P votes)"
  by (auto simp: votes_signed_def hm_entry_filter split: if_splits)

lemma retain_after_tables:
  "prepare_votes (retain_after n st) = fmfilter (\<lambda>(_, s, _). n < s) (prepare_votes st)"
  "pre_prepared_proposals (retain_after n st) =
    ffilter (\<lambda>(_, s, _). n < s) (pre_prepared_proposals st)"
  by (simp_all add: retain_after_def)

text \<open>How an accepted message changes the proposals and the prepare votes.\<close>

lemma dispatch_tables:
  assumes ok: "dispatch C cfg msg st = (Ok r, st')"
  shows "prepare_votes st' =
      (if pm_phase msg = Prepare then add_vote (proposal_key msg) (pm_sender_id msg)
         (pm_signature msg) (prepare_votes st)
       else if r = CHECKPOINT_STABILIZED
         then fmfilter (\<lambda>(_, s, _). pm_seq msg < s) (prepare_votes st)
       else prepare_votes st)"
    and "pre_prepared_proposals st' =
      (if pm_phase msg = PrePrepare then finsert (proposal_key msg) (pre_prepared_proposals st)
       else if r = CHECKPOINT_STABILIZED
         then ffilter (\<lambda>(_, s, _). pm_seq msg < s) (pre_prepared_proposals st)
       else pre_prepared_proposals st)"
    and "pm_phase msg = Prepare \<Longrightarrow> proposal_key msg |\<in>| pre_prepared_proposals st"
proof -
  have "prepare_votes st' =
      (if pm_phase msg = Prepare then add_vote (proposal_key msg) (pm_sender_id msg)
         (pm_signature msg) (prepare_votes st)
       else if r = CHECKPOINT_STABILIZED
         then fmfilter (\<lambda>(_, s, _). pm_seq msg < s) (prepare_votes st)
       else prepare_votes st) \<and>
    pre_prepared_proposals st' =
      (if pm_phase msg = PrePrepare then finsert (proposal_key msg) (pre_prepared_proposals st)
       else if r = CHECKPOINT_STABILIZED
         then ffilter (\<lambda>(_, s, _). pm_seq msg < s) (pre_prepared_proposals st)
       else pre_prepared_proposals st) \<and>
    (pm_phase msg = Prepare \<longrightarrow> proposal_key msg |\<in>| pre_prepared_proposals st)"
  proof (cases "pm_phase msg")
    case PrePrepare
    then show ?thesis
      using ok by (simp add: dispatch_def on_pre_prepare_Ok record_proposal_def raise_to_def)
  next
    case Prepare
    then have "on_prepare C cfg msg st = (Ok r, st')" using ok by (simp add: dispatch_def)
    note P = on_prepare_Ok [OF this]
    have "r \<noteq> CHECKPOINT_STABILIZED" by (simp add: P(4))
    then show ?thesis
      using P(2,3) Prepare
      by (simp add: record_prepare_def proposal_key_def Let_def del: hm_len_upd)
  next
    case Commit
    then have "on_commit C cfg msg st = (Ok r, st')" using ok by (simp add: dispatch_def)
    note P = on_commit_Ok [OF this]
    have "r \<noteq> CHECKPOINT_STABILIZED" by (simp add: P(5))
    then show ?thesis
      using P(4) Commit by (simp add: record_commit_def proposal_key_def Let_def del: hm_len_upd)
  next
    case ViewChange
    then have "on_view_change C cfg msg st = (Ok r, st')" using ok by (simp add: dispatch_def)
    from on_view_change_Ok(3) [OF this] show ?thesis
      using ViewChange
      by (auto simp: record_new_view_def record_view_change_def raise_to_def split: if_splits)
  next
    case Checkpoint
    then have "on_checkpoint cfg msg st = (Ok r, st')" using ok by (simp add: dispatch_def)
    note P = on_checkpoint_Ok(3) [OF this]
    let ?st1 = "(record_checkpoint (proposal_key msg) (pm_sender_id msg) (pm_signature msg) st)
      \<lparr>last_stable_checkpoint := pm_seq msg\<rparr>"
    have st1: "prepare_votes ?st1 = prepare_votes st"
      "pre_prepared_proposals ?st1 = pre_prepared_proposals st"
      by (simp_all add: record_checkpoint_def)
    show ?thesis
    proof (cases "r = CHECKPOINT_STABILIZED")
      case True
      have "prepare_votes st' = fmfilter (\<lambda>(_, s, _). pm_seq msg < s) (prepare_votes st)"
        "pre_prepared_proposals st' =
          ffilter (\<lambda>(_, s, _). pm_seq msg < s) (pre_prepared_proposals st)"
        unfolding P using True retain_after_tables [of "pm_seq msg" ?st1, unfolded st1] by simp_all
      then show ?thesis using True Checkpoint by simp
    next
      case False
      then show ?thesis using P Checkpoint by (simp add: record_checkpoint_def)
    qed
  qed
  then show "prepare_votes st' =
      (if pm_phase msg = Prepare then add_vote (proposal_key msg) (pm_sender_id msg)
         (pm_signature msg) (prepare_votes st)
       else if r = CHECKPOINT_STABILIZED
         then fmfilter (\<lambda>(_, s, _). pm_seq msg < s) (prepare_votes st)
       else prepare_votes st)"
    and "pre_prepared_proposals st' =
      (if pm_phase msg = PrePrepare then finsert (proposal_key msg) (pre_prepared_proposals st)
       else if r = CHECKPOINT_STABILIZED
         then ffilter (\<lambda>(_, s, _). pm_seq msg < s) (pre_prepared_proposals st)
       else pre_prepared_proposals st)"
    and "pm_phase msg = Prepare \<Longrightarrow> proposal_key msg |\<in>| pre_prepared_proposals st"
    by simp_all
qed

lemma prepares_accepted_dispatch:
  assumes acc: "prepares_accepted i S st" and ok: "dispatch C cfg msg st = (Ok r, st')"
    and fresh: "pm_phase msg = Checkpoint \<Longrightarrow> last_stable_checkpoint st < pm_seq msg"
  shows "prepares_accepted i S st'"
  unfolding prepares_accepted_def
proof (intro allI impI)
  fix v s d assume "(i, canonical_msg (phase_u8 Prepare) v s d) \<in> S"
  then have old: "(v, s, d) |\<in>| pre_prepared_proposals st \<or> s \<le> last_stable_checkpoint st"
    using acc by (simp add: prepares_accepted_def)
  have mono: "last_stable_checkpoint st \<le> last_stable_checkpoint st'"
    using dispatch_progress [OF ok fresh] by simp
  show "(v, s, d) |\<in>| pre_prepared_proposals st' \<or> s \<le> last_stable_checkpoint st'"
  proof (cases "r = CHECKPOINT_STABILIZED")
    case True
    have ph: "pm_phase msg = Checkpoint" "last_stable_checkpoint st' = pm_seq msg"
      using stabilized_positive [OF ok [unfolded True] fresh] by simp_all
    then have "pre_prepared_proposals st' =
        ffilter (\<lambda>(_, s, _). pm_seq msg < s) (pre_prepared_proposals st)"
      using dispatch_tables(2) [OF ok] True by simp
    then show ?thesis using old ph mono by auto
  next
    case False
    then have "pre_prepared_proposals st |\<subseteq>| pre_prepared_proposals st'"
      using dispatch_tables(2) [OF ok] by auto
    then show ?thesis using old mono by (auto intro: order_trans)
  qed
qed

lemma votes_signed_dispatch:
  assumes vs: "votes_signed H S Prepare (prepare_votes st)"
    and ok: "dispatch C cfg msg st = (Ok r, st')"
    and gen: "pm_sender_id msg \<in> H \<longrightarrow> (pm_sender_id msg, pm_canonical msg) \<in> S"
  shows "votes_signed H S Prepare (prepare_votes st')"
  using dispatch_tables(1) [OF ok] vs gen
  by (auto simp: proposal_key_def pm_canonical_def intro: votes_signed_add votes_signed_filter)

text \<open>The answer to a packet: nothing, a Prepare on a proposal just accepted, or a Commit.\<close>

lemma handle_message_dispatched:
  assumes "handle_message C io msg st = (Ok r, st')" "pm_phase msg \<noteq> Checkpoint"
  shows "dispatch C (st_config st) msg (st_core st) = (Ok r, st_core st')"
proof -
  have "r \<noteq> CHECKPOINT_OBSOLETE"
    using assms dispatch_not_obsolete [of C "st_config st" msg "st_core st"]
    by (auto simp: handle_message_def Let_def split: if_splits option.splits prod.splits sum.splits)
  then show ?thesis using handle_message_Ok(2) [OF assms(1)] by blast
qed

lemma on_pbft_packet_cases:
  assumes p: "on_pbft_packet C io i msg ep = (res, ep')" and st: "e_state ep = Some st"
    and out: "e_tx_pbft ep' = e_tx_pbft ep @ out"
  obtains (silent) res' st' where "out = []" "handle_message C io msg st = (res', st')"
      "e_state ep' = Some st'"
    | (ignored) "out = []" "e_state ep' = Some st"
    | (answered) r st' sk where "handle_message C io msg st = (Ok r, st')" "e_state ep' = Some st'"
      "out = (case outgoing C sk i msg st' of None \<Rightarrow> [] | Some m \<Rightarrow> [m])"
proof (cases "\<exists>r st' sk. handle_message C io msg st = (Ok r, st') \<and> e_state ep' = Some st' \<and>
    out = (case outgoing C sk i msg st' of None \<Rightarrow> [] | Some m \<Rightarrow> [m])")
  case True
  then show ?thesis using answered by blast
next
  case False
  then show ?thesis
    using p st out silent ignored
    by (auto simp: on_pbft_packet_def split: option.splits if_splits prod.splits sum.splits)
      metis
qed

lemma node_ok_core:
  assumes ok: "node_ok C H cfg S i ep" and cfg: "config_ok cfg" and st: "e_state ep = Some st"
    and gen: "pm_sender_id msg \<in> H \<longrightarrow> (pm_sender_id msg, pm_canonical msg) \<in> S"
    and h: "handle_message C io msg st = (res, st')" and st': "e_state ep' = Some st'"
  shows "node_ok C H cfg S i ep'"
proof -
  have c: "st_config st = cfg" "core_inv C cfg (st_core st)"
    "votes_signed H S Prepare (prepare_votes (st_core st))" "prepares_accepted i S (st_core st)"
    using ok st by (auto simp: node_ok_def)
  have "core_inv C cfg (st_core st') \<and> votes_signed H S Prepare (prepare_votes (st_core st')) \<and>
      prepares_accepted i S (st_core st')"
  proof (cases "st_core st' = st_core st")
    case True
    then show ?thesis using c by simp
  next
    case False
    then obtain r where adm: "admissible C msg st"
      and d: "dispatch C cfg msg (st_core st) = (Ok r, st_core st')"
      using handle_message_core [OF h] c(1) by auto
    then show ?thesis
      using dispatch_inv [OF c(2) cfg _ _ d] votes_signed_dispatch [OF c(3) d gen]
        prepares_accepted_dispatch [OF c(4) d] c(1)
      by (simp add: admissible_def)
  qed
  moreover have "st_config st' = cfg" using handle_message_core [OF h] c(1) by simp
  ultimately show ?thesis using st' by (auto simp: node_ok_def)
qed

lemma node_ok_mono:
  assumes "node_ok C H cfg S j ep" "S \<subseteq> T"
    and "\<And>v s d. (j, canonical_msg (phase_u8 Prepare) v s d) \<in> T \<Longrightarrow>
      (j, canonical_msg (phase_u8 Prepare) v s d) \<in> S \<or>
      (\<exists>st. e_state ep = Some st \<and> (v, s, d) |\<in>| pre_prepared_proposals (st_core st))"
  shows "node_ok C H cfg T j ep"
proof -
  obtain st where st: "e_state ep = Some st" "st_config st = cfg" "core_inv C cfg (st_core st)"
    "votes_signed H S Prepare (prepare_votes (st_core st))" "prepares_accepted j S (st_core st)"
    using assms(1) by (auto simp: node_ok_def)
  have "prepares_accepted j T (st_core st)"
    using st(1,5) assms(3) unfolding prepares_accepted_def by fastforce
  moreover have "votes_signed H T Prepare (prepare_votes (st_core st))"
    using st(4) assms(2) by (rule votes_signed_mono)
  ultimately show ?thesis using st by (auto simp: node_ok_def)
qed

lemma node_ok_deliver:
  assumes ok: "node_ok C H cfg S i ep" and cfg: "config_ok cfg"
    and gen: "pm_sender_id msg \<in> H \<longrightarrow> (pm_sender_id msg, pm_canonical msg) \<in> S"
    and p: "on_pbft_packet C io i msg ep = (res, ep')"
    and out: "e_tx_pbft ep' = e_tx_pbft ep @ out"
  shows "node_ok C H cfg (S \<union> signed_by i out) i ep'"
proof -
  obtain st where st: "e_state ep = Some st" using ok by (auto simp: node_ok_def)
  from p st out show ?thesis
  proof (cases rule: on_pbft_packet_cases)
    case (silent res' st')
    then show ?thesis using node_ok_core [OF ok cfg st gen] by (simp add: signed_by_def)
  next
    case ignored
    then show ?thesis using ok st by (simp add: signed_by_def node_ok_def)
  next
    case (answered r st' sk)
    have ok': "node_ok C H cfg S i ep'"
      by (rule node_ok_core [OF ok cfg st gen answered(1,2)])
    show ?thesis
    proof (rule node_ok_mono [OF ok'])
      fix v s d assume new: "(i, canonical_msg (phase_u8 Prepare) v s d) \<in> S \<union> signed_by i out"
      show "(i, canonical_msg (phase_u8 Prepare) v s d) \<in> S \<or>
        (\<exists>st. e_state ep' = Some st \<and> (v, s, d) |\<in>| pre_prepared_proposals (st_core st))"
      proof (cases "(i, canonical_msg (phase_u8 Prepare) v s d) \<in> S")
        case False
        then obtain m where m: "outgoing C sk i msg st' = Some m"
          "pm_canonical m = canonical_msg (phase_u8 Prepare) v s d"
          using new answered(3) by (auto simp: signed_by_def split: option.splits)
        then have ph: "pm_phase msg = PrePrepare" and k: "(v, s, d) = proposal_key msg"
          by (auto simp: outgoing_def own_vote_def pm_canonical_def proposal_key_def
              split: phase.splits if_splits)
        have "dispatch C (st_config st) msg (st_core st) = (Ok r, st_core st')"
          by (rule handle_message_dispatched [OF answered(1)]) (simp add: ph)
        from dispatch_tables(2) [OF this] show ?thesis using ph k answered(2) by simp
      qed simp
    qed simp
  qed
qed

lemma cluster_step_inv:
  assumes inv: "cluster_inv C H cfg G" and cfg: "config_ok cfg" and step: "cluster_step C H G G'"
  shows "cluster_inv C H cfg G'"
  using step
proof (cases rule: cluster_step.cases)
  case (deliver i msg io res ep' out)
  have ok: "node_ok C H cfg (cl_signed G) j (cl_nodes G j)" if "j \<in> H" for j
    using inv that by (simp add: cluster_inv_def)
  have "node_ok C H cfg (cl_signed G \<union> signed_by i out) i ep'"
    using node_ok_deliver [OF ok [OF deliver(2)] cfg _ deliver(4,5)] deliver(3)
    by (simp add: genuine_def)
  moreover have "node_ok C H cfg (cl_signed G \<union> signed_by i out) j (cl_nodes G j)"
    if "j \<in> H" "j \<noteq> i" for j
    by (rule node_ok_mono [OF ok [OF that(1)]]) (use that in \<open>auto simp: signed_by_def\<close>)
  ultimately show ?thesis by (simp add: cluster_inv_def deliver(1))
next
  case (sign i m)
  have "node_ok C H cfg (insert (i, m) (cl_signed G)) j (cl_nodes G j)" if "j \<in> H" for j
    by (rule node_ok_mono [of C H cfg "cl_signed G"])
      (use inv that sign(3) in \<open>auto simp: cluster_inv_def no_vote_def\<close>)
  then show ?thesis by (simp add: cluster_inv_def sign(1))
qed

lemma votes_signed_empty [simp]: "votes_signed H S ph (prepare_votes empty_core)"
  by (simp add: votes_signed_def empty_core_def)

lemma fresh_cluster_inv:
  "fresh_cluster H cfg G \<Longrightarrow> config_ok cfg \<Longrightarrow> cluster_inv C H cfg G"
  unfolding cluster_inv_def
proof
  fix i assume "fresh_cluster H cfg G" and cfg: "config_ok cfg" and "i \<in> H"
  then obtain w where "cl_signed G = {}" "e_state (cl_nodes G i) =
      Some \<lparr>st_config = cfg, st_core = empty_core, st_wal = w, wal_failed = False\<rparr>"
    by (auto simp: fresh_cluster_def)
  then show "node_ok C H cfg (cl_signed G) i (cl_nodes G i)"
    using empty_core_inv [OF cfg] by (simp add: node_ok_def prepares_accepted_def)
qed

lemma cluster_reach_inv:
  assumes "cluster_reach C H G0 G" "fresh_cluster H cfg G0" "config_ok cfg"
  shows "cluster_inv C H cfg G"
  using assms
  by (induction rule: cluster_reach.induct) (auto intro: fresh_cluster_inv cluster_step_inv)

section \<open>Agreement\<close>

text \<open>In a reachable cluster with at most \<open>f\<close> dishonest nodes, the replicas that have prepared or
  committed a slot which no honest node has pruned agree on its digest.\<close>

lemma prepared_agreement:
  assumes inv: "cluster_inv C H cfg G" and cfg: "config_ok cfg" "topology_ok cfg"
    and H: "card (fset (registered_nodes cfg) - H) \<le> unat (byz_f cfg)"
    and ab: "a \<in> H" "b \<in> H"
    and ca: "fmlookup (prepared_certificates (core_of G a)) (v, s) = Some ca"
    and cb: "fmlookup (prepared_certificates (core_of G b)) (v, s) = Some cb"
    and live: "\<And>i. i \<in> H \<Longrightarrow> last_stable_checkpoint (core_of G i) < s"
  shows "pc_digest ca = pc_digest cb"
proof -
  have node: "core_inv C cfg (core_of G i)"
    "votes_signed H (cl_signed G) Prepare (prepare_votes (core_of G i))"
    "prepares_accepted i (cl_signed G) (core_of G i)" if "i \<in> H" for i
    using inv that by (auto simp: cluster_inv_def node_ok_def core_of_def)
  let ?P = "signers (hm_entry (prepare_votes (core_of G a)) (v, s, pc_digest ca))"
  let ?Q = "signers (hm_entry (prepare_votes (core_of G b)) (v, s, pc_digest cb))"
  let ?R = "fset (registered_nodes cfg)"
  have auth: "votes_auth C cfg Prepare (prepare_votes (core_of G a))"
    "votes_auth C cfg Prepare (prepare_votes (core_of G b))"
    using node(1) ab by (simp_all add: core_inv_parts)
  have "\<exists>i \<in> ?P \<inter> ?Q. i \<notin> ?R - H"
  proof (rule pbft_quorum.honest_member [OF cfg(2) registered_card [OF cfg(2)]])
    show "?P \<subseteq> ?R" "?Q \<subseteq> ?R" using signers_registered auth by blast+
    show "unat (quorum_size cfg) \<le> card ?P" "unat (quorum_size cfg) \<le> card ?Q"
      using prepared_quorum(4) [OF node(1) ca] prepared_quorum(4) [OF node(1) cb] ab
      by (simp_all add: card_signers)
  qed (use H in simp_all)
  then obtain i where i: "i \<in> ?P" "i \<in> ?Q" "i \<in> H"
    using signers_registered [OF auth(1) refl] by blast
  then have "(i, canonical_msg (phase_u8 Prepare) v s (pc_digest ca)) \<in> cl_signed G"
    "(i, canonical_msg (phase_u8 Prepare) v s (pc_digest cb)) \<in> cl_signed G"
    using node(2) [OF ab(1)] node(2) [OF ab(2)] by (auto simp: signers_def votes_signed_def)
  then have "(v, s, pc_digest ca) |\<in>| pre_prepared_proposals (core_of G i)"
    "(v, s, pc_digest cb) |\<in>| pre_prepared_proposals (core_of G i)"
    using node(3) [OF i(3)] live [OF i(3)] by (auto simp: prepares_accepted_def not_le [symmetric])
  moreover have "unique_slots (pre_prepared_proposals (core_of G i))"
    using node(1) [OF i(3)] by (simp add: core_inv_parts)
  ultimately show ?thesis by (auto simp: unique_slots_def)
qed

end
