(* ===== verification/Pbft_Round.thy ===== *)
theory Pbft_Round
  imports Pbft_Safety
begin

text \<open>
  A round on one replica: after the leader's proposal, a quorum of authentic prepare votes and a
  quorum of authentic commit votes from distinct replicas are all acknowledged, whatever their
  order within each phase, when the keys come from one polynomial. The lemmas go from one vote
  (\<open>prepare_accepted\<close>, \<open>commit_accepted\<close>) to a sequence of votes.
\<close>

section \<open>A round of honest votes\<close>

abbreviation authentic ::
  "('s, 'g1, 'g2, 'gt) bls \<Rightarrow> 'g2 pbft_config \<Rightarrow> 'g1 pbft_message \<Rightarrow> bool" where
  "authentic C cfg msg \<equiv> vote_auth C cfg (pm_canonical msg) (pm_sender_id msg) (pm_signature msg)"

lemma handle_message_accepts:
  assumes live: "\<not> wal_failed st" and auth: "authentic C (st_config st) msg"
    and ph: "pm_phase msg \<noteq> Checkpoint"
    and d: "dispatch C (st_config st) msg (st_core st) = (Ok r, core)"
  obtains w where "handle_message C handler_io_ok msg st = (Ok r, st\<lparr>st_core := core, st_wal := w\<rparr>)"
  using assms
  by (auto simp: handle_message_def vote_auth_def handler_io_ok_def append_entry_def Let_def)

text \<open>A replica on which the round of the proposal is open.\<close>

definition voting ::
  "('s::field, 'g1::ab_group_add, 'g2, 'gt) bls \<Rightarrow> 'g2 pbft_config \<Rightarrow> proposal \<Rightarrow>
    ('g1, 'g2) pbft_state \<Rightarrow> bool" where
  "voting C cfg k st \<longleftrightarrow> node_inv C st \<and> st_config st = cfg \<and> \<not> wal_failed st \<and>
     current_view (st_core st) = fst k \<and> k |\<in>| pre_prepared_proposals (st_core st)"

lemma votingD:
  assumes "voting C cfg k st"
  shows "core_inv C cfg (st_core st)" "config_ok cfg" "st_config st = cfg" "\<not> wal_failed st"
    "current_view (st_core st) = fst k" "k |\<in>| pre_prepared_proposals (st_core st)" "node_inv C st"
  using assms by (auto simp: voting_def node_inv_def)

lemma voting_step:
  assumes v: "voting C cfg k st" and auth: "authentic C cfg msg" and ph: "pm_phase msg \<in> {Prepare, Commit}"
    and d: "dispatch C cfg msg (st_core st) = (Ok r, core)"
    and same: "current_view core = current_view (st_core st)"
      "pre_prepared_proposals core = pre_prepared_proposals (st_core st)"
  obtains st' where "handle_message C handler_io_ok msg st = (Ok r, st')" "st_core st' = core"
    "voting C cfg k st'"
proof -
  obtain w where h: "handle_message C handler_io_ok msg st = (Ok r, st\<lparr>st_core := core, st_wal := w\<rparr>)"
  proof (rule handle_message_accepts)
    show "\<not> wal_failed st" by (rule votingD(4) [OF v])
    show "authentic C (st_config st) msg" using auth votingD(3) [OF v] by simp
    show "pm_phase msg \<noteq> Checkpoint" using ph by auto
    show "dispatch C (st_config st) msg (st_core st) = (Ok r, core)" using d votingD(3) [OF v] by simp
  qed
  have "node_inv C (st\<lparr>st_core := core, st_wal := w\<rparr>)"
    using handle_message_inv [of C st handler_io_ok msg] v h by (simp add: voting_def)
  then show ?thesis using that [OF h] v same by (simp add: voting_def)
qed

text \<open>The leader's proposal for a slot without one opens the round.\<close>

lemma proposal_accepted:
  assumes st: "node_inv C st" "st_config st = cfg" "\<not> wal_failed st" "current_view (st_core st) = fst k"
      "\<forall>d. (fst k, fst (snd k), d) |\<notin>| pre_prepared_proposals (st_core st)"
    and pp: "pm_phase pp = PrePrepare" "pm_sender_id pp = get_expected_leader cfg (fst k)"
      "proposal_key pp = k" "authentic C cfg pp"
  obtains st' where "handle_message C handler_io_ok pp st = (Ok INBOUND_OK_PREPREPARE, st')"
    "voting C cfg k st'" "prepare_votes (st_core st') = prepare_votes (st_core st)"
proof -
  let ?core = "record_proposal (proposal_key pp)
       (raise_to (current_view (st_core st)) (max (highest_seq (st_core st)) (pm_seq pp)) (st_core st))"
  have key: "pm_view pp = fst k" "pm_seq pp = fst (snd k)" using pp(3) by (auto simp: proposal_key_def)
  have "on_pre_prepare cfg pp (st_core st) = (Ok INBOUND_OK_PREPREPARE, ?core)"
    unfolding on_pre_prepare_Ok using pp st key by simp
  then have d0: "dispatch C (st_config st) pp (st_core st) = (Ok INBOUND_OK_PREPREPARE, ?core)"
    using pp st(2) by (simp add: dispatch_def)
  obtain w where h0: "handle_message C handler_io_ok pp st =
      (Ok INBOUND_OK_PREPREPARE, st\<lparr>st_core := ?core, st_wal := w\<rparr>)"
    using handle_message_accepts [OF st(3) _ _ d0] pp st(2) by auto
  moreover have "voting C cfg k (st\<lparr>st_core := ?core, st_wal := w\<rparr>)"
    using handle_message_inv [OF st(1), of handler_io_ok pp] h0 st pp(3)
    by (simp add: voting_def record_proposal_def raise_to_def)
  moreover have "prepare_votes (st_core (st\<lparr>st_core := ?core, st_wal := w\<rparr>)) = prepare_votes (st_core st)"
    by (simp add: record_proposal_def raise_to_def)
  ultimately show ?thesis by (rule that)
qed

text \<open>A quorum of commit votes commits.\<close>

lemma voting_commits:
  assumes v: "voting C cfg (v, s, d) st"
    and q: "unat (quorum_size cfg) \<le> hm_len (hm_entry (commit_votes (st_core st)) (v, s, d))"
  shows "fmlookup (committed_digest (st_core st)) (v, s) = Some d"
proof -
  have "tally (unat (quorum_size cfg)) mk_digest (commit_votes (st_core st)) (committed_digest (st_core st))"
    using votingD(1) [OF v] by (simp add: core_inv_parts)
  from tallyI [OF this q] show ?thesis by (simp add: mk_digest_def)
qed

text \<open>A quorum of prepare votes holds a certificate.\<close>

lemma voting_prepared:
  assumes v: "voting C cfg (v, s, d) st"
    and q: "unat (quorum_size cfg) \<le> hm_len (hm_entry (prepare_votes (st_core st)) (v, s, d))"
  shows "hm_contains (prepared_certificates (st_core st)) (v, s)"
proof -
  have "tally (unat (quorum_size cfg)) mk_prepared (prepare_votes (st_core st)) (prepared_certificates (st_core st))"
    using votingD(1) [OF v] by (simp add: core_inv_parts)
  from tallyI [OF this q] show ?thesis by (simp add: hm_contains_def)
qed

lemma prepare_accepted:
  assumes C: "scalar_laws C" "pairing_laws C" and keys: "keys_from_poly C cfg F"
    and v: "voting C cfg k st" and auth: "authentic C cfg msg"
    and msg: "pm_phase msg = Prepare" "proposal_key msg = k"
  obtains r st' where "handle_message C handler_io_ok msg st = (Ok r, st')" "r \<noteq> CHECKPOINT_OBSOLETE"
    "voting C cfg k st'"
    "prepare_votes (st_core st') = add_vote k (pm_sender_id msg) (pm_signature msg) (prepare_votes (st_core st))"
    "commit_votes (st_core st') = commit_votes (st_core st)"
proof -
  have inv: "core_inv C cfg (st_core st)" by (rule votingD(1) [OF v])
  obtain res core where d: "dispatch C cfg msg (st_core st) = (res, core)" by fastforce
  have p: "on_prepare C cfg msg (st_core st) = (res, core)" using d msg by (simp add: dispatch_def)
  have k: "pm_view msg = current_view (st_core st)" "proposal_key msg |\<in>| pre_prepared_proposals (st_core st)"
    using votingD(5,6) [OF v] msg by (auto simp: proposal_key_def)
  have "res \<noteq> Err CERTIFICATE_VERIFICATION_FAILED"
    using dispatch_never_unverified [OF C keys inv auth] d by auto
  then obtain r where r: "res = Ok r"
    using p k by (auto simp: on_prepare_def Let_def simp del: hm_len_upd split: if_splits)
  have p': "on_prepare C cfg msg (st_core st) = (Ok r, core)" using p r by simp
  note P = on_prepare_Ok [OF p']
  have core: "current_view core = current_view (st_core st)"
    "pre_prepared_proposals core = pre_prepared_proposals (st_core st)"
    "prepare_votes core = add_vote k (pm_sender_id msg) (pm_signature msg) (prepare_votes (st_core st))"
    "commit_votes core = commit_votes (st_core st)"
    by (auto simp: P(3) record_prepare_def Let_def msg simp del: hm_len_upd split: prod.splits)
  obtain st' where st': "handle_message C handler_io_ok msg st = (Ok r, st')" "st_core st' = core" "voting C cfg k st'"
    by (rule voting_step [OF v auth _ _ core(1,2)]) (use msg d r in auto)
  show ?thesis using that [OF st'(1) _ st'(3)] st'(2) core(3,4) P(4) by (auto split: if_splits)
qed

lemma commit_accepted:
  assumes C: "scalar_laws C" "pairing_laws C" and keys: "keys_from_poly C cfg F"
    and v: "voting C cfg k st" and auth: "authentic C cfg msg"
    and q: "unat (quorum_size cfg) \<le> hm_len (hm_entry (prepare_votes (st_core st)) k)"
    and msg: "pm_phase msg = Commit" "proposal_key msg = k"
  obtains r st' where "handle_message C handler_io_ok msg st = (Ok r, st')" "r \<noteq> CHECKPOINT_OBSOLETE"
    "voting C cfg k st'"
    "commit_votes (st_core st') = add_vote k (pm_sender_id msg) (pm_signature msg) (commit_votes (st_core st))"
    "prepare_votes (st_core st') = prepare_votes (st_core st)"
proof -
  obtain vw s dg where kk: "k = (vw, s, dg)" by (cases k)
  note inv = votingD(1) [OF v] and cfg = votingD(2) [OF v]
  obtain res core where d: "dispatch C cfg msg (st_core st) = (res, core)" by fastforce
  have p: "on_commit C cfg msg (st_core st) = (res, core)" using d msg by (simp add: dispatch_def)
  have k: "pm_view msg = current_view (st_core st)" "proposal_key msg |\<in>| pre_prepared_proposals (st_core st)"
    "pm_view msg = vw" "pm_seq msg = s" "pm_digest msg = dg"
    using votingD(5,6) [OF v] msg kk by (auto simp: proposal_key_def)
  have cert: "has_certificate C cfg (\<lambda>view. view = pm_view msg) (pm_seq msg) (pm_digest msg) (st_core st)"
    using q kk k by (simp add: has_certificate_iff [OF inv])
  have nconf: "e = dg" if e: "fmlookup (committed_digest (st_core st)) (vw, s) = Some e" for e
  proof -
    have I: "tally (unat (quorum_size cfg)) mk_digest (commit_votes (st_core st)) (committed_digest (st_core st))"
      "voted (pre_prepared_proposals (st_core st)) (commit_votes (st_core st))"
      "unique_slots (pre_prepared_proposals (st_core st))"
      using inv by (simp_all add: core_inv_parts)
    have "unat (quorum_size cfg) \<le> hm_len (hm_entry (commit_votes (st_core st)) (vw, s, e))"
      using tallyD [OF I(1) e] by (auto simp: mk_digest_def)
    then have "hm_entry (commit_votes (st_core st)) (vw, s, e) \<noteq> fmempty"
      using cfg by (auto simp: config_ok_def)
    then have "(vw, s, e) |\<in>| pre_prepared_proposals (st_core st)" using I(2) by (simp add: voted_def)
    moreover have "(vw, s, dg) |\<in>| pre_prepared_proposals (st_core st)" using votingD(6) [OF v] kk by simp
    ultimately show ?thesis using I(3) unfolding unique_slots_def by blast
  qed
  have "res \<noteq> Err CERTIFICATE_VERIFICATION_FAILED"
    using dispatch_never_unverified [OF C keys inv auth] d by auto
  moreover have "(case fmlookup (committed_digest (st_core st)) (pm_view msg, pm_seq msg) of
      Some e \<Rightarrow> e \<noteq> pm_digest msg | None \<Rightarrow> False) = False"
    unfolding k(3-5) using nconf by (auto split: option.split)
  then have "res = Err CERTIFICATE_VERIFICATION_FAILED \<or> (\<exists>r. res = Ok r)"
    using p cert k(1,2) unfolding on_commit_def Let_def
    by (auto simp del: hm_len_upd split: if_splits)
  ultimately obtain r where r: "res = Ok r" by blast
  have p': "on_commit C cfg msg (st_core st) = (Ok r, core)" using p r by simp
  note P = on_commit_Ok [OF p']
  have core: "current_view core = current_view (st_core st)"
    "pre_prepared_proposals core = pre_prepared_proposals (st_core st)"
    "commit_votes core = add_vote k (pm_sender_id msg) (pm_signature msg) (commit_votes (st_core st))"
    "prepare_votes core = prepare_votes (st_core st)"
    by (auto simp: P(4) record_commit_def Let_def msg simp del: hm_len_upd split: prod.splits)
  obtain st' where st': "handle_message C handler_io_ok msg st = (Ok r, st')" "st_core st' = core" "voting C cfg k st'"
    by (rule voting_step [OF v auth _ _ core(1,2)]) (use msg d r in auto)
  show ?thesis using that [OF st'(1) _ st'(3)] st'(2) core(3,4) P(5) by (auto split: if_splits)
qed

abbreviation ok_events :: "'g1 pbft_message list \<Rightarrow> 'g1 node_event list" where
  "ok_events ms \<equiv> map (Pair handler_io_ok) ms"

lemma prepares_run:
  assumes C: "scalar_laws C" "pairing_laws C" and keys: "keys_from_poly C cfg F"
  shows "voting C cfg k st \<Longrightarrow>
    \<forall>m\<in>set ms. pm_phase m = Prepare \<and> proposal_key m = k \<and> authentic C cfg m \<Longrightarrow>
    \<exists>st'. node_trace C (ok_events ms) st = (ms, st') \<and> voting C cfg k st' \<and>
      signers (hm_entry (prepare_votes (st_core st)) k) \<union> pm_sender_id ` set ms
        \<subseteq> signers (hm_entry (prepare_votes (st_core st')) k)"
proof (induction ms arbitrary: st)
  case (Cons m ms)
  obtain r st1 where h: "handle_message C handler_io_ok m st = (Ok r, st1)" "r \<noteq> CHECKPOINT_OBSOLETE"
    "voting C cfg k st1"
    "prepare_votes (st_core st1) = add_vote k (pm_sender_id m) (pm_signature m) (prepare_votes (st_core st))"
    by (rule prepare_accepted [OF C keys Cons.prems(1), of m]) (use Cons.prems(2) in auto)
  obtain st' where "node_trace C (ok_events ms) st1 = (ms, st')" "voting C cfg k st'"
    "signers (hm_entry (prepare_votes (st_core st1)) k) \<union> pm_sender_id ` set ms
        \<subseteq> signers (hm_entry (prepare_votes (st_core st')) k)"
    using Cons.IH [OF h(3)] Cons.prems(2) by auto
  then show ?case using h by (auto simp: signers_def split: if_splits)
qed simp

lemma commits_run:
  assumes C: "scalar_laws C" "pairing_laws C" and keys: "keys_from_poly C cfg F"
  shows "voting C cfg k st \<Longrightarrow>
    unat (quorum_size cfg) \<le> hm_len (hm_entry (prepare_votes (st_core st)) k) \<Longrightarrow>
    \<forall>m\<in>set ms. pm_phase m = Commit \<and> proposal_key m = k \<and> authentic C cfg m \<Longrightarrow>
    \<exists>st'. node_trace C (ok_events ms) st = (ms, st') \<and> voting C cfg k st' \<and>
      signers (hm_entry (commit_votes (st_core st)) k) \<union> pm_sender_id ` set ms
        \<subseteq> signers (hm_entry (commit_votes (st_core st')) k)"
proof (induction ms arbitrary: st)
  case (Cons m ms)
  obtain r st1 where h: "handle_message C handler_io_ok m st = (Ok r, st1)" "r \<noteq> CHECKPOINT_OBSOLETE"
    "voting C cfg k st1"
    "commit_votes (st_core st1) = add_vote k (pm_sender_id m) (pm_signature m) (commit_votes (st_core st))"
    "prepare_votes (st_core st1) = prepare_votes (st_core st)"
    using commit_accepted [OF C keys Cons.prems(1) _ Cons.prems(2), of m] Cons.prems(3) by auto
  obtain st' where "node_trace C (ok_events ms) st1 = (ms, st')" "voting C cfg k st'"
    "signers (hm_entry (commit_votes (st_core st1)) k) \<union> pm_sender_id ` set ms
        \<subseteq> signers (hm_entry (commit_votes (st_core st')) k)"
    using Cons.IH [OF h(3)] Cons.prems(2,3) h(5) by auto
  then show ?case using h by (auto simp: signers_def split: if_splits)
qed simp

lemma node_trace_append:
  "node_trace C (xs @ ys) st =
    (let (a, st1) = node_trace C xs st; (b, st2) = node_trace C ys st1 in (a @ b, st2))"
  by (induction xs arbitrary: st) (auto split: prod.splits simp: Let_def)

lemma signers_quorum:
  assumes "distinct (map pm_sender_id ms)" "pm_sender_id ` set ms \<subseteq> signers sigs"
  shows "length ms \<le> hm_len sigs"
proof -
  have "finite (signers sigs)" by (simp add: signers_def flip: fmlookup_dom_iff)
  then have "card (pm_sender_id ` set ms) \<le> card (signers sigs)" using assms(2) by (rule card_mono)
  then show ?thesis using assms(1) by (simp add: card_signers distinct_card flip: set_map)
qed

text \<open>The whole round.\<close>

lemma round_commits:
  assumes C: "scalar_laws C" "pairing_laws C" and keys: "keys_from_poly C (st_config st) F"
    and st: "node_inv C st" "\<not> wal_failed st" "current_view (st_core st) = v"
      "\<forall>d. (v, s, d) |\<notin>| pre_prepared_proposals (st_core st)"
    and pp: "pm_phase pp = PrePrepare" "pm_sender_id pp = get_expected_leader (st_config st) v"
    and ps: "\<forall>m\<in>set ps. pm_phase m = Prepare" "distinct (map pm_sender_id ps)"
      "unat (quorum_size (st_config st)) \<le> length ps"
    and cs: "\<forall>m\<in>set cs. pm_phase m = Commit" "distinct (map pm_sender_id cs)"
      "unat (quorum_size (st_config st)) \<le> length cs"
    and all: "\<forall>m\<in>set (pp # ps @ cs). proposal_key m = (v, s, d) \<and> authentic C (st_config st) m"
  shows "\<exists>st'. node_trace C (ok_events (pp # ps @ cs)) st = (pp # ps @ cs, st') \<and>
    voting C (st_config st) (v, s, d) st' \<and> fmlookup (committed_digest (st_core st')) (v, s) = Some d"
proof -
  define cfg where "cfg = st_config st"
  define k where "k = (v, s, d)"
  obtain st1 where h0: "handle_message C handler_io_ok pp st = (Ok INBOUND_OK_PREPREPARE, st1)"
    and v1: "voting C cfg k st1"
    by (rule proposal_accepted [where k = k and pp = pp and cfg = cfg, OF st(1)])
      (use st pp all in \<open>simp_all add: cfg_def k_def\<close>)
  obtain st2 where s2: "node_trace C (ok_events ps) st1 = (ps, st2)" "voting C cfg k st2"
    "pm_sender_id ` set ps \<subseteq> signers (hm_entry (prepare_votes (st_core st2)) k)"
    using prepares_run [OF C keys [folded cfg_def] v1, of ps] ps(1) all by (auto simp: k_def cfg_def)
  have q2: "unat (quorum_size cfg) \<le> hm_len (hm_entry (prepare_votes (st_core st2)) k)"
    using signers_quorum [OF ps(2) s2(3)] ps(3) by (simp add: cfg_def)
  obtain st3 where s3: "node_trace C (ok_events cs) st2 = (cs, st3)" "voting C cfg k st3"
    "pm_sender_id ` set cs \<subseteq> signers (hm_entry (commit_votes (st_core st3)) k)"
    using commits_run [OF C keys [folded cfg_def] s2(2) q2, of cs] cs(1) all by (auto simp: k_def cfg_def)
  have q3: "unat (quorum_size cfg) \<le> hm_len (hm_entry (commit_votes (st_core st3)) (v, s, d))"
    using signers_quorum [OF cs(2) s3(3)] cs(3) by (simp add: cfg_def k_def)
  have c: "fmlookup (committed_digest (st_core st3)) (v, s) = Some d"
    by (rule voting_commits [OF s3(2) [unfolded k_def] q3])
  have "node_trace C (ok_events (pp # ps @ cs)) st = (pp # ps @ cs, st3)"
    using h0 s2(1) s3(1) by (simp add: node_trace_append)
  then show ?thesis using c s3(2) by (auto simp: cfg_def k_def)
qed

end
