(* ===== verification/Samples.thy ===== *)
theory Samples
  imports Bootstrap Cluster Pbft_Round
begin

text \<open>
  Concrete configurations and messages on which the properties of the consensus are exercised:
  a single-replica configuration over the permissive curve, where every signature verifies, and
  the messages of one round on it; the rational line, a shortened version of it whose points have
  encodings, and four nodes that generate keys.
\<close>

section \<open>The permissive curve accepts every quorum\<close>

lemma permissive_verify [simp]: "verify_bls_signature permissive m sig pk"
  by (simp add: verify_bls_signature_def Let_def)

lemma permissive_x_coord [simp]: "x_coord permissive i = x_coord permissive j \<longleftrightarrow> i = j"
proof
  assume "x_coord permissive i = x_coord permissive j"
  then have "unat (ucast (i + 1) :: u64) = unat (ucast (j + 1) :: u64)"
    by (simp only: x_coord_def permissive_simps of_nat_eq_iff)
  then show "i = j" by (simp only: unat_ucast_u64 word_unat_eq_iff [symmetric]) simp
qed simp

lemma permissive_reconstruct:
  assumes "distinct ids"
  shows "\<exists>R. reconstruct_loop permissive sigs ids rest acc = Some R"
proof (induction rest arbitrary: acc)
  case Nil
  show ?case by simp
next
  case (Cons i rest)
  have "(\<Prod>j\<in>set ids - {i}. x_coord permissive i - x_coord permissive j) \<noteq> 0" by auto
  then show ?case using Cons by (simp add: lagrange_loop_prod [OF assms])
qed

lemma permissive_threshold [simp]:
  "verify_threshold_signature permissive m sigs pk t \<longleftrightarrow> unat t \<le> hm_len sigs"
  using permissive_reconstruct [OF signer_ids_props(1), of sigs sigs t "signer_ids sigs t" 0]
  by (auto simp: verify_threshold_signature_def Let_def)

section \<open>One replica\<close>

definition solo_config :: "u64 pbft_config" where
  "solo_config = \<lparr>total_nodes = 1, byz_f = 0, quorum_size = 1, registered_nodes = {|0|},
     public_keys = fmupd 0 7 fmempty, master_public_key = 7\<rparr>"

definition solo_state :: "(u64, u64) pbft_state" where
  "solo_state = \<lparr>st_config = solo_config, st_core = empty_core, st_wal = wal_open [],
     wal_failed = False\<rparr>"

definition solo_message :: "phase \<Rightarrow> u64 \<Rightarrow> u64 \<Rightarrow> u8 \<Rightarrow> u64 pbft_message" where
  "solo_message p v s d = \<lparr>pm_phase = p, pm_view = v, pm_seq = s, pm_digest = replicate 32 d,
     pm_sender_id = 0, pm_signature = 0\<rparr>"

abbreviation solo_event :: "phase \<Rightarrow> u64 \<Rightarrow> u64 \<Rightarrow> u8 \<Rightarrow> u64 node_event" where
  "solo_event p v s d \<equiv> (handler_io_ok, solo_message p v s d)"

lemma solo_make_config: "make_config 1 (fmupd 0 7 fmempty) 7 = Ok solo_config"
  by (simp add: make_config_def solo_config_def)

lemma solo_config_ok: "config_ok solo_config"
  by (simp add: config_ok_def solo_config_def)

lemma solo_topology_ok: "topology_ok solo_config"
  by (simp add: topology_ok_def solo_config_def)

lemma solo_node_inv: "node_inv permissive solo_state"
  by (simp add: node_inv_def solo_state_def solo_config_ok empty_core_inv)

lemmas solo_simps = solo_state_def solo_config_def solo_message_def handle_message_def
  handler_io_ok_def dispatch_def proposal_key_def get_expected_leader_def empty_core_def
  append_entry_def wal_open_def Let_def pc_verify_def cc_verify_def hm_any_iff has_certificate_def
  on_pre_prepare_def on_prepare_def on_commit_def on_checkpoint_def on_view_change_def

lemma hm_items_single [simp]: "hm_items (fmupd k v fmempty) = [(k, v)]"
  by (simp add: hm_items_def sorted_list_of_fset.rep_eq)

lemma hm_values_single [simp]: "hm_values (fmupd k v fmempty) = [v]"
  by (simp add: hm_values_def)

lemmas solo_view_simps = solo_simps install_new_view_def highest_view_change_slot_def
  highest_slot_of_def select_highest_eq cert_eligible_def nv_verify_def vc_vote_valid_def

section \<open>A round on one replica\<close>

definition empty_disk :: recovery_io where
  "empty_disk = \<lparr>o_open = True, o_reopen = True, o_reads = [], o_disk = []\<rparr>"

definition solo_round :: "u8 \<Rightarrow> u64 node_event list" where
  "solo_round d =
     [solo_event PrePrepare 0 1 d, solo_event Prepare 0 1 d, solo_event Commit 0 1 d]"

definition solo_after :: "u8 \<Rightarrow> (u64, u64) pbft_state" where
  "solo_after d = fold (node_step permissive) (solo_round d) solo_state"

lemma solo_fresh: "new_with_wal_path permissive empty_disk 1 (fmupd 0 7 fmempty) 7 = Ok solo_state"
  using new_with_wal_path_rows [where C = permissive and rs = "[]" and io = empty_disk,
      OF permissive_g1_codec _ _ _ _ _ solo_make_config]
  by (simp add: empty_disk_def no_fault_def solo_state_def) (simp add: empty_core_def)

lemma solo_after_fields:
  "st_config (solo_after d) = solo_config" "\<not> wal_failed (solo_after d)"
  "last_stable_checkpoint (st_core (solo_after d)) = 0"
  "fmlookup (committed_digest (st_core (solo_after d))) (0, 1) = Some (replicate 32 d)"
  "fmlookup (prepared_certificates (st_core (solo_after d))) (0, 1) =
     Some \<lparr>pc_view = 0, pc_seq = 1, pc_digest = replicate 32 d, pc_signatures = fmupd 0 0 fmempty\<rparr>"
  by (simp_all add: solo_after_def solo_round_def node_step_def solo_simps)

lemma solo_after_trace:
  "node_trace permissive (solo_round d) solo_state = (map snd (solo_round d), solo_after d)"
proof -
  have "fst (node_trace permissive (solo_round d) solo_state) = map snd (solo_round d)"
    by (simp add: solo_round_def solo_simps)
  moreover have "snd (node_trace permissive (solo_round d) solo_state) = solo_after d"
    by (simp add: node_trace_run solo_after_def)
  ultimately show ?thesis by (simp add: prod_eq_iff)
qed

lemma solo_after_inv: "node_inv permissive (solo_after d)"
  unfolding solo_after_def by (rule node.run_inv [OF solo_node_inv])

section \<open>A cluster of one replica\<close>

definition solo_endpoint :: "(rat, u64, u64) endpoint" where
  "solo_endpoint = \<lparr>e_state = Some solo_state, e_sk = Some 0, e_tx_pbft = [], e_tx_dkg = []\<rparr>"

definition solo_proposal :: "u64 pbft_message" where
  "solo_proposal = solo_message PrePrepare 0 1 9"

abbreviation solo_vote :: "phase \<Rightarrow> u64 pbft_message" where
  "solo_vote p \<equiv> own_vote permissive 0 0 p solo_proposal"

definition solo_packet :: "u64 pbft_message \<Rightarrow> (rat, u64, u64) endpoint \<Rightarrow> (rat, u64, u64) endpoint" where
  "solo_packet msg ep = snd (on_pbft_packet permissive handler_io_ok 0 msg ep)"

definition solo_cluster :: "(rat, u64, u64) endpoint \<Rightarrow> (u32 \<times> bytes) set \<Rightarrow> (rat, u64, u64) cluster" where
  "solo_cluster ep S = \<lparr>cl_nodes = (\<lambda>_. solo_endpoint)(0 := ep), cl_signed = S\<rparr>"

definition solo_1 where "solo_1 = solo_packet solo_proposal solo_endpoint"
definition solo_2 where "solo_2 = solo_packet (solo_vote Prepare) solo_1"
definition solo_3 where "solo_3 = solo_packet (solo_vote Commit) solo_2"

lemmas solo_packet_simps = solo_packet_def on_pbft_packet_def outgoing_def solo_endpoint_def
  solo_proposal_def own_vote_def hm_contains_def

lemma solo_1: "e_tx_pbft solo_1 = [solo_vote Prepare]" 
  by (simp add: solo_1_def solo_packet_simps solo_simps)
lemma solo_2: "e_tx_pbft solo_2 = [solo_vote Prepare, solo_vote Commit]" 
  by (simp add: solo_2_def solo_1_def solo_packet_simps solo_simps)
lemma solo_3: "e_tx_pbft solo_3 = [solo_vote Prepare, solo_vote Commit]"
   "fmlookup (committed_digest (st_core (the (e_state solo_3)))) (0, 1) = Some (replicate 32 9)"
   "last_stable_checkpoint (st_core (the (e_state solo_3))) = 0"
  by (simp_all add: solo_3_def solo_2_def solo_1_def solo_packet_simps solo_simps)

lemma solo_deliver:
  assumes "cluster_reach permissive {0} G0 (solo_cluster ep S)"
    and "(0, pm_canonical msg) \<in> S" "pm_sender_id msg = 0"
    and "e_tx_pbft (solo_packet msg ep) = e_tx_pbft ep @ out"
  shows "cluster_reach permissive {0} G0 (solo_cluster (solo_packet msg ep) (S \<union> signed_by 0 out))"
proof -
  obtain res where p: "on_pbft_packet permissive handler_io_ok 0 msg ep = (res, solo_packet msg ep)"
    by (cases "on_pbft_packet permissive handler_io_ok 0 msg ep") (simp add: solo_packet_def)
  have "cluster_step permissive {0} (solo_cluster ep S)
      \<lparr>cl_nodes = (cl_nodes (solo_cluster ep S))(0 := solo_packet msg ep),
       cl_signed = cl_signed (solo_cluster ep S) \<union> signed_by 0 out\<rparr>"
    by (rule cluster_step.deliver)
      (use assms(2-4) p in \<open>auto simp: solo_cluster_def genuine_def\<close>)
  from cluster_reach.step [OF assms(1) this] show ?thesis by (simp add: solo_cluster_def)
qed

lemma solo_reach:
  "\<exists>S. cluster_reach permissive {0} (solo_cluster solo_endpoint {}) (solo_cluster solo_3 S)"
proof -
  let ?G0 = "solo_cluster solo_endpoint {}"
  have nv: "no_vote (pm_canonical solo_proposal)"
    by (auto simp: no_vote_def pm_canonical_def solo_proposal_def solo_message_def)
  have "cluster_step permissive {0} ?G0 (?G0\<lparr>cl_signed := insert (0, pm_canonical solo_proposal) (cl_signed ?G0)\<rparr>)"
    by (rule cluster_step.sign) (use nv in auto)
  from cluster_reach.step [OF cluster_reach.start this]
  have r0: "cluster_reach permissive {0} ?G0 (solo_cluster solo_endpoint {(0, pm_canonical solo_proposal)})"
    by (simp add: solo_cluster_def)
  have r1: "cluster_reach permissive {0} ?G0 (solo_cluster solo_1
      ({(0, pm_canonical solo_proposal)} \<union> signed_by 0 [solo_vote Prepare]))"
    unfolding solo_1_def
    by (rule solo_deliver [OF r0])
      (use solo_1 in \<open>simp_all add: solo_1_def, simp_all add: solo_endpoint_def solo_proposal_def solo_message_def\<close>)
  have r2: "cluster_reach permissive {0} ?G0 (solo_cluster solo_2
      (({(0, pm_canonical solo_proposal)} \<union> signed_by 0 [solo_vote Prepare]) \<union> signed_by 0 [solo_vote Commit]))"
    unfolding solo_2_def
    by (rule solo_deliver [OF r1])
      (use solo_1 solo_2 in \<open>simp_all add: solo_2_def signed_by_def own_vote_def\<close>)
  have r3: "cluster_reach permissive {0} ?G0 (solo_cluster solo_3
      ((({(0, pm_canonical solo_proposal)} \<union> signed_by 0 [solo_vote Prepare]) \<union> signed_by 0 [solo_vote Commit]) \<union> signed_by 0 ([] :: u64 pbft_message list)))"
    unfolding solo_3_def
    by (rule solo_deliver [OF r2])
      (use solo_2 solo_3(1) in \<open>simp_all add: solo_3_def signed_by_def own_vote_def\<close>)
  then show ?thesis by blast
qed

lemma solo_fresh_cluster: "fresh_cluster {0} solo_config (solo_cluster solo_endpoint {})"
  by (simp add: fresh_cluster_def solo_cluster_def solo_endpoint_def solo_state_def)

section \<open>A replica over the rational line\<close>

definition line_config :: "rat pbft_config" where
  "line_config = \<lparr>total_nodes = 1, byz_f = 0, quorum_size = 1, registered_nodes = {|0|},
     public_keys = fmupd 0 5 fmempty, master_public_key = 5\<rparr>"

definition line_state :: "(rat, rat) pbft_state" where
  "line_state = \<lparr>st_config = line_config, st_core = empty_core, st_wal = wal_open [],
     wal_failed = False\<rparr>"

definition line_message :: "phase \<Rightarrow> rat pbft_message" where
  "line_message p = \<lparr>pm_phase = p, pm_view = 0, pm_seq = 1, pm_digest = replicate 32 9,
     pm_sender_id = 0, pm_signature =
       sign_bls_message rat_line (canonical_msg (phase_u8 p) 0 1 (replicate 32 9)) 5\<rparr>"

lemma line_keys: "keys_from_poly rat_line line_config [5]"
  by (simp add: keys_from_poly_def line_config_def poly_eval_Cons)

lemma line_node_inv: "node_inv rat_line line_state"
  by (simp add: node_inv_def line_state_def empty_core_inv config_ok_def line_config_def)

lemma line_authentic: "authentic rat_line line_config (line_message p)"
  using sign_verify [OF rat_line_pairing_laws, of _ 5]
  by (simp add: vote_auth_def line_config_def line_message_def pm_canonical_def)

section \<open>A curve with encodings of all three kinds\<close>

text \<open>The field of two elements, so that scalars have a fixed-width encoding.\<close>

datatype gf2 = O2 | I2

instantiation gf2 :: field
begin

definition zero_gf2 :: gf2 where "0 = O2"
definition one_gf2 :: gf2 where "1 = I2"
definition plus_gf2 :: "gf2 \<Rightarrow> gf2 \<Rightarrow> gf2" where "a + b = (if a = b then O2 else I2)"
definition times_gf2 :: "gf2 \<Rightarrow> gf2 \<Rightarrow> gf2" where "a * b = (if a = I2 then b else O2)"
definition uminus_gf2 :: "gf2 \<Rightarrow> gf2" where "- a = (a :: gf2)"
definition minus_gf2 :: "gf2 \<Rightarrow> gf2 \<Rightarrow> gf2" where "a - b = a + (b :: gf2)"
definition inverse_gf2 :: "gf2 \<Rightarrow> gf2" where "inverse a = (a :: gf2)"
definition divide_gf2 :: "gf2 \<Rightarrow> gf2 \<Rightarrow> gf2" where "a div b = a * (b :: gf2)"

instance
proof
  fix a b c :: gf2
  show "a + b + c = a + (b + c)" "a + b = b + a" "0 + a = a" "- a + a = 0" "a - b = a + - b"
    "a * b * c = a * (b * c)" "a * b = b * a" "1 * a = a" "(a + b) * c = a * c + b * c"
    by (cases a; cases b; cases c; simp add: zero_gf2_def one_gf2_def plus_gf2_def times_gf2_def
        uminus_gf2_def minus_gf2_def)+
  show "(0 :: gf2) \<noteq> 1" by (simp add: zero_gf2_def one_gf2_def)
  show "a \<noteq> 0 \<Longrightarrow> inverse a * a = 1"
    by (cases a) (simp_all add: zero_gf2_def one_gf2_def times_gf2_def inverse_gf2_def)
  show "a div b = a * inverse b" by (simp add: divide_gf2_def inverse_gf2_def)
  show "inverse (0 :: gf2) = 0" by (simp add: inverse_gf2_def)
qed

end

definition gf2_encode :: "gf2 \<Rightarrow> bytes" where
  "gf2_encode x = replicate 31 0 @ [if x = I2 then 1 else 0]"

definition gf2_decode :: "bytes \<Rightarrow> gf2 option" where
  "gf2_decode bs = (if bs = gf2_encode O2 then Some O2 else if bs = gf2_encode I2 then Some I2 else None)"

definition wire_curve :: "(gf2, u64, u64, unit) bls" where
  "wire_curve = \<lparr>
     g1_generator = 1, g2_generator = 1, g1_mul = (\<lambda>P k. P), g2_mul = (\<lambda>P k. P),
     pairing = (\<lambda>P Q. ()), hash_to_curve = (\<lambda>msg dst. 1),
     scalar_from_u64 = (\<lambda>n. if odd (unat n) then I2 else O2),
     scalar_to_bytes = gf2_encode, scalar_from_bytes = gf2_decode,
     scalar_from_bytes_wide = (\<lambda>bs. if odd (be_value bs) then I2 else O2),
     g1_to_compressed = pad_encode 40, g1_from_compressed = pad_decode 40,
     g2_to_compressed = pad_encode 88, g2_from_compressed = pad_decode 88\<rparr>"

lemma gf2_codec: "length (gf2_encode x) = 32 \<and> gf2_decode (gf2_encode x) = Some x"
  by (cases x) (simp_all add: gf2_decode_def gf2_encode_def)

lemma gf2_decode_Some: "gf2_decode bs = Some x \<longleftrightarrow> bs = gf2_encode x"
  by (cases x) (auto simp: gf2_decode_def, auto simp: gf2_encode_def)

lemma wire_curve_codec: "dkg_codec_laws wire_curve"
  by (simp add: dkg_codec_laws_def g1_codec_laws_def g2_codec_laws_def scalar_codec_laws_def
      wire_curve_def gf2_codec gf2_decode_Some pad_encode_decode)
    (simp add: pad_encode_def)

definition wire_share :: "(gf2, u64, u64) dkg_share_message" where
  "wire_share = \<lparr>ds_from_node = 1, ds_to_node = 0, ds_share = I2, ds_commitments = [5, 6],
     ds_signature = 7\<rparr>"

definition wire_endpoint :: "(gf2, u64, u64) endpoint" where
  "wire_endpoint = \<lparr>e_state = Some solo_state, e_sk = Some O2, e_tx_pbft = [], e_tx_dkg = []\<rparr>"

section \<open>Shares of a polynomial over the rational line\<close>

definition line_shares :: "(u32, rat) fmap" where
  "line_shares = fmupd 0 (8 * 5) (fmupd 3 (8 * 11) (fmupd 9 (8 * 23) fmempty))"

lemma line_shares_poly:
  "fmlookup line_shares i = Some sig \<Longrightarrow>
    sig = sign_bls_message rat_line [7] (poly_eval [3, 2] (x_coord rat_line i))"
  by (auto simp: line_shares_def sign_bls_message_def hash_message_to_curve_def be_value_def
      poly_eval_Cons x_coord_def split: if_splits)

lemma line_shares_len: "hm_len line_shares = 3"
  by (simp add: line_shares_def)

lemma line_shares_verify: "verify_threshold_signature rat_line [7] line_shares 3 2"
  using threshold_complete [OF rat_line_scalar_laws rat_line_pairing_laws, of "[3, 2]" 2 line_shares "[7]"]
    line_shares_poly line_shares_len by simp

section \<open>A curve whose messages travel\<close>

text \<open>The rational line with a hash of the first four bytes and encodings of the natural numbers
  below \<open>2^64\<close>.\<close>

definition nat_encode :: "nat \<Rightarrow> rat \<Rightarrow> bytes" where
  "nat_encode k x = pad_encode k (word_of_nat (nat \<lfloor>x\<rfloor>))"

definition nat_decode :: "nat \<Rightarrow> bytes \<Rightarrow> rat option" where
  "nat_decode k bs = map_option (\<lambda>w. of_nat (unat w)) (pad_decode k bs)"

definition short_line :: "(rat, rat, rat, rat) bls" where
  "short_line = rat_line\<lparr>hash_to_curve := (\<lambda>msg dst. 1 + of_nat (be_value (take 4 msg))),
     scalar_to_bytes := nat_encode 24, scalar_from_bytes := nat_decode 24,
     g1_to_compressed := nat_encode 40, g1_from_compressed := nat_decode 40,
     g2_to_compressed := nat_encode 88, g2_from_compressed := nat_decode 88\<rparr>"

lemma short_line_laws:
  "scalar_laws short_line" "pairing_laws short_line" "g2_generator_faithful short_line"
  using rat_line_scalar_laws rat_line_pairing_laws rat_line_faithful
  by (simp_all add: scalar_laws_def pairing_laws_def g2_generator_faithful_def short_line_def)

lemma nat_codec:
  assumes "k < 2 ^ 64"
  shows "length (nat_encode m (of_nat k)) = m + 8" "nat_decode m (nat_encode m (of_nat k)) = Some (of_nat k)"
proof -
  have "unat (word_of_nat k :: u64) = k" using assms by (simp add: unat_of_nat)
  then show "nat_decode m (nat_encode m (of_nat k)) = Some (of_nat k)"
    by (simp add: nat_decode_def nat_encode_def del: of_nat_unat)
qed (simp add: nat_encode_def pad_encode_def)

lemma short_line_encodable:
  assumes "k < 2 ^ 64"
  shows "g1_encodable short_line (of_nat k)" "g2_encodable short_line (of_nat k)" "scalar_encodable short_line (of_nat k)"
  using nat_codec [OF assms]
  by (simp_all add: g1_encodable_def g2_encodable_def scalar_encodable_def short_line_def)

lemma short_line_signature:
  assumes "k < 2 ^ 16"
  shows "g1_encodable short_line (sign_bls_message short_line m (of_nat k))"
proof -
  define h where "h = 1 + be_value (take 4 m)"
  have "be_value (take 4 m) < 256 ^ length (take 4 m)" by (rule be_value_less)
  also have "\<dots> \<le> 256 ^ 4" by (rule power_increasing) simp_all
  finally have "h \<le> 2 ^ 32" by (simp add: h_def)
  then have "h * k < 2 ^ 32 * 2 ^ 16 + 1" using mult_le_mono [of h "2 ^ 32" k "2 ^ 16"] assms by simp
  then have "h * k < 2 ^ 64" by simp
  moreover have "sign_bls_message short_line m (of_nat k) = of_nat (h * k)"
    by (simp add: sign_bls_message_def hash_message_to_curve_def short_line_def h_def algebra_simps)
  ultimately show ?thesis using short_line_encodable(1) [of "h * k"] by (simp del: of_nat_mult)
qed

section \<open>Four nodes that generate keys\<close>

definition quad_node :: node_config where
  "quad_node = \<lparr>nc_node_id = 0, nc_total_nodes = 4, nc_threshold = 2\<rparr>"

definition quad_dealers :: "(rat, rat) dkg_session list" where
  "quad_dealers = map (\<lambda>j. dkg_new (\<lambda>k. of_nat (k + unat j)) j 2 4) [1, 2, 3]"

definition quad_events :: "(rat, rat, rat) inbound list" where
  "quad_events = map (\<lambda>D. Share (dealt rat_line quad_node D)) quad_dealers"

lemma below_four: "{i :: u32. unat i < 4} = {0, 1, 2, 3}"
proof -
  have "unat i < 4 \<longleftrightarrow> unat i = unat (0 :: u32) \<or> unat i = unat (1 :: u32) \<or>
      unat i = unat (2 :: u32) \<or> unat i = unat (3 :: u32)" for i :: u32
    by auto
  then show ?thesis unfolding word_unat_eq_iff [symmetric] by auto
qed

lemma quad_bootstrap:
  "\<exists>share st. bootstrap rat_line empty_disk quad_node (\<lambda>k. 3) quad_events = Ok (share, st)"
  unfolding quad_events_def
proof (rule honest_bootstrap [OF rat_line_scalar_laws rat_line_pairing_laws rat_line_faithful])
  show "dk_node_id ` set quad_dealers = {i. unat i < unat (nc_total_nodes quad_node)} - {nc_node_id quad_node}"
    by (auto simp: quad_dealers_def quad_node_def dkg_new_def below_four)
qed (simp_all add: quad_node_def quad_dealers_def dkg_new_def empty_disk_def no_fault_def)

end
