(* ===== verification/Pbft_Crash.thy ===== *)
theory Pbft_Crash
  imports Pbft_Durability
begin

text \<open>
  Crashes of a replica at any point. A run that stops with a failed append, or a crash while an
  append is in progress, leaves the rows of the acknowledged messages and a part of one more row.
  The lemmas describe these files and what recovery makes of them: with none of the last row the
  state at the crash, with all of it the state after its message, and else an error.
\<close>

section \<open>The last row\<close>

text \<open>A message that stabilizes a checkpoint, and its row: recovery drops the slots at the end.\<close>

lemma recover_stabilized:
  assumes auth: "vote_auth C cfg (pm_canonical msg) (pm_sender_id msg) (pm_signature msg)"
    and ok: "dispatch C cfg msg st = (Ok CHECKPOINT_STABILIZED, st')"
    and adm: "pm_phase msg = Checkpoint \<Longrightarrow> last_stable_checkpoint st < pm_seq msg"
    and sim: "same_core st rc"
  obtains rc' where "recover_core C cfg (msg_row msg) rc = Some rc'"
    "0 < last_stable_checkpoint rc'" "same_core st' (retain_after (last_stable_checkpoint rc') rc')"
proof -
  obtain h0 where rc: "rc = st\<lparr>highest_seq := h0\<rparr>" using sim by (auto simp: same_core_def)
  have ph: "pm_phase msg = Checkpoint" using stabilized_positive [OF ok adm] by simp
  then have c: "on_checkpoint cfg msg st = (Ok CHECKPOINT_STABILIZED, st')" using ok by (simp add: dispatch_def)
  define h where "h = max h0 (pm_seq msg)"
  let ?sigs = "fmupd (pm_sender_id msg) (pm_signature msg) (hm_entry (checkpoint_votes st) (proposal_key msg))"
  let ?rc = "st\<lparr>highest_seq := h, checkpoint_votes := fmupd (proposal_key msg) ?sigs (checkpoint_votes st),
    last_stable_checkpoint := pm_seq msg\<rparr>"
  have C: "current_view st = pm_view msg" "unat (quorum_size cfg) \<le> hm_len ?sigs"
    "st' = retain_after (pm_seq msg) (st\<lparr>checkpoint_votes := fmupd (proposal_key msg) ?sigs (checkpoint_votes st),
        last_stable_checkpoint := pm_seq msg\<rparr>)"
    using c by (auto simp: on_checkpoint_def Let_def simp del: hm_len_upd split: if_splits)
  have "recover_core C cfg (msg_row msg) rc = recover_checkpoint cfg (msg_row msg) (st\<lparr>highest_seq := h\<rparr>)"
    unfolding rc using recover_core_message [OF auth ok, of h0] ph by (simp add: h_def)
  also have "\<dots> = Some ?rc"
    using C adm [OF ph] by (simp add: recover_checkpoint_def Let_def del: hm_len_upd)
  finally show thesis
  proof (rule that)
    show "0 < last_stable_checkpoint ?rc" using adm [OF ph] word_gt_0 not_less_zero by fastforce
    show "same_core st' (retain_after (last_stable_checkpoint ?rc) ?rc)"
      unfolding same_core_def by (rule exI [of _ h]) (simp add: C(3) retain_after_def cong del: fmfilter_cong)
  qed
qed

text \<open>The state a construction returns, from the rows it finds.\<close>

definition recovered :: "'g1 pbft_core \<Rightarrow> 'g1 pbft_core" where
  "recovered core = (if 0 < last_stable_checkpoint core
     then retain_after (last_stable_checkpoint core) core else core)"

lemma dispatch_recovered:
  assumes "core_inv C cfg st" "config_ok cfg"
    and auth: "vote_auth C cfg (pm_canonical msg) (pm_sender_id msg) (pm_signature msg)"
    and ok: "dispatch C cfg msg st = (Ok r, st')"
    and adm: "pm_phase msg = Checkpoint \<Longrightarrow> last_stable_checkpoint st < pm_seq msg"
    and sim: "same_core st rc" and fresh: "last_stable_checkpoint st = 0"
  obtains rc' where "recover_core C cfg (msg_row msg) rc = Some rc'" "same_core st' (recovered rc')"
proof (cases "r = CHECKPOINT_STABILIZED")
  case True
  obtain rc' where "recover_core C cfg (msg_row msg) rc = Some rc'"
    "0 < last_stable_checkpoint rc'" "same_core st' (retain_after (last_stable_checkpoint rc') rc')"
    by (rule recover_stabilized [OF auth ok [unfolded True] adm sim])
  then show ?thesis using that by (simp add: recovered_def)
next
  case False
  obtain rc' where rc': "recover_core C cfg (msg_row msg) rc = Some rc'" "same_core st' rc'"
    by (rule dispatch_sim [OF assms(1,2) auth ok False sim])
  have "last_stable_checkpoint st' = 0"
  proof (rule ccontr)
    assume "last_stable_checkpoint st' \<noteq> 0"
    then have changed: "last_stable_checkpoint st' \<noteq> last_stable_checkpoint st" using fresh by simp
    show False using dispatch_checkpoint_changed [OF ok changed] ok False by (simp add: dispatch_def)
  qed
  then have "recovered rc' = rc'" using rc'(2) by (auto simp: recovered_def same_core_def)
  then show ?thesis using that rc' by simp
qed

section \<open>A failed append\<close>

text \<open>How a message makes the log fail before any checkpoint is stable.\<close>

lemma handle_message_fails:
  assumes h: "handle_message C io msg st = (res, st')" and live: "\<not> wal_failed st" "wal_failed st'"
    and fresh: "last_stable_checkpoint (st_core st') = 0"
  shows "admissible C msg st" "st_config st' = st_config st" "st_core st' = st_core st" "\<not> is_ok res"
    "\<exists>r core. dispatch C (st_config st) msg (st_core st) = (Ok r, core)"
    "\<exists>e. append_entry C (h_append io) (msg_row msg) (st_wal st) = (Err e, st_wal st')"
proof -
  have adm: "admissible C msg st \<and> (\<exists>r core. dispatch C (st_config st) msg (st_core st) = (Ok r, core) \<and>
      (((\<exists>e. append_entry C (h_append io) (msg_row msg) (st_wal st) = (Err e, st_wal st')) \<and> res = Err WAL_ERROR \<and>
          st_config st' = st_config st \<and> st_core st' = restore_state (st_core st) core) \<or>
       (r = CHECKPOINT_STABILIZED \<and> st_core st' = core)))"
    using h live by (auto simp: handle_message_def Let_def admissible_def vote_auth_def not_le
        split: if_splits option.splits prod.splits sum.splits)
  then obtain r core where d: "dispatch C (st_config st) msg (st_core st) = (Ok r, core)" and a: "admissible C msg st"
    and c: "((\<exists>e. append_entry C (h_append io) (msg_row msg) (st_wal st) = (Err e, st_wal st')) \<and> res = Err WAL_ERROR \<and>
          st_config st' = st_config st \<and> st_core st' = restore_state (st_core st) core) \<or>
       (r = CHECKPOINT_STABILIZED \<and> st_core st' = core)" by blast
  have ns: "\<not> (r = CHECKPOINT_STABILIZED \<and> st_core st' = core)"
  proof
    assume "r = CHECKPOINT_STABILIZED \<and> st_core st' = core"
    then have "dispatch C (st_config st) msg (st_core st) = (Ok CHECKPOINT_STABILIZED, st_core st')" using d by simp
    from stabilized_positive [OF this] a fresh show False by (auto simp: admissible_def)
  qed
  show "admissible C msg st" by (rule a)
  show "\<exists>r core. dispatch C (st_config st) msg (st_core st) = (Ok r, core)" using d by blast
  show "st_config st' = st_config st" "\<not> is_ok res"
    "\<exists>e. append_entry C (h_append io) (msg_row msg) (st_wal st) = (Err e, st_wal st')"
    using c ns by auto
  show "st_core st' = st_core st" using c ns by (simp add: restore_state_def)
qed

text \<open>A stopped replica: the rows \<open>rs\<close> are durable and recover its core, a prefix of the row of a
  message it would accept may follow them.\<close>

definition stopped_inv ::
  "('s::field, 'g1::ab_group_add, 'g2, 'gt) bls \<Rightarrow> ('g1, 'g2) pbft_state \<Rightarrow> 'g1 wal_row list \<Rightarrow>
    'g1 pbft_message \<Rightarrow> bool" where
  "stopped_inv C st rs msg \<longleftrightarrow> wal_failed st \<and> pm_wf msg \<and> (\<forall>r\<in>set rs. row_wf r) \<and>
     durable (st_wal st) = encode_rows C rs \<and> \<not> detached (st_wal st) \<and>
     (\<exists>n. content (st_wal st) = encode_rows C rs @ take n (row_to_bytes C (msg_row msg))) \<and>
     admissible C msg (st\<lparr>wal_failed := False\<rparr>) \<and>
     (\<exists>r core. dispatch C (st_config st) msg (st_core st) = (Ok r, core)) \<and>
     (\<exists>rc. recover_rows C (st_config st) rs empty_core = Some rc \<and> same_core (st_core st) rc)"

lemma stopped_image:
  assumes "stopped_inv C st rs msg" "crash_image (st_wal st) b"
  shows "\<exists>k. b = encode_rows C rs @ take k (row_to_bytes C (msg_row msg))"
proof -
  obtain n where n: "content (st_wal st) = encode_rows C rs @ take n (row_to_bytes C (msg_row msg))"
    "durable (st_wal st) = encode_rows C rs"
    using assms(1) by (auto simp: stopped_inv_def)
  from assms(2) consider "b = encode_rows C rs @ take 0 (row_to_bytes C (msg_row msg))"
    | "b = encode_rows C rs @ take n (row_to_bytes C (msg_row msg))"
    | k where "length (encode_rows C rs) \<le> k" "b = take k (content (st_wal st))"
    by (auto simp: crash_image_def n)
  then show ?thesis
  proof cases
    case 3
    then have "b = encode_rows C rs @ take (min (k - length (encode_rows C rs)) n) (row_to_bytes C (msg_row msg))"
      by (simp add: n)
    then show ?thesis by blast
  qed blast+
qed

lemma handle_message_stops:
  assumes inv: "node_inv C st" and dur: "durable_inv C st rs" and h: "handle_message C io msg st = (res, st')"
    and live: "\<not> wal_failed st" "wal_failed st'" and wf: "pm_wf msg"
    and fresh: "last_stable_checkpoint (st_core st') = 0"
  shows "stopped_inv C st' rs msg"
proof -
  note F = handle_message_fails [OF h live fresh]
  obtain e where e: "append_entry C (h_append io) (msg_row msg) (st_wal st) = (Err e, st_wal st')" using F(6) by blast
  have log: "wal_log C (st_wal st) rs" using dur by (simp add: durable_inv_def)
  have w: "durable (st_wal st') = encode_rows C rs \<and> \<not> detached (st_wal st') \<and>
      (\<exists>n. content (st_wal st') = encode_rows C rs @ take n (row_to_bytes C (msg_row msg)))"
  proof (cases "a_write (h_append io)")
    case None
    then have "st_wal st' = (st_wal st)\<lparr>content := content (st_wal st) @ row_to_bytes C (msg_row msg)\<rparr>"
      using e log by (simp add: append_entry_def wal_log_def Let_def split: if_splits)
    then show ?thesis using log
      by (simp add: wal_log_def exI [of _ "length (row_to_bytes C (msg_row msg))"])
  next
    case (Some n)
    then have "st_wal st' = (st_wal st)\<lparr>content := content (st_wal st) @ take n (row_to_bytes C (msg_row msg))\<rparr>"
      using e log by (auto simp: append_entry_def wal_log_def Let_def)
    then show ?thesis using log by (simp add: wal_log_def) blast
  qed
  have "admissible C msg (st'\<lparr>wal_failed := False\<rparr>)" using F(1-3) by (simp add: admissible_def)
  then show ?thesis
    using w live(2) wf F(2,3,5) dur by (simp add: stopped_inv_def durable_inv_def wal_log_def)
qed

text \<open>A run ends with the log it acknowledged, or with a stopped replica.\<close>

lemma node_trace_stopped: "wal_failed st \<Longrightarrow> node_trace C evs st = ([], st)"
proof (induction evs)
  case (Cons ev evs)
  then show ?case by (cases ev) (simp add: handle_message_failed)
qed simp

lemma node_trace_crash:
  assumes "node_inv C st" "durable_inv C st rs" "\<not> wal_failed st" "\<forall>ev\<in>set evs. pm_wf (snd ev)"
    and "node_trace C evs st = (acked, st')" "last_stable_checkpoint (st_core st') = 0"
  shows "(\<not> wal_failed st' \<and> durable_inv C st' (rs @ map msg_row acked)) \<or>
    (\<exists>msg\<in>snd ` set evs. stopped_inv C st' (rs @ map msg_row acked) msg)"
  using assms
proof (induction evs arbitrary: st rs acked)
  case (Cons ev evs)
  obtain io msg where ev: "ev = (io, msg)" by (cases ev)
  obtain res st1 where h: "handle_message C io msg st = (res, st1)" by fastforce
  obtain acked1 where t: "node_trace C evs st1 = (acked1, st')"
    and acked: "acked = (if is_ok res \<and> res \<noteq> Ok CHECKPOINT_OBSOLETE then msg # acked1 else acked1)"
    using Cons.prems(5) by (auto simp: ev h split: prod.splits)
  have run: "st' = fold (node_step C) evs st1" using node_trace_run [of C evs st1] t by simp
  have fresh: "last_stable_checkpoint (st_core st1) = 0"
    using node_run_progress [of st1 C evs] Cons.prems(6) run by simp
  have wf: "pm_wf msg" using Cons.prems(4) ev by simp
  show ?case
  proof (cases "wal_failed st1")
    case True
    then have "st' = st1" "acked1 = []" using node_trace_stopped [OF True, of C evs] t by simp_all
    moreover have "\<not> is_ok res" by (rule handle_message_fails(4) [OF h Cons.prems(3) True fresh])
    moreover have "stopped_inv C st1 rs msg"
      by (rule handle_message_stops [OF Cons.prems(1,2) h Cons.prems(3) True wf fresh])
    ultimately show ?thesis using acked ev by auto
  next
    case False
    let ?rs = "rs @ (if is_ok res \<and> res \<noteq> Ok CHECKPOINT_OBSOLETE then [msg_row msg] else [])"
    have "durable_inv C st1 ?rs" by (rule handle_message_durable [OF Cons.prems(1,2) h wf False fresh])
    moreover have "node_inv C st1" using handle_message_inv [OF Cons.prems(1), of io msg] h by simp
    moreover have "\<forall>ev\<in>set evs. pm_wf (snd ev)" using Cons.prems(4) by simp
    ultimately have "(\<not> wal_failed st' \<and> durable_inv C st' (?rs @ map msg_row acked1)) \<or>
        (\<exists>msg\<in>snd ` set evs. stopped_inv C st' (?rs @ map msg_row acked1) msg)"
      by (intro Cons.IH [OF _ _ False _ t Cons.prems(6)])
    moreover have "?rs @ map msg_row acked1 = rs @ map msg_row acked" using acked by simp
    ultimately show ?thesis by auto
  qed
qed simp
section \<open>Restart\<close>

lemma restart_rows:
  assumes C: "g1_codec_laws C" and rows: "\<forall>r\<in>set rs. row_wf r"
    and io: "o_open io" "o_reopen io" "no_fault (o_reads io)" "o_disk io = encode_rows C rs"
    and cfg: "make_config n keys mpk = Ok cfg" and rc: "recover_rows C cfg rs empty_core = Some rc"
  shows "new_with_wal_path C io n keys mpk = Ok \<lparr>st_config = cfg, st_core = recovered rc,
    st_wal = wal_open (encode_rows C rs), wal_failed = False\<rparr>"
  using new_with_wal_path_rows [OF C rows io cfg] rc by (simp add: recovered_def)

lemma restart_torn:
  assumes C: "g1_codec_laws C" and rows: "\<forall>r\<in>set rs. row_wf r"
    and io: "o_open io" "o_reopen io" "no_fault (o_reads io)" "o_disk io = encode_rows C rs @ tail"
    and tail: "tail \<noteq> []" "length tail < 101" and cfg: "make_config n keys mpk = Ok cfg"
  shows "new_with_wal_path C io n keys mpk = Err WAL_REPLAY_ERROR"
  using io cfg by (simp add: new_with_wal_path_def replay_log_torn [OF C rows io(3) tail])

text \<open>The log a construction starts from.\<close>

lemma started_durable:
  assumes C: "g1_codec_laws C" and io: "no_fault (o_reads io)"
    and ok: "new_with_wal_path C io n keys mpk = Ok st" and fresh: "last_stable_checkpoint (st_core st) = 0"
  obtains rs where "o_disk io = encode_rows C rs" "durable_inv C st rs"
    "make_config n keys mpk = Ok (st_config st)" "\<not> wal_failed st"
proof -
  obtain cfg core where R: "make_config n keys mpk = Ok cfg" "st_config st = cfg"
    "replay_log C (recover_row C cfg) (o_reads io) (o_disk io)
       \<lparr>rc_core = empty_core, rc_error = False\<rparr> = (Ok (), \<lparr>rc_core = core, rc_error = False\<rparr>)"
    "st_core st = (if 0 < last_stable_checkpoint core
       then retain_after (last_stable_checkpoint core) core else core)"
    "st_wal st = wal_open (o_disk io)" "\<not> wal_failed st"
    using new_with_wal_path_Ok [OF ok] by metis
  obtain rs where rs: "o_disk io = encode_rows C rs" "\<forall>r\<in>set rs. row_wf r"
    "fold (recover_row C cfg) rs \<lparr>rc_core = empty_core, rc_error = False\<rparr> =
      \<lparr>rc_core = core, rc_error = False\<rparr>"
    using replay_log_Ok [OF C R(3) io] by metis
  have "recover_rows C cfg rs empty_core = Some core"
    using fold_recover_rows [of C cfg rs empty_core] rs(3) by (auto split: option.splits)
  moreover have "st_core st = core" using R(4) fresh by (auto split: if_splits)
  ultimately have "durable_inv C st rs"
    using rs R fresh by (auto simp: durable_inv_def wal_log_def wal_open_def)
  then show thesis using that rs R by blast
qed

text \<open>The message whose append failed is accepted on the log without it, and recovery of its row
  gives the state it leads to.\<close>

lemma stopped_retry:
  assumes C: "g1_codec_laws C" and inv: "node_inv C st" and s: "stopped_inv C st rs msg"
    and fresh: "last_stable_checkpoint (st_core st) = 0"
  obtains r st2 rc where
    "handle_message C handler_io_ok msg (st\<lparr>wal_failed := False, st_wal := wal_open (encode_rows C rs)\<rparr>) =
      (Ok r, st2)" "r \<noteq> CHECKPOINT_OBSOLETE" "st_config st2 = st_config st" "\<not> wal_failed st2"
    "recover_rows C (st_config st) (rs @ [msg_row msg]) empty_core = Some rc"
    "same_core (st_core st2) (recovered rc)"
proof -
  let ?st = "st\<lparr>wal_failed := False, st_wal := wal_open (encode_rows C rs)\<rparr>"
  obtain r core rc0 where d: "dispatch C (st_config st) msg (st_core st) = (Ok r, core)"
    and rc0: "recover_rows C (st_config st) rs empty_core = Some rc0" "same_core (st_core st) rc0"
    using s by (auto simp: stopped_inv_def)
  have a: "vote_auth C (st_config st) (pm_canonical msg) (pm_sender_id msg) (pm_signature msg)"
    "pm_phase msg = Checkpoint \<Longrightarrow> last_stable_checkpoint (st_core st) < pm_seq msg"
    using s by (simp_all add: stopped_inv_def admissible_def)
  obtain rc where rc: "recover_core C (st_config st) (msg_row msg) rc0 = Some rc" "same_core core (recovered rc)"
    using dispatch_recovered [OF _ _ a(1) d a(2) rc0(2) fresh] inv by (auto simp: node_inv_def)
  have rows: "\<forall>row\<in>set (rs @ [msg_row msg]). storable C row"
    by (rule storable_rows [OF C]) (use s in \<open>simp add: stopped_inv_def\<close>)
  have ap: "append_entry C append_io_ok (msg_row msg) (wal_open (encode_rows C rs)) =
      (Ok (), wal_open (encode_rows C (rs @ [msg_row msg])))"
    by (simp add: append_entry_def wal_open_def Let_def)
  obtain pk where pk: "pm_sender_id msg |\<in>| registered_nodes (st_config st)"
    "fmlookup (public_keys (st_config st)) (pm_sender_id msg) = Some pk"
    "verify_bls_signature C (pm_canonical msg) (pm_signature msg) pk"
    using a(1) by (auto simp: vote_auth_def)
  have new: "\<not> (pm_phase msg = Checkpoint \<and> pm_seq msg \<le> last_stable_checkpoint (st_core st))"
    using a(2) by auto
  have "\<exists>w. handle_message C handler_io_ok msg ?st = (Ok r, ?st\<lparr>st_core := core, st_wal := w\<rparr>)"
    unfolding handle_message_def handler_io_ok_def
    using pk new d ap prune_written [OF rows, of "pm_seq msg"]
    by (auto simp: Let_def simp del: encode_rows_simps)
  then obtain w where "handle_message C handler_io_ok msg ?st = (Ok r, ?st\<lparr>st_core := core, st_wal := w\<rparr>)" ..
  moreover have "r \<noteq> CHECKPOINT_OBSOLETE" using d dispatch_not_obsolete by metis
  ultimately show thesis
    using that [of r "?st\<lparr>st_core := core, st_wal := w\<rparr>" rc] rc rc0(1) by (simp add: recover_rows_append)
qed

text \<open>What recovery makes of the file of a stopped replica.\<close>

lemma stopped_restart:
  assumes C: "g1_codec_laws C" and inv: "node_inv C st" and s: "stopped_inv C st rs msg"
    and fresh: "last_stable_checkpoint (st_core st) = 0"
    and cfg: "make_config n keys mpk = Ok (st_config st)"
    and io: "o_open io" "o_reopen io" "no_fault (o_reads io)"
      "o_disk io = encode_rows C rs @ take k (row_to_bytes C (msg_row msg))"
  shows "k = 0 \<Longrightarrow> \<exists>h. new_with_wal_path C io n keys mpk =
      Ok (st\<lparr>st_core := (st_core st)\<lparr>highest_seq := h\<rparr>, st_wal := wal_open (encode_rows C rs),
        wal_failed := False\<rparr>)"
    and "0 < k \<Longrightarrow> k < 101 \<Longrightarrow> new_with_wal_path C io n keys mpk = Err WAL_REPLAY_ERROR"
    and "101 \<le> k \<Longrightarrow> \<exists>r st2 h. handle_message C handler_io_ok msg
        (st\<lparr>wal_failed := False, st_wal := wal_open (encode_rows C rs)\<rparr>) = (Ok r, st2) \<and>
      r \<noteq> CHECKPOINT_OBSOLETE \<and>
      new_with_wal_path C io n keys mpk = Ok (st2\<lparr>st_core := (st_core st2)\<lparr>highest_seq := h\<rparr>,
        st_wal := wal_open (encode_rows C (rs @ [msg_row msg]))\<rparr>)"
proof -
  have wf: "\<forall>r\<in>set rs. row_wf r" "row_wf (msg_row msg)" using s by (simp_all add: stopped_inv_def)
  have len: "length (row_to_bytes C (msg_row msg)) = 101" by (rule length_row_to_bytes [OF C wf(2)])
  {
    assume k: "k = 0"
    obtain rc where rc: "recover_rows C (st_config st) rs empty_core = Some rc" "same_core (st_core st) rc"
      using s by (auto simp: stopped_inv_def)
    obtain h where h: "rc = (st_core st)\<lparr>highest_seq := h\<rparr>" using rc(2) by (auto simp: same_core_def)
    then have "recovered rc = rc" using fresh by (simp add: recovered_def)
    then have "new_with_wal_path C io n keys mpk =
        Ok (st\<lparr>st_core := (st_core st)\<lparr>highest_seq := h\<rparr>, st_wal := wal_open (encode_rows C rs),
          wal_failed := False\<rparr>)"
      using restart_rows [OF C wf(1) io(1-3) _ cfg rc(1)] io(4) k h by (cases st) simp
    then show "\<exists>h. new_with_wal_path C io n keys mpk =
        Ok (st\<lparr>st_core := (st_core st)\<lparr>highest_seq := h\<rparr>, st_wal := wal_open (encode_rows C rs),
          wal_failed := False\<rparr>)" ..
  next
    assume k: "0 < k" "k < 101"
    then have "take k (row_to_bytes C (msg_row msg)) \<noteq> []" "length (take k (row_to_bytes C (msg_row msg))) < 101"
      using len by auto
    from restart_torn [OF C wf(1) io this cfg] show "new_with_wal_path C io n keys mpk = Err WAL_REPLAY_ERROR" .
  next
    assume k: "101 \<le> k"
    obtain r st2 rc where R: "handle_message C handler_io_ok msg
        (st\<lparr>wal_failed := False, st_wal := wal_open (encode_rows C rs)\<rparr>) = (Ok r, st2)"
      "r \<noteq> CHECKPOINT_OBSOLETE" "st_config st2 = st_config st" "\<not> wal_failed st2"
      "recover_rows C (st_config st) (rs @ [msg_row msg]) empty_core = Some rc"
      "same_core (st_core st2) (recovered rc)"
      by (rule stopped_retry [OF C inv s fresh])
    obtain h where h: "recovered rc = (st_core st2)\<lparr>highest_seq := h\<rparr>" using R(6) by (auto simp: same_core_def)
    have rows: "\<forall>r\<in>set (rs @ [msg_row msg]). row_wf r" using wf by simp
    have "new_with_wal_path C io n keys mpk = Ok \<lparr>st_config = st_config st, st_core = recovered rc,
        st_wal = wal_open (encode_rows C (rs @ [msg_row msg])), wal_failed = False\<rparr>"
      using restart_rows [OF C rows io(1-3) _ cfg R(5)] io(4) k len by simp
    then have "new_with_wal_path C io n keys mpk = Ok (st2\<lparr>st_core := (st_core st2)\<lparr>highest_seq := h\<rparr>,
        st_wal := wal_open (encode_rows C (rs @ [msg_row msg]))\<rparr>)"
      using R(3,4) h by (cases st2) simp
    then show "\<exists>r st2 h. handle_message C handler_io_ok msg
        (st\<lparr>wal_failed := False, st_wal := wal_open (encode_rows C rs)\<rparr>) = (Ok r, st2) \<and>
      r \<noteq> CHECKPOINT_OBSOLETE \<and>
      new_with_wal_path C io n keys mpk = Ok (st2\<lparr>st_core := (st_core st2)\<lparr>highest_seq := h\<rparr>,
        st_wal := wal_open (encode_rows C (rs @ [msg_row msg]))\<rparr>)"
      using R(1,2) by blast
  }
qed

text \<open>What recovery makes of the file of a replica whose log did not fail.\<close>

lemma durable_restart:
  assumes C: "g1_codec_laws C" and dur: "\<not> wal_failed st" "durable_inv C st rs"
    and cfg: "make_config n keys mpk = Ok (st_config st)" and crash: "crash_image (st_wal st) b"
    and io: "o_open io" "o_reopen io" "no_fault (o_reads io)" "o_disk io = b"
  shows "b = encode_rows C rs \<and> (\<exists>h. new_with_wal_path C io n keys mpk =
    Ok (st\<lparr>st_core := (st_core st)\<lparr>highest_seq := h\<rparr>, st_wal := wal_open b, wal_failed := False\<rparr>))"
proof -
  have b: "b = encode_rows C rs" using dur(2) crash crash_image_log by (auto simp: durable_inv_def)
  obtain rc h where rc: "recover_rows C (st_config st) rs empty_core = Some rc"
    "rc = (st_core st)\<lparr>highest_seq := h\<rparr>"
    using dur(2) by (auto simp: durable_inv_def same_core_def)
  have "recovered rc = rc" "\<forall>r\<in>set rs. row_wf r"
    using dur(2) rc(2) by (simp_all add: durable_inv_def recovered_def wal_log_def)
  then have "new_with_wal_path C io n keys mpk =
      Ok (st\<lparr>st_core := (st_core st)\<lparr>highest_seq := h\<rparr>, st_wal := wal_open b, wal_failed := False\<rparr>)"
    using restart_rows [OF C _ io(1-3) _ cfg rc(1)] io(4) b rc(2) by (cases st) simp
  then show ?thesis using b by blast
qed

end
