(* ===== verification/Consensus_Guarantees.thy ===== *)
theory Consensus_Guarantees
  imports Samples Pbft_Crash
begin

text \<open>
  The properties of the consensus replica, each with a run that exercises it: agreement and
  accountability, the validity of what a replica records, liveness of a round, crash recovery, the
  error paths, and the certificates of a view change. They rest on the invariants, the simulation
  and the quorum rule of the \<open>Pbft_\<close> theories and of \<open>Cluster\<close>.
\<close>

section \<open>Safety\<close>

text \<open>
  C1: Agreement. A cluster of replicas runs the connection handler on messages of a configuration
  accepted by the constructor; the adversary delivers any genuine message of an honest replica and
  any message of the others, in any order and any number of times. When at most \<open>f\<close> registered
  replicas are not honest, two honest replicas that commit in the same slot of a view commit the
  same digest, as long as no honest replica's stable checkpoint has reached the slot.
\<close>

theorem agreement:
  assumes cfg: "make_config n keys mpk = Ok cfg" "n \<noteq> 0"
    and run: "cluster_reach C H G0 G" "fresh_cluster H cfg G0"
    and faulty: "card (fset (registered_nodes cfg) - H) \<le> unat (byz_f cfg)"
    and ab: "a \<in> H" "b \<in> H"
    and live: "\<forall>i\<in>H. last_stable_checkpoint (core_of G i) < s"
    and commits: "fmlookup (committed_digest (core_of G a)) (v, s) = Some d"
      "fmlookup (committed_digest (core_of G b)) (v, s) = Some d'"
  shows "d = d'"
proof -
  note ok = make_config_Ok(1) [OF cfg(1)] make_config_Ok(2) [OF cfg]
  have inv: "cluster_inv C H cfg G" by (rule cluster_reach_inv [OF run ok(1)])
  have core: "core_inv C cfg (core_of G i)" if "i \<in> H" for i
    using inv that by (auto simp: cluster_inv_def node_ok_def core_of_def)
  obtain ca where ca: "fmlookup (prepared_certificates (core_of G a)) (v, s) = Some ca" "pc_digest ca = d"
    by (rule committed_prepared [OF core [OF ab(1)] ok(1) commits(1)])
  obtain cb where cb: "fmlookup (prepared_certificates (core_of G b)) (v, s) = Some cb" "pc_digest cb = d'"
    by (rule committed_prepared [OF core [OF ab(2)] ok(1) commits(2)])
  show ?thesis
    using prepared_agreement [OF inv ok faulty ab ca(1) cb(1)] live ca(2) cb(2) by blast
qed

theorem agreement_witness:
  "\<exists>S. fmlookup (committed_digest (core_of (solo_cluster solo_3 S) 0)) (0, 1) = Some (replicate 32 9) \<and>
    (\<forall>d'. fmlookup (committed_digest (core_of (solo_cluster solo_3 S) 0)) (0, 1) = Some d' \<longrightarrow>
       replicate 32 9 = d')"
proof -
  obtain S where r: "cluster_reach permissive {0} (solo_cluster solo_endpoint {}) (solo_cluster solo_3 S)"
    using solo_reach by blast
  have c: "core_of (solo_cluster solo_3 S) 0 = st_core (the (e_state solo_3))"
    by (simp add: core_of_def solo_cluster_def)
  have "replicate 32 9 = d'"
    if "fmlookup (committed_digest (core_of (solo_cluster solo_3 S) 0)) (0, 1) = Some d'" for d'
    by (rule agreement [OF solo_make_config _ r solo_fresh_cluster, of 0 0 1 0])
      (use that solo_3 in \<open>simp_all add: c solo_config_def\<close>)
  moreover have "fmlookup (committed_digest (core_of (solo_cluster solo_3 S) 0)) (0, 1) =
      Some (replicate 32 9)"
    using solo_3(2) c by simp
  ultimately show ?thesis by (intro exI [of _ S]) blast
qed



text \<open>
  C3: Invariant of every run. From construction over any log and through any messages and I/O
  outcomes, a prepared certificate the replica holds is for its slot, verifies against the master
  key, has a quorum of signatures, and each of them is a prepare vote of a registered replica for
  the certificate's digest.
\<close>

theorem recorded_certificates_are_valid:
  assumes start: "new_with_wal_path C io n keys mpk = Ok st0"
    and run: "st = fold (node_step C) evs st0"
    and cert: "fmlookup (prepared_certificates (st_core st)) (v, s) = Some c"
  shows "node_inv C st \<and> pc_view c = v \<and> pc_seq c = s \<and>
    pc_verify C (quorum_size (st_config st)) (master_public_key (st_config st)) c \<and>
    unat (quorum_size (st_config st)) \<le> hm_len (pc_signatures c) \<and>
    (\<forall>i sig. fmlookup (pc_signatures c) i = Some sig \<longrightarrow>
       vote_auth C (st_config st) (canonical_msg (phase_u8 Prepare) v s (pc_digest c)) i sig)"
proof -
  have inv: "node_inv C st" unfolding run
    by (rule node.run_inv [OF new_with_wal_path_inv [OF start]])
  then have core: "core_inv C (st_config st) (st_core st)" by (simp add: node_inv_def)
  have "votes_auth C (st_config st) Prepare (prepare_votes (st_core st))"
    using core by (simp add: core_inv_def prepare_inv_def)
  then show ?thesis
    using inv prepared_quorum [OF core cert] votes_authD by metis
qed

theorem recorded_certificates_are_valid_witness:
  "\<exists>c. fmlookup (prepared_certificates (st_core (solo_after 9))) (0, 1) = Some c \<and>
    pc_verify permissive (quorum_size solo_config) (master_public_key solo_config) c \<and>
    hm_len (pc_signatures c) = 1"
  using recorded_certificates_are_valid [OF solo_fresh solo_after_def solo_after_fields(5) [of 9]]
  by (simp add: solo_after_fields)

text \<open>
  C4: Commit after prepare. In every run, a committed digest of a slot is the digest of the
  prepared certificate of the slot and of an accepted proposal, and its commit certificate
  verifies.
\<close>

theorem committed_was_prepared:
  assumes start: "new_with_wal_path C io n keys mpk = Ok st0"
    and run: "st = fold (node_step C) evs st0"
    and commit: "fmlookup (committed_digest (st_core st)) (v, s) = Some d"
  shows "\<exists>cert cc. fmlookup (prepared_certificates (st_core st)) (v, s) = Some cert \<and>
    pc_digest cert = d \<and> (v, s, d) |\<in>| pre_prepared_proposals (st_core st) \<and>
    fmlookup (commit_certificates (st_core st)) (v, s) = Some cc \<and> cc_digest cc = d \<and>
    cc_verify C (quorum_size (st_config st)) (master_public_key (st_config st)) cc"
proof -
  have "node_inv C st" unfolding run
    by (rule node.run_inv [OF new_with_wal_path_inv [OF start]])
  then have cfg: "config_ok (st_config st)" and core: "core_inv C (st_config st) (st_core st)"
    by (simp_all add: node_inv_def)
  obtain cert where cert: "fmlookup (prepared_certificates (st_core st)) (v, s) = Some cert" "pc_digest cert = d"
    by (rule committed_prepared [OF core cfg commit])
  have tally: "tally (unat (quorum_size (st_config st))) mk_commit (commit_votes (st_core st))
      (commit_certificates (st_core st))"
    "tally (unat (quorum_size (st_config st))) mk_digest (commit_votes (st_core st))
      (committed_digest (st_core st))"
    and voted: "voted (pre_prepared_proposals (st_core st)) (commit_votes (st_core st))"
    using core by (simp_all add: core_inv_def commit_inv_def)
  have q: "unat (quorum_size (st_config st)) \<le> hm_len (hm_entry (commit_votes (st_core st)) (v, s, d))"
    using tallyD [OF tally(2) commit] by (auto simp: mk_digest_def)
  have c: "fmlookup (commit_certificates (st_core st)) (v, s) =
      Some (mk_commit (v, s, d) (hm_entry (commit_votes (st_core st)) (v, s, d)))"
    by (rule tallyI [OF tally(1) q])
  have "hm_entry (commit_votes (st_core st)) (v, s, d) \<noteq> fmempty"
    using q cfg by (auto simp: config_ok_def)
  then have "(v, s, d) |\<in>| pre_prepared_proposals (st_core st)" using voted by (simp add: voted_def)
  then show ?thesis
    using cert c commit_quorum(5) [OF core c] by (auto simp: mk_commit_def)
qed

theorem committed_was_prepared_witness:
  "\<exists>cert. fmlookup (prepared_certificates (st_core (solo_after 9))) (0, 1) = Some cert \<and>
    pc_digest cert = replicate 32 9"
  using committed_was_prepared [OF solo_fresh solo_after_def solo_after_fields(4) [of 9]] by blast

section \<open>Progress and durability\<close>

text \<open>
  C8: Liveness of a round. When the keys come from one polynomial and the log works, the
  leader's proposal for a fresh slot followed by authentic prepare votes and then commit votes of
  at least a quorum of distinct replicas are all acknowledged, and the slot is committed.
\<close>

theorem honest_round_commits:
  assumes C: "scalar_laws C" "pairing_laws C" and keys: "keys_from_poly C (st_config st) F"
    and st: "node_inv C st" "\<not> wal_failed st" "current_view (st_core st) = v"
      "\<forall>d. (v, s, d) |\<notin>| pre_prepared_proposals (st_core st)"
    and pp: "pm_phase pp = PrePrepare" "pm_sender_id pp = get_expected_leader (st_config st) v"
    and ps: "\<forall>m\<in>set ps. pm_phase m = Prepare" "distinct (map pm_sender_id ps)"
      "unat (quorum_size (st_config st)) \<le> length ps"
    and cs: "\<forall>m\<in>set cs. pm_phase m = Commit" "distinct (map pm_sender_id cs)"
      "unat (quorum_size (st_config st)) \<le> length cs"
    and all: "\<forall>m\<in>set (pp # ps @ cs). proposal_key m = (v, s, d) \<and> authentic C (st_config st) m"
  shows "\<exists>st'. node_trace C (map (Pair handler_io_ok) (pp # ps @ cs)) st = (pp # ps @ cs, st') \<and>
    fmlookup (committed_digest (st_core st')) (v, s) = Some d"
  using round_commits [OF C keys st pp ps cs all] by blast

theorem honest_round_commits_witness:
  "\<exists>st'. node_trace rat_line
      (map (Pair handler_io_ok) [line_message PrePrepare, line_message Prepare, line_message Commit])
      line_state = ([line_message PrePrepare, line_message Prepare, line_message Commit], st') \<and>
    fmlookup (committed_digest (st_core st')) (0, 1) = Some (replicate 32 9)"
proof -
  have k: "keys_from_poly rat_line (st_config line_state) [5]"
    using line_keys by (simp add: line_state_def)
  have a: "authentic rat_line (st_config line_state) (line_message p)" for p
    using line_authentic by (simp add: line_state_def)
  have f: "pm_phase (line_message p) = p" "pm_sender_id (line_message p) = 0"
      "proposal_key (line_message p) = (0, 1, replicate 32 9)" for p
    by (simp_all add: line_message_def proposal_key_def)
  have st: "\<not> wal_failed line_state" "current_view (st_core line_state) = 0"
    "\<forall>d. (0, 1, d) |\<notin>| pre_prepared_proposals (st_core line_state)"
    "quorum_size (st_config line_state) = 1" "get_expected_leader (st_config line_state) 0 = 0"
    by (simp_all add: line_state_def empty_core_def line_config_def get_expected_leader_def)
  show ?thesis
    using honest_round_commits [OF rat_line_scalar_laws rat_line_pairing_laws k line_node_inv
        st(1-3), of "line_message PrePrepare" "[line_message Prepare]" "[line_message Commit]"
          "replicate 32 9"] a
    by (simp add: f st(4,5) del: node_trace.simps)
qed

text \<open>
  C2: Crash recovery before the first stable checkpoint. A replica constructed on any log processes
  any messages with any I/O outcomes and crashes, between two messages or in the middle of an
  append: the last append may stop after any number of bytes or without a sync. \<open>b\<close> is any image
  of the file the crash leaves. It holds the rows found at the start and those of the acknowledged
  messages, in order, and at most a prefix of one more row, of a message that was not acknowledged.
  Without such a tail, reconstruction returns the state at the crash, but for \<open>highest_seq\<close>, with
  the log open again. After a part of a row it fails with \<open>WAL_REPLAY_ERROR\<close>. After a whole row it
  returns the state that accepting the message of the row leads to.
\<close>

theorem crash_recovery:
  assumes codec: "g1_codec_laws C"
    and start: "new_with_wal_path C io0 n keys mpk = Ok st0" "no_fault (o_reads io0)"
    and run: "node_trace C evs st0 = (acked, st1)" "\<forall>ev\<in>set evs. pm_wf (snd ev)"
    and first: "last_stable_checkpoint (st_core st1) = 0"
    and crash: "crash_image (st_wal st1) b"
    and io: "o_open io" "o_reopen io" "no_fault (o_reads io)" "o_disk io = b"
  shows "\<exists>tail. b = o_disk io0 @ encode_rows C (map msg_row acked) @ tail \<and>
    (tail = [] \<and> (\<exists>h. new_with_wal_path C io n keys mpk =
        Ok (st1\<lparr>st_core := (st_core st1)\<lparr>highest_seq := h\<rparr>, st_wal := wal_open b, wal_failed := False\<rparr>)) \<or>
     wal_failed st1 \<and> (\<exists>msg\<in>snd ` set evs.
       (\<exists>k. 0 < k \<and> k < 101 \<and> tail = take k (row_to_bytes C (msg_row msg)) \<and>
          new_with_wal_path C io n keys mpk = Err WAL_REPLAY_ERROR) \<or>
       tail = row_to_bytes C (msg_row msg) \<and>
         (\<exists>r st2 h. handle_message C handler_io_ok msg (st1\<lparr>wal_failed := False,
              st_wal := wal_open (o_disk io0 @ encode_rows C (map msg_row acked))\<rparr>) = (Ok r, st2) \<and>
            r \<noteq> CHECKPOINT_OBSOLETE \<and> new_with_wal_path C io n keys mpk =
              Ok (st2\<lparr>st_core := (st_core st2)\<lparr>highest_seq := h\<rparr>, st_wal := wal_open b\<rparr>))))"
proof -
  have inv0: "node_inv C st0" by (rule new_with_wal_path_inv [OF start(1)])
  have st1: "st1 = fold (node_step C) evs st0" using node_trace_run [of C evs st0] run(1) by simp
  have first0: "last_stable_checkpoint (st_core st0) = 0"
    using node_run_progress [of st0 C evs] first st1 by simp
  obtain rs0 where rs0: "o_disk io0 = encode_rows C rs0" "durable_inv C st0 rs0"
    "make_config n keys mpk = Ok (st_config st0)" "\<not> wal_failed st0"
    by (rule started_durable [OF codec start(2,1) first0])
  have inv: "node_inv C st1" unfolding st1 by (rule node.run_inv [OF inv0])
  have cfg: "make_config n keys mpk = Ok (st_config st1)" using rs0(3) node_run_config st1 by metis
  let ?rs = "rs0 @ map msg_row acked"
  show ?thesis
    using node_trace_crash [OF inv0 rs0(2,4) run(2,1) first]
  proof
    assume live: "\<not> wal_failed st1 \<and> durable_inv C st1 ?rs"
    have "b = encode_rows C ?rs \<and> (\<exists>h. new_with_wal_path C io n keys mpk =
        Ok (st1\<lparr>st_core := (st_core st1)\<lparr>highest_seq := h\<rparr>, st_wal := wal_open b, wal_failed := False\<rparr>))"
      by (rule durable_restart [OF codec conjunct1 [OF live] conjunct2 [OF live] cfg crash io])
    then show ?thesis using rs0(1) by auto
  next
    assume "\<exists>msg\<in>snd ` set evs. stopped_inv C st1 ?rs msg"
    then obtain msg where msg: "msg \<in> snd ` set evs" "stopped_inv C st1 ?rs msg" by blast
    obtain k where k: "b = encode_rows C ?rs @ take k (row_to_bytes C (msg_row msg))"
      using stopped_image [OF msg(2) crash] by blast
    have failed: "wal_failed st1" "length (row_to_bytes C (msg_row msg)) = 101"
      using msg(2) length_row_to_bytes [OF codec] by (simp_all add: stopped_inv_def)
    let ?tail = "take k (row_to_bytes C (msg_row msg))"
    have b: "b = o_disk io0 @ encode_rows C (map msg_row acked) @ ?tail" using k rs0(1) by simp
    note R = stopped_restart [OF codec inv msg(2) first cfg io(1-3) io(4) [unfolded k]]
    consider "k = 0" | "0 < k" "k < 101" | "101 \<le> k" by linarith
    then show ?thesis
    proof cases
      case 1
      then have "b = encode_rows C ?rs" "?tail = []" using k by simp_all
      moreover note R(1) [OF 1]
      ultimately show ?thesis by (intro exI [of _ ?tail] conjI b disjI1) simp_all
    next
      case 2
      then show ?thesis
        by (intro exI [of _ ?tail] conjI b disjI2 failed(1) bexI [OF _ msg(1)] disjI1 exI [of _ k] 2 refl R(2))
    next
      case 3
      have tail: "?tail = row_to_bytes C (msg_row msg)" using 3 failed(2) by simp
      then have image: "encode_rows C (?rs @ [msg_row msg]) = b"
        "encode_rows C ?rs = o_disk io0 @ encode_rows C (map msg_row acked)" using k rs0(1) by simp_all
      from R(3) [OF 3] show ?thesis unfolding image
        by (intro exI [of _ ?tail] conjI b disjI2 failed(1) bexI [OF _ msg(1)] tail)
    qed
  qed
qed

definition cut_round :: "u64 node_event list" where
  "cut_round = [solo_event PrePrepare 0 1 9, solo_event Prepare 0 1 9,
     (\<lparr>h_append = \<lparr>a_write = None, a_sync = False\<rparr>, h_prune = prune_io_ok\<rparr>, solo_message Commit 0 1 9)]"

theorem crash_recovery_witness:
  "\<exists>st1 msg r st2 h. node_trace permissive cut_round solo_state =
      ([solo_message PrePrepare 0 1 9, solo_message Prepare 0 1 9], st1) \<and> wal_failed st1 \<and>
    msg \<in> snd ` set cut_round \<and> handle_message permissive handler_io_ok msg (st1\<lparr>wal_failed := False,
      st_wal := wal_open (encode_rows permissive
        (map msg_row [solo_message PrePrepare 0 1 9, solo_message Prepare 0 1 9]))\<rparr>) = (Ok r, st2) \<and>
    new_with_wal_path permissive (empty_disk\<lparr>o_disk := content (st_wal st1)\<rparr>) 1 (fmupd 0 7 fmempty) 7 =
      Ok (st2\<lparr>st_core := (st_core st2)\<lparr>highest_seq := h\<rparr>, st_wal := wal_open (content (st_wal st1))\<rparr>)"
proof -
  let ?acked = "[solo_message PrePrepare 0 1 9, solo_message Prepare 0 1 9]"
  have wf: "\<forall>ev\<in>set cut_round. pm_wf (snd ev)" by (simp add: cut_round_def solo_message_def pm_wf_def)
  obtain st1 where t: "node_trace permissive cut_round solo_state = (?acked, st1)"
    and st1: "wal_failed st1" "last_stable_checkpoint (st_core st1) = 0"
      "content (st_wal st1) = encode_rows permissive (map msg_row (map snd cut_round))"
    by (simp add: cut_round_def solo_simps)
  have len: "length (row_to_bytes permissive (msg_row (solo_message p 0 1 9))) = 101" for p
    by (rule length_row_to_bytes [OF permissive_g1_codec]) (simp add: solo_message_def pm_wf_def)
  let ?io = "empty_disk\<lparr>o_disk := content (st_wal st1)\<rparr>"
  have image: "crash_image (st_wal st1) (content (st_wal st1))" by (simp add: crash_image_def)
  have io: "o_open ?io" "o_reopen ?io" "no_fault (o_reads ?io)" "o_disk ?io = content (st_wal st1)"
    "no_fault (o_reads empty_disk)" "o_disk empty_disk = []" by (simp_all add: empty_disk_def no_fault_def)
  have whole: "length tail = 101"
    if "content (st_wal st1) = o_disk empty_disk @ encode_rows permissive (map msg_row ?acked) @ tail" for tail
    using arg_cong [OF that, of length] st1(3) io(6) by (simp add: cut_round_def len)
  from crash_recovery [OF permissive_g1_codec solo_fresh io(5) t wf st1(2) image io(1-4)]
  show ?thesis
  proof (elim exE conjE disjE bexE, goal_cases)
    case (1 tail h)
    show ?case using whole [OF 1(1)] 1(2) by simp
  next
    case (2 tail msg k)
    show ?case using whole [OF 2(1)] 2 len by simp
  next
    case (3 tail msg r st2 h)
    show ?case
      by (intro exI [of _ st1] exI [of _ msg] exI [of _ r] exI [of _ st2] exI [of _ h] conjI t st1(1)
          3(3,7) 3(5) [unfolded io(6) append_Nil])
  qed
qed

text \<open>
  C13: Acknowledgement. A message acknowledged as new carries a valid signature of a registered
  replica over its phase, view, sequence and digest, and its row ends the synced log; when it
  stabilizes a checkpoint, exactly the rows below the checkpoint's sequence are dropped.
\<close>

theorem acknowledged_message_is_logged:
  assumes C: "g1_codec_laws C" and wf: "pm_wf msg" and io: "no_fault (p_reads (h_prune io))"
    and log: "wal_log C (st_wal st) rs"
    and h: "handle_message C io msg st = (Ok r, st')" "r \<noteq> CHECKPOINT_OBSOLETE"
  shows "vote_auth C (st_config st) (pm_canonical msg) (pm_sender_id msg) (pm_signature msg) \<and>
    wal_log C (st_wal st')
      (if r = CHECKPOINT_STABILIZED
       then filter (\<lambda>row. pm_seq msg \<le> row_seq row) (rs @ [msg_row msg])
       else rs @ [msg_row msg])"
proof -
  note H = handle_message_Ok [OF h]
  obtain w where w: "append_entry C (h_append io) (msg_row msg) (st_wal st) = (Ok (), w)"
    "if r = CHECKPOINT_STABILIZED
     then prune_before (h_prune io) (pm_seq msg) w = (Ok (), st_wal st') else st_wal st' = w"
    using H(5) by blast
  have log': "wal_log C w (rs @ [msg_row msg])"
    using wal.append_ok [OF C log _ w(1)] wf by simp
  have "wal_log C (st_wal st') (filter (\<lambda>row. pm_seq msg \<le> row_seq row) (rs @ [msg_row msg]))"
    if "prune_before (h_prune io) (pm_seq msg) w = (Ok (), st_wal st')"
    by (rule wal.prune_ok [OF C log' io that])
  then show ?thesis using H(1) w(2) log' by (simp add: admissible_def split: if_splits)
qed

theorem acknowledged_message_is_logged_witness:
  "wal_log permissive (st_wal (snd (handle_message permissive handler_io_ok
      (solo_message PrePrepare 0 1 9) solo_state))) [msg_row (solo_message PrePrepare 0 1 9)]"
proof -
  let ?m = "solo_message PrePrepare 0 1 9"
  obtain st' where h: "handle_message permissive handler_io_ok ?m solo_state =
      (Ok INBOUND_OK_PREPREPARE, st')"
    by (simp add: solo_simps)
  have "wal_log permissive (st_wal solo_state) []"
    by (simp add: wal_log_def solo_state_def wal_open_def)
  moreover have "pm_wf ?m" "no_fault (p_reads (h_prune handler_io_ok))"
    by (simp_all add: pm_wf_def solo_message_def handler_io_ok_def prune_io_ok_def no_fault_def)
  ultimately show ?thesis
    using acknowledged_message_is_logged [OF permissive_g1_codec _ _ _ h, of "[]"] by (simp add: h)
qed

text \<open>Monotone progress. No sequence of messages lowers the view, the highest sequence or the
  stable checkpoint of a replica.\<close>

lemma progress_is_monotone:
  "current_view (st_core st) \<le> current_view (st_core (fold (node_step C) evs st)) \<and>
    highest_seq (st_core st) \<le> highest_seq (st_core (fold (node_step C) evs st)) \<and>
    last_stable_checkpoint (st_core st) \<le>
      last_stable_checkpoint (st_core (fold (node_step C) evs st))"
  by (rule node_run_progress)



definition sync_fails :: handler_io where
  "sync_fails = handler_io_ok\<lparr>h_prune := prune_io_ok\<lparr>p_sync := False\<rparr>\<rparr>"

text \<open>
  C16: Stable checkpoints. The stable checkpoint moves only on a checkpoint message of a higher
  sequence, and then a quorum of registered replicas has signed that view, sequence and digest.
  The step drops the proposals, the prepared certificates and the commits up to the sequence, and
  keeps those above it, also when the pruning of the log fails.
\<close>

theorem stable_checkpoint_is_certified:
  assumes inv: "node_inv C st"
    and st': "st' = node_step C (io, msg) st"
    and changed: "last_stable_checkpoint (st_core st') \<noteq> last_stable_checkpoint (st_core st)"
  shows "pm_phase msg = Checkpoint \<and> last_stable_checkpoint (st_core st) < pm_seq msg \<and>
    last_stable_checkpoint (st_core st') = pm_seq msg \<and>
    (\<exists>Q \<subseteq> fset (registered_nodes (st_config st)). unat (quorum_size (st_config st)) \<le> card Q \<and>
       Q \<subseteq> {i. \<exists>sig. vote_auth C (st_config st) (pm_canonical msg) i sig}) \<and>
    (\<forall>v s d. (v, s, d) |\<in>| pre_prepared_proposals (st_core st') \<longleftrightarrow>
       (v, s, d) |\<in>| pre_prepared_proposals (st_core st) \<and> pm_seq msg < s) \<and>
    (\<forall>v s. fmlookup (prepared_certificates (st_core st')) (v, s) =
       (if pm_seq msg < s then fmlookup (prepared_certificates (st_core st)) (v, s) else None)) \<and>
    (\<forall>v s. fmlookup (committed_digest (st_core st')) (v, s) =
       (if pm_seq msg < s then fmlookup (committed_digest (st_core st)) (v, s) else None))"
proof -
  let ?cfg = "st_config st" and ?core = "st_core st"
  let ?sigs = "fmupd (pm_sender_id msg) (pm_signature msg) (hm_entry (checkpoint_votes ?core) (proposal_key msg))"
  obtain res where h: "handle_message C io msg st = (res, st')"
    using st' by (cases "handle_message C io msg st") (simp add: node_step_def)
  have "\<not> st_core st' = st_core st" using changed by auto
  then obtain r where adm: "admissible C msg st" and d: "dispatch C ?cfg msg ?core = (Ok r, st_core st')"
    using handle_message_core [OF h] by blast
  note ch = dispatch_checkpoint_changed [OF d changed]
  note K = on_checkpoint_Ok [OF ch(2)]
  have fresh: "last_stable_checkpoint ?core < pm_seq msg"
    and auth: "vote_auth C ?cfg (pm_canonical msg) (pm_sender_id msg) (pm_signature msg)"
    using adm ch(1) by (auto simp: admissible_def)
  have core: "st_core st' = retain_after (pm_seq msg)
      ((record_checkpoint (proposal_key msg) (pm_sender_id msg) (pm_signature msg) ?core)
         \<lparr>last_stable_checkpoint := pm_seq msg\<rparr>)" using K(3) by simp
  have "votes_auth C ?cfg Checkpoint (checkpoint_votes ?core)"
    using inv by (simp add: node_inv_def core_inv_parts)
  then have all: "vote_auth C ?cfg (pm_canonical msg) i sig" if "fmlookup ?sigs i = Some sig" for i sig
    using that auth ch(1) votes_authD by (fastforce simp: proposal_key_def pm_canonical_def split: if_splits)
  have "signers ?sigs \<subseteq> fset (registered_nodes ?cfg) \<inter> {i. \<exists>sig. vote_auth C ?cfg (pm_canonical msg) i sig}"
  proof
    fix i
    assume "i \<in> signers ?sigs"
    then obtain sig where "fmlookup ?sigs i = Some sig" unfolding signers_def by blast
    from all [OF this] show "i \<in> fset (registered_nodes ?cfg) \<inter> {i. \<exists>sig. vote_auth C ?cfg (pm_canonical msg) i sig}"
      by (auto simp: vote_auth_def)
  qed
  moreover have "unat (quorum_size ?cfg) \<le> card (signers ?sigs)"
    using K(2) unfolding card_signers by (simp del: hm_len_upd split: if_splits)
  moreover have "last_stable_checkpoint (st_core st') = pm_seq msg" by (simp add: core retain_after_def)
  moreover have "(v, s, d) |\<in>| pre_prepared_proposals (st_core st') \<longleftrightarrow>
       (v, s, d) |\<in>| pre_prepared_proposals ?core \<and> pm_seq msg < s"
    "fmlookup (prepared_certificates (st_core st')) (v, s) =
       (if pm_seq msg < s then fmlookup (prepared_certificates ?core) (v, s) else None)"
    "fmlookup (committed_digest (st_core st')) (v, s) =
       (if pm_seq msg < s then fmlookup (committed_digest ?core) (v, s) else None)" for v s d
    unfolding core by (auto simp: retain_after_def record_checkpoint_def)
  ultimately show ?thesis using ch(1) fresh by blast
qed

theorem stable_checkpoint_is_certified_witness:
  "last_stable_checkpoint (st_core (node_step permissive (sync_fails, solo_message Checkpoint 0 1 9) solo_state)) = 1 \<and>
    (\<exists>Q \<subseteq> fset (registered_nodes solo_config). 1 \<le> card Q)"
proof -
  let ?st = "node_step permissive (sync_fails, solo_message Checkpoint 0 1 9) solo_state"
  have "last_stable_checkpoint (st_core ?st) = 1"
    by (simp add: node_step_def sync_fails_def solo_simps prune_before_def retain_after_def)
  moreover have "last_stable_checkpoint (st_core solo_state) = 0"
    by (simp add: solo_state_def empty_core_def)
  ultimately show ?thesis
    using stable_checkpoint_is_certified [OF solo_node_inv refl, of sync_fails "solo_message Checkpoint 0 1 9"]
    by (auto simp: solo_state_def solo_config_def)
qed

section \<open>Errors\<close>

text \<open>
  C14: Atomicity. A rejected message leaves the whole state of the replica unchanged, log
  included, unless the log itself failed.
\<close>

theorem rejected_message_leaves_state:
  assumes "handle_message C io msg st = (Err e, st')" "e \<noteq> WAL_ERROR" "e \<noteq> WAL_PRUNE_ERROR"
  shows "st' = st"
  using handle_message_rejected [OF assms(1)] assms(2,3) by blast

theorem rejected_message_leaves_state_witness:
  "handle_message permissive handler_io_ok (solo_message Prepare 0 1 9) solo_state =
    (Err ORPHAN_PREPARE, solo_state)"
proof -
  obtain st' where h: "handle_message permissive handler_io_ok (solo_message Prepare 0 1 9) solo_state =
      (Err ORPHAN_PREPARE, st')"
    by (simp add: solo_simps)
  show ?thesis using rejected_message_leaves_state [OF h] h by simp
qed

text \<open>
  C15: Fail-stop. Once appending to or pruning the log failed, the replica answers every further
  message with \<open>WAL_UNAVAILABLE\<close> and never changes its state again.
\<close>

theorem log_failure_stops_replica:
  assumes "handle_message C io msg st = (Err WAL_ERROR, st') \<or>
    handle_message C io msg st = (Err WAL_PRUNE_ERROR, st')" "\<not> wal_failed st"
  shows "wal_failed st' \<and> fold (node_step C) evs st' = st' \<and>
    fst (handle_message C io' msg' st') = Err WAL_UNAVAILABLE"
proof -
  have "wal_failed st'"
    using assms
    by (auto simp: handle_message_def Let_def dest: dispatch_no_io_error
        split: if_splits option.splits prod.splits sum.splits)
  then show ?thesis by (simp add: node_run_failed handle_message_failed)
qed

theorem log_failure_stops_replica_witness:
  "fst (handle_message permissive handler_io_ok (solo_message PrePrepare 0 1 9)
      (snd (handle_message permissive (handler_io_ok\<lparr>h_append := \<lparr>a_write = Some 3, a_sync = True\<rparr>\<rparr>)
        (solo_message PrePrepare 0 1 9) solo_state))) = Err WAL_UNAVAILABLE"
proof -
  let ?io = "handler_io_ok\<lparr>h_append := \<lparr>a_write = Some 3, a_sync = True\<rparr>\<rparr>"
  obtain st' where h: "handle_message permissive ?io (solo_message PrePrepare 0 1 9) solo_state =
      (Err WAL_ERROR, st')"
    by (simp add: solo_simps)
  show ?thesis
    using log_failure_stops_replica [OF disjI1 [OF h]] h by (simp add: solo_state_def)
qed

lemma certificates_never_fail:
  assumes C: "scalar_laws C" "pairing_laws C" and keys: "keys_from_poly C (st_config st) F"
    and inv: "node_inv C st"
  shows "fst (handle_message C io msg st) \<noteq> Err CERTIFICATE_VERIFICATION_FAILED"
proof
  assume e: "fst (handle_message C io msg st) = Err CERTIFICATE_VERIFICATION_FAILED"
  then obtain st' where "dispatch C (st_config st) msg (st_core st) = (Err CERTIFICATE_VERIFICATION_FAILED, st')"
    and "vote_auth C (st_config st) (pm_canonical msg) (pm_sender_id msg) (pm_signature msg)"
    by (auto simp: handle_message_def vote_auth_def Let_def
        split: prod.splits sum.splits option.splits if_splits)
  then show False
    using dispatch_never_unverified [OF C keys, of "st_core st" msg] inv by (simp add: node_inv_def)
qed

text \<open>
  C20: Unreachable errors. A replica that satisfies the invariant never reaches the \<open>unwrap\<close> of a
  missing public key, and the new-view certificate it assembles always verifies, so that it never
  answers \<open>NEW_VIEW_VERIFICATION_FAILED\<close>, whatever message arrives. When the registry and the
  master key come from one polynomial with at most a quorum of coefficients, certificates of
  individually valid votes verify too: \<open>CERTIFICATE_VERIFICATION_FAILED\<close> is unreachable.
\<close>

theorem unreachable_errors:
  assumes "node_inv C st"
  shows "fst (handle_message C io msg st) \<notin> {Err PANIC_UNWRAP_NONE, Err NEW_VIEW_VERIFICATION_FAILED} \<and>
    (scalar_laws C \<longrightarrow> pairing_laws C \<longrightarrow> keys_from_poly C (st_config st) F \<longrightarrow>
       fst (handle_message C io msg st) \<noteq> Err CERTIFICATE_VERIFICATION_FAILED)"
  using handle_message_no_panic [OF assms] handle_message_new_view_verifies [OF assms]
    certificates_never_fail [OF _ _ _ assms] by blast

theorem unreachable_errors_witness:
  "fst (handle_message rat_line handler_io_ok (line_message Prepare) line_state) \<notin>
    {Err PANIC_UNWRAP_NONE, Err NEW_VIEW_VERIFICATION_FAILED, Err CERTIFICATE_VERIFICATION_FAILED}"
proof -
  have "keys_from_poly rat_line (st_config line_state) [5]" using line_keys by (simp add: line_state_def)
  then show ?thesis
    using unreachable_errors [OF line_node_inv, of handler_io_ok "line_message Prepare" "[5]"]
      rat_line_scalar_laws rat_line_pairing_laws by simp
qed

section \<open>View changes\<close>

text \<open>
  C17: View installation. A view-change quorum moves the replica to the target view, which is
  higher, and stores a certificate for it that verifies and binds the highest slot any supporter
  claims to a prepared certificate of an earlier view.
\<close>

theorem installed_view_is_certified:
  assumes inv: "node_inv C st"
    and h: "handle_message C io msg st = (Ok VIEW_CHANGE_OK, st')"
  shows "current_view (st_core st) < pm_view msg \<and> current_view (st_core st') = pm_view msg \<and>
    (\<exists>nv m d. fmlookup (new_view_certificates (st_core st')) (pm_view msg) = Some nv \<and>
       nv_verify C (quorum_size (st_config st)) (master_public_key (st_config st))
         (public_keys (st_config st)) nv \<and>
       highest_view_change_slot (nv_view_change_votes nv) = Some (m, d) \<and>
       (0 < m \<longrightarrow> (\<exists>c. nv_selected nv = Some c \<and> pc_seq c = m \<and> pc_digest c = d \<and>
          pc_view c < pm_view msg)))"
proof -
  have d: "dispatch C (st_config st) msg (st_core st) = (Ok VIEW_CHANGE_OK, st_core st')"
    using handle_message_Ok(2) [OF h] by simp
  have ph: "pm_phase msg = ViewChange"
    using d by (auto simp: dispatch_def on_pre_prepare_Ok dest: on_prepare_Ok(4) on_commit_Ok(5)
        on_checkpoint_Ok(2) split: phase.splits if_splits)
  then have v: "on_view_change C (st_config st) msg (st_core st) = (Ok VIEW_CHANGE_OK, st_core st')"
    using d by (simp add: dispatch_def)
  note V = on_view_change_Ok [OF v]
  let ?nv = "new_view_of C (st_config st) msg (st_core st)"
  have N: "st_core st' = record_new_view C (st_config st) msg (st_core st)"
    "nv_verify C (quorum_size (st_config st)) (master_public_key (st_config st))
         (public_keys (st_config st)) ?nv"
    using V(3) by (auto split: if_splits)
  obtain m dg where slot: "highest_view_change_slot (nv_view_change_votes ?nv) = Some (m, dg)"
    "case nv_selected ?nv of None \<Rightarrow> m = 0
     | Some c \<Rightarrow> pc_verify C (quorum_size (st_config st)) (master_public_key (st_config st)) c \<and>
         pc_view c < nv_target_view ?nv \<and> pc_seq c = m \<and> pc_digest c = dg"
    using N(2) unfolding nv_verify_iff by blast
  have look: "fmlookup (new_view_certificates (st_core st')) (pm_view msg) = Some ?nv"
    "current_view (st_core st') = pm_view msg"
    by (simp_all add: N(1) record_new_view_def raise_to_def record_view_change_def)
  have "0 < m \<longrightarrow> (\<exists>c. nv_selected ?nv = Some c \<and> pc_seq c = m \<and> pc_digest c = dg \<and>
      pc_view c < pm_view msg)"
    using slot(2) by (auto simp: new_view_of_def split: option.splits)
  then show ?thesis using look N(2) V(1) slot(1) by blast
qed

theorem installed_view_is_certified_witness:
  "\<exists>nv. fmlookup (new_view_certificates (st_core (snd (handle_message permissive handler_io_ok
      (solo_message ViewChange 1 1 9) (solo_after 9))))) 1 = Some nv"
proof -
  obtain st' where h: "handle_message permissive handler_io_ok (solo_message ViewChange 1 1 9)
      (solo_after 9) = (Ok VIEW_CHANGE_OK, st')"
    by (simp add: solo_after_def solo_round_def node_step_def solo_view_simps sort_by_def)
  show ?thesis
    using installed_view_is_certified [OF solo_after_inv h] h by (auto simp: solo_message_def)
qed

text \<open>
  C21: Certificate selection. The selected certificate is one of the candidates: of an earlier
  view, for the slot, verifying; and no candidate has a higher view, or the same view and smaller
  signers.
\<close>

theorem selected_certificate_is_highest:
  assumes "select_highest_prepared_certificate C certs tv s d q pk = Some c"
  shows "c \<in> set certs \<and> pc_view c < tv \<and> pc_seq c = s \<and> pc_digest c = d \<and> pc_verify C q pk c \<and>
    (\<forall>c'\<in>set certs. pc_view c' < tv \<longrightarrow> pc_seq c' = s \<longrightarrow> pc_digest c' = d \<longrightarrow>
       pc_verify C q pk c' \<longrightarrow>
       pc_view c' < pc_view c \<or> (pc_view c' = pc_view c \<and> sorted_signers c \<le> sorted_signers c'))"
  using select_highest_Some [OF assms]
  by (auto simp: cert_eligible_def cert_le_def)

theorem selected_certificate_is_highest_witness:
  "\<exists>c. select_highest_prepared_certificate permissive
      [\<lparr>pc_view = 0, pc_seq = 1, pc_digest = [], pc_signatures = fmupd 0 0 fmempty\<rparr>,
       \<lparr>pc_view = 1, pc_seq = 1, pc_digest = [], pc_signatures = fmupd 2 0 fmempty\<rparr>]
      2 1 [] 1 7 = Some c \<and> pc_view c = 1"
proof -
  obtain c where c: "select_highest_prepared_certificate permissive
      [\<lparr>pc_view = 0, pc_seq = 1, pc_digest = [], pc_signatures = fmupd 0 0 fmempty\<rparr>,
       \<lparr>pc_view = 1, pc_seq = 1, pc_digest = [], pc_signatures = fmupd 2 0 fmempty\<rparr>]
      2 1 [] 1 7 = Some c"
    by (simp add: select_highest_eq cert_eligible_def pc_verify_def sort_by_def cert_le_def)
  show ?thesis
    using selected_certificate_is_highest [OF c] c by (auto simp: pc_verify_def)
qed

end
