(* ===== verification/Log_Guarantees.thy ===== *)
theory Log_Guarantees
  imports Samples
begin

text \<open>
  The properties of the formats and of the write-ahead log: round trips and decoding errors of the
  consensus messages, the separation of what signatures cover, atomic pruning, and recovery from
  arbitrary bytes, torn appends and any schedule of reads.
\<close>

definition sample_rows :: "u64 wal_row list" where
  "sample_rows = [msg_row (solo_message Commit 0 1 9), msg_row (solo_message Commit 0 2 9)]"

section \<open>Formats\<close>

text \<open>
  C35: Consensus messages. Decoding the encoding of a message returns the message, also with
  bytes behind it, and whatever decodes is the canonical encoding of the result in its first 101
  bytes. Decoding fails exactly for a short input, an unknown phase byte or an invalid point, in
  this order of precedence.
\<close>

theorem message_roundtrip:
  assumes "g1_codec_laws C"
  shows "(pm_wf m \<longrightarrow> pm_from_bytes C (pm_to_bytes C m @ rest) = Ok m) \<and>
    (pm_from_bytes C bs = Ok m \<longrightarrow> pm_wf m \<and> pm_to_bytes C m = take 101 bs) \<and>
    (pm_from_bytes C bs = Err e \<longleftrightarrow>
       (e = INVALID_MESSAGE_LENGTH \<and> length bs < 101) \<or>
       (e = INVALID_PHASE \<and> 101 \<le> length bs \<and> 4 < bs ! 0) \<or>
       (e = INVALID_SIGNATURE_BYTES \<and> 101 \<le> length bs \<and> bs ! 0 \<le> 4 \<and>
          g1_from_compressed C (slice 53 101 bs) = None))"
  using pm_decode_encode [OF assms] pm_from_bytes_wf pm_encode_decode [OF assms] pm_from_bytes_cases by blast

theorem message_roundtrip_witness:
  "pm_from_bytes permissive (pm_to_bytes permissive (solo_message Commit 3 4 5)) =
      Ok (solo_message Commit 3 4 5) \<and>
    pm_from_bytes permissive (replicate 101 5) = Err INVALID_PHASE"
  using message_roundtrip [OF permissive_g1_codec, of "solo_message Commit 3 4 5" "[]"]
    message_roundtrip [OF permissive_g1_codec, of "solo_message Commit 3 4 5" "[]" "replicate 101 5" INVALID_PHASE]
  by (simp add: pm_wf_def solo_message_def)

text \<open>
  C36: What a signature covers. The signed bytes of two messages agree exactly when phase, view,
  sequence and digest agree, and the signed bytes of a message are never those of a view-change
  payload, so that no signature can be carried over.
\<close>

theorem signed_domains_disjoint:
  assumes "pm_wf m" "pm_wf m'" "vc_wf p"
  shows "(pm_canonical m = pm_canonical m' \<longleftrightarrow>
      pm_phase m = pm_phase m' \<and> proposal_key m = proposal_key m') \<and>
    pm_canonical m \<noteq> vc_canonical_bytes p"
  using canonical_domains_disjoint [OF assms(1,3)]
  by (auto simp: pm_canonical_def proposal_key_def)

theorem signed_domains_disjoint_witness:
  "pm_canonical (solo_message Commit 3 4 5) \<noteq> pm_canonical (solo_message Prepare 3 4 5)"
proof -
  have wf: "pm_wf (solo_message p v s d)" for p v s d by (simp add: pm_wf_def solo_message_def)
  have "vc_wf \<lparr>vc_target_view = 1, vc_prepared_view = 0, vc_prepared_seq = 0,
      vc_digest = replicate 32 0, vc_sender_id = 0, vc_signature = 0 :: u64\<rparr>"
    by (simp add: vc_wf_def)
  moreover have "pm_phase (solo_message Commit 3 4 5) \<noteq> pm_phase (solo_message Prepare 3 4 5)"
    by (simp add: solo_message_def)
  ultimately show ?thesis using signed_domains_disjoint [OF wf wf] by blast
qed

section \<open>The log\<close>

text \<open>
  C24: Pruning is atomic. However \<open>prune_before\<close> ends, a crash leaves either all rows of the log or
  exactly those from the given sequence on, in order; after success it leaves the latter.
\<close>

theorem prune_is_atomic:
  assumes C: "g1_codec_laws C" and log: "wal_log C w rs" and io: "no_fault (p_reads io)"
    and p: "prune_before io n w = (res, w')" and crash: "crash_image w' b"
  defines "kept \<equiv> encode_rows C (filter (\<lambda>r. n \<le> row_seq r) rs)"
  shows "(b = encode_rows C rs \<or> b = kept) \<and> (is_ok res \<longrightarrow> b = kept)"
proof (cases res)
  case (Inr u)
  then have "wal_log C w' (filter (\<lambda>r. n \<le> row_seq r) rs)"
    using wal.prune_ok [OF C log io, of n u w'] p by simp
  from crash_image_log [OF this crash] show ?thesis using Inr by (simp add: kept_def)
next
  case (Inl e)
  have temp: "t = kept" if "prune_loop (p_reads io) (content w) n (p_write_fail io) [] = Ok t" for t
    using prune_loop_Ok [OF C _ io, of rs n "p_write_fail io" "[]" t] that log
    by (simp add: wal_log_def kept_def)
  have "w' = w \<or> (durable w' = encode_rows C rs \<and> content w' = kept)"
    using p log Inl temp
    by (auto simp: prune_before_def wal_log_def Let_def split: if_splits sum.splits)
  then show ?thesis
  proof
    assume "w' = w"
    then have "crash_image w b" using crash by simp
    from crash_image_log [OF log this] show ?thesis using Inl by simp
  next
    assume W: "durable w' = encode_rows C rs \<and> content w' = kept"
    have "length kept \<le> length (encode_rows C rs)"
      unfolding kept_def by (rule length_encode_filter)
    then have "crash_image w' b \<Longrightarrow> b = encode_rows C rs \<or> b = kept"
      using W unfolding crash_image_def by auto
    then show ?thesis using crash Inl by simp
  qed
qed

theorem prune_is_atomic_witness:
  "durable (snd (prune_before prune_io_ok 2 \<lparr>content = encode_rows permissive sample_rows,
      durable = encode_rows permissive sample_rows, detached = False\<rparr>)) \<in>
    {encode_rows permissive sample_rows,
     encode_rows permissive [msg_row (solo_message Commit 0 2 9)]}"
proof -
  let ?w = "\<lparr>content = encode_rows permissive sample_rows,
      durable = encode_rows permissive sample_rows, detached = False\<rparr>"
  obtain res w' where p: "prune_before prune_io_ok 2 ?w = (res, w')" by fastforce
  have "wal_log permissive ?w sample_rows"
    by (simp add: wal_log_def sample_rows_def msg_row_wf pm_wf_def solo_message_def)
  from prune_is_atomic [OF permissive_g1_codec this _ p, of "durable w'"]
  have "durable w' = encode_rows permissive sample_rows \<or>
      durable w' = encode_rows permissive (filter (\<lambda>r. 2 \<le> row_seq r) sample_rows)"
    by (auto simp: prune_io_ok_def no_fault_def crash_image_def)
  moreover have "filter (\<lambda>r. 2 \<le> row_seq r) sample_rows = [msg_row (solo_message Commit 0 2 9)]"
    by (simp add: sample_rows_def solo_message_def word_le_nat_alt)
  ultimately show ?thesis by (simp add: p)
qed

section \<open>Recovery\<close>

text \<open>
  C22: Recovery accepts nothing unauthenticated. Whatever bytes the file holds, a successful
  construction means they are the encoding of rows that each carry a known phase and a valid
  signature of a registered replica, and the constructed replica satisfies the invariant.
\<close>

theorem recovery_accepts_authentic_rows:
  assumes C: "g1_codec_laws C" and io: "no_fault (o_reads io)"
    and ok: "new_with_wal_path C io n keys mpk = Ok st"
  shows "node_inv C st \<and> (\<exists>rs. o_disk io = encode_rows C rs \<and>
    (\<forall>r\<in>set rs. row_wf r \<and> row_phase r \<le> 4 \<and> row_auth C (st_config st) r))"
proof -
  obtain cfg core where R: "make_config n keys mpk = Ok cfg" "st_config st = cfg"
    "replay_log C (recover_row C cfg) (o_reads io) (o_disk io)
       \<lparr>rc_core = empty_core, rc_error = False\<rparr> = (Ok (), \<lparr>rc_core = core, rc_error = False\<rparr>)"
    using new_with_wal_path_Ok [OF ok] by metis
  obtain rs where rs: "o_disk io = encode_rows C rs" "\<forall>r\<in>set rs. row_wf r"
    "fold (recover_row C cfg) rs \<lparr>rc_core = empty_core, rc_error = False\<rparr> =
      \<lparr>rc_core = core, rc_error = False\<rparr>"
    using replay_log_Ok [OF C R(3) io] by metis
  then have "recover_rows C cfg rs empty_core \<noteq> None"
    using fold_recover_rows [of C cfg rs empty_core] by (auto split: option.splits)
  then show ?thesis
    using rs R(2) recover_rows_auth [of C cfg rs empty_core] new_with_wal_path_inv [OF ok] by blast
qed

theorem recovery_accepts_authentic_rows_witness:
  "\<exists>st. new_with_wal_path permissive
      (empty_disk\<lparr>o_disk := encode_rows permissive [msg_row (solo_message PrePrepare 0 1 9)]\<rparr>) 1
      (fmupd 0 7 fmempty) 7 = Ok st \<and> node_inv permissive st"
proof -
  let ?rs = "[msg_row (solo_message PrePrepare 0 1 9)]"
  let ?io = "empty_disk\<lparr>o_disk := encode_rows permissive ?rs\<rparr>"
  have io: "o_open ?io" "o_reopen ?io" "no_fault (o_reads ?io)" "o_disk ?io = encode_rows permissive ?rs"
    by (simp_all add: empty_disk_def no_fault_def)
  have wf: "\<forall>r\<in>set ?rs. row_wf r" by (simp add: msg_row_wf pm_wf_def solo_message_def)
  obtain rc where "recover_rows permissive solo_config ?rs empty_core = Some rc"
    by (simp add: recover_core_def recover_phase_def solo_config_def solo_message_def
        get_expected_leader_def empty_core_def)
  then obtain st where st: "new_with_wal_path permissive ?io 1 (fmupd 0 7 fmempty) 7 = Ok st"
    using new_with_wal_path_rows [OF permissive_g1_codec wf io solo_make_config] by simp
  show ?thesis
    using recovery_accepts_authentic_rows [OF permissive_g1_codec io(3) st] st by blast
qed

text \<open>
  C23: A torn append is detected. When an append stops after some but not all of the bytes of its
  row, it reports the failure, and construction from the file it leaves fails with
  \<open>WAL_REPLAY_ERROR\<close> instead of dropping or misreading the tail.
\<close>

theorem torn_append_blocks_recovery:
  assumes C: "g1_codec_laws C" and log: "wal_log C (w :: wal) rs" "row_wf r"
    and torn: "append_entry C \<lparr>a_write = Some k, a_sync = sync\<rparr> r w = (res, w')" "0 < k" "k < 101"
    and io: "o_open io" "o_reopen io" "no_fault (o_reads io)" "o_disk io = content w'"
    and cfg: "make_config n keys mpk = Ok cfg"
  shows "res = Err OsError \<and> new_with_wal_path C io n keys mpk = Err WAL_REPLAY_ERROR"
proof -
  have W: "content w' = encode_rows C rs @ take k (row_to_bytes C r)" "res = Err OsError"
    using torn(1) log(1) by (auto simp: append_entry_def wal_log_def Let_def)
  have len: "length (row_to_bytes C r) = 101" by (rule length_row_to_bytes [OF C log(2)])
  have "replay_log C h (o_reads io) (content w') st = (Err UnexpectedEof, fold h rs st)"
    for h :: "'b wal_row \<Rightarrow> 'b recovery \<Rightarrow> 'b recovery" and st
    unfolding W(1)
    by (rule replay_log_torn [OF C _ io(3)]) (use log(1) torn(2,3) len in \<open>auto simp: wal_log_def\<close>)
  then show ?thesis
    using W(2) io cfg by (simp add: new_with_wal_path_def)
qed

theorem torn_append_blocks_recovery_witness:
  "new_with_wal_path permissive
      (empty_disk\<lparr>o_disk := content (snd (append_entry permissive \<lparr>a_write = Some 5, a_sync = True\<rparr>
         (msg_row (solo_message PrePrepare 0 1 9)) (wal_open [])))\<rparr>) 1 (fmupd 0 7 fmempty) 7 =
    Err WAL_REPLAY_ERROR"
proof -
  let ?r = "msg_row (solo_message PrePrepare 0 1 9)"
  obtain res w' where a: "append_entry permissive \<lparr>a_write = Some 5, a_sync = True\<rparr> ?r (wal_open []) =
      (res, w')"
    by fastforce
  have "wal_log permissive (wal_open []) []" "row_wf ?r"
    by (simp_all add: wal_log_def wal_open_def msg_row_wf pm_wf_def solo_message_def)
  from torn_append_blocks_recovery [OF permissive_g1_codec this a, of "empty_disk\<lparr>o_disk := content w'\<rparr>"]
  show ?thesis
    using solo_make_config by (simp add: a empty_disk_def no_fault_def)
qed

text \<open>
  Short and interrupted reads. How the operating system splits the file into reads, and how
  often a read is interrupted, never changes the outcome of construction.
\<close>

theorem recovery_ignores_read_sizes:
  assumes "no_fault (o_reads io)"
  shows "new_with_wal_path C io n keys mpk = new_with_wal_path C (io\<lparr>o_reads := []\<rparr>) n keys mpk"
proof -
  have "replay_log C (recover_row C cfg) (o_reads io) (o_disk io) st =
      replay_log C (recover_row C cfg) [] (o_disk io) st" for cfg st
    by (rule replay_log_schedule [OF assms])
  moreover have "o_open (io\<lparr>o_reads := []\<rparr>) = o_open io" "o_reopen (io\<lparr>o_reads := []\<rparr>) = o_reopen io"
    "o_disk (io\<lparr>o_reads := []\<rparr>) = o_disk io" "o_reads (io\<lparr>o_reads := []\<rparr>) = []" by simp_all
  ultimately show ?thesis by (simp only: new_with_wal_path_def)
qed

theorem recovery_ignores_read_sizes_witness:
  "new_with_wal_path permissive (empty_disk\<lparr>o_reads := [Reads 3, Interrupted, Reads 40]\<rparr>) 1
      (fmupd 0 7 fmempty) 7 = Ok solo_state"
  using recovery_ignores_read_sizes [of "empty_disk\<lparr>o_reads := [Reads 3, Interrupted, Reads 40]\<rparr>"
      permissive 1 "fmupd 0 7 fmempty" 7] solo_fresh
  by (simp add: no_fault_def empty_disk_def)

end
