(* ===== verification/Key_Guarantees.thy ===== *)
theory Key_Guarantees
  imports Samples
begin

text \<open>
  The properties of the threshold signatures, of key generation from a single share to the
  bootstrapped replica, and of the transport that carries shares and votes.
\<close>

section \<open>Threshold signatures\<close>

text \<open>
  C27: Completeness. Signature shares of one polynomial with at most \<open>threshold\<close> coefficients
  verify against its public constant term as soon as there are \<open>threshold\<close> of them, whoever the
  signers are.
\<close>

theorem threshold_signature_complete:
  assumes C: "scalar_laws C" "pairing_laws C"
    and poly: "F \<noteq> []" "length F \<le> unat t" "unat t \<le> hm_len sigs"
    and shares: "\<forall>i sig. fmlookup sigs i = Some sig \<longrightarrow>
      sig = sign_bls_message C msg (poly_eval F (x_coord C i))"
  shows "verify_threshold_signature C msg sigs (g2_mul C (g2_generator C) (hd F)) t"
  by (rule threshold_complete [OF C poly]) (use shares in blast)

theorem threshold_signature_complete_witness:
  "verify_threshold_signature rat_line [7] line_shares 3 2"
  using threshold_signature_complete [OF rat_line_scalar_laws rat_line_pairing_laws,
      of "[3, 2]" 2 line_shares "[7]"] line_shares_poly line_shares_len by simp

text \<open>
  C28: Soundness. An accepted set has at least \<open>threshold\<close> shares, and those of the lowest
  \<open>threshold\<close> identifiers interpolate at zero to the one signature of the message under the
  group's secret key.
\<close>

theorem threshold_signature_sound:
  assumes C: "scalar_laws C" "pairing_laws C"
    and ok: "verify_threshold_signature C msg sigs (g2_mul C (g2_generator C) sk) t"
  shows "unat t \<le> hm_len sigs \<and> distinct (signer_ids sigs t) \<and> length (signer_ids sigs t) = unat t \<and>
    (\<Sum>i\<in>set (signer_ids sigs t).
       g1_mul C (the (fmlookup sigs i)) (lagrange_coeff (x_coord C) (set (signer_ids sigs t)) i)) =
    sign_bls_message C msg sk"
proof -
  let ?ids = "signer_ids sigs t"
  note P = signer_ids_props [of sigs t]
  have "reconstruct_loop C sigs ?ids ?ids 0 = Some (sign_bls_message C msg sk)"
    by (rule threshold_sound [OF C(2) ok])
  then show ?thesis
    using reconstruct_loop_sum [where sigs = sigs and acc = 0, OF C(1) P(1) P(1) order_refl]
      verify_threshold_size [OF ok] P(1,3)
    by simp
qed

theorem threshold_signature_sound_witness:
  "(\<Sum>i\<in>set (signer_ids line_shares 2).
      the (fmlookup line_shares i) *
        lagrange_coeff (x_coord rat_line) (set (signer_ids line_shares 2)) i) = 24"
proof -
  have "verify_threshold_signature rat_line [7] line_shares (g2_mul rat_line (g2_generator rat_line) 3) 2"
    using line_shares_verify by simp
  from threshold_signature_sound [OF rat_line_scalar_laws rat_line_pairing_laws this]
  show ?thesis by (simp add: sign_bls_message_def hash_message_to_curve_def be_value_def)
qed

section \<open>Key generation\<close>

text \<open>
  C9: Keys from the bootstrap. When \<open>main\<close> reaches a live replica, the node's secret share is
  the value at its identifier, and the registry and the master key are the public values, of one
  polynomial: the coefficient-wise sum of the polynomials that were dealt. With a threshold of at
  most the quorum, that is what certificates need to verify. Nothing is assumed of the number or
  the senders of the messages that arrive.
\<close>

theorem bootstrap_establishes_keys:
  assumes C: "scalar_laws C" "g2_generator_faithful C"
    and n: "unat (nc_total_nodes cfg) < 2 ^ 32" "nc_total_nodes cfg \<noteq> 0"
    and own: "P (nc_node_id cfg) = map rng [0..<unat (nc_threshold cfg)]"
    and dealers: "\<forall>ev\<in>set events. honest_inbound C P ev"
    and ok: "bootstrap C io cfg rng events = Ok (share, st)"
  defines "F \<equiv> joint_poly P (set (peer_ids cfg)) (unat (nc_threshold cfg))"
  shows "share = poly_eval F (x_coord C (nc_node_id cfg)) \<and>
    master_public_key (st_config st) = g2_mul C (g2_generator C) (hd F) \<and>
    (\<forall>i. i |\<in>| registered_nodes (st_config st) \<longrightarrow>
       fmlookup (public_keys (st_config st)) i =
         Some (g2_mul C (g2_generator C) (poly_eval F (x_coord C i)))) \<and>
    (nc_threshold cfg \<le> quorum_size (st_config st) \<longrightarrow> keys_from_poly C (st_config st) F)"
  unfolding F_def by (rule bootstrap_keys [OF C n own dealers ok])

theorem bootstrap_establishes_keys_witness:
  "\<exists>share st F. bootstrap rat_line empty_disk quad_node (\<lambda>k. 3) quad_events = Ok (share, st) \<and>
    share = poly_eval F (x_coord rat_line 0) \<and> master_public_key (st_config st) = hd F"
proof -
  define P :: "u32 \<Rightarrow> rat list" where
    "P j = (if j = 0 then [3, 3] else [of_nat (unat j), of_nat (Suc (unat j))])" for j
  obtain share st where ok: "bootstrap rat_line empty_disk quad_node (\<lambda>k. 3) quad_events = Ok (share, st)"
    using quad_bootstrap by blast
  have own: "P (nc_node_id quad_node) = map (\<lambda>k. 3) [0..<unat (nc_threshold quad_node)]"
    by (simp add: P_def quad_node_def upt_rec)
  have "\<forall>ev\<in>set quad_events. honest_inbound rat_line P ev"
    by (simp add: quad_events_def quad_dealers_def honest_inbound_def generate_commitments_def
        dkg_new_def P_def upt_rec)
  from bootstrap_establishes_keys [OF rat_line_scalar_laws rat_line_faithful _ _ own this ok] ok
  show ?thesis by (auto simp: quad_node_def)
qed

text \<open>
  C18: The bootstrap ends. When the messages that honest dealers send arrive from every peer, in any
  order, the bootstrap of a topology of \<open>3f+1\<close> nodes over an empty log returns a share and a live
  replica. Whatever arrives, it does not wait beyond the deadline or the end of the channel.
\<close>

theorem bootstrap_completes:
  assumes C: "scalar_laws C" "pairing_laws C" "g2_generator_faithful C"
    and n: "nc_total_nodes cfg = 3 * ((nc_total_nodes cfg - 1) div 3) + 1"
      "unat (nc_total_nodes cfg) < 2 ^ 32" "nc_total_nodes cfg \<noteq> 0" "nc_threshold cfg \<noteq> 0"
      "unat (nc_node_id cfg) < unat (nc_total_nodes cfg)"
    and dealers: "\<forall>D\<in>set ds. length (dk_secret_polynomial D) = unat (nc_threshold cfg)"
      "distinct (map dk_node_id ds)"
      "dk_node_id ` set ds = {i. unat i < unat (nc_total_nodes cfg)} - {nc_node_id cfg}"
    and io: "o_open io" "o_reopen io" "no_fault (o_reads io)" "o_disk io = []"
  shows "(\<exists>share st. bootstrap C io cfg rng (map (\<lambda>D. Share (dealt C cfg D)) ds) = Ok (share, st)) \<and>
    (\<forall>io events. Deadline \<in> set events \<or> Channel_Closed \<in> set events \<longrightarrow>
       bootstrap C io cfg rng events \<noteq> Err STILL_WAITING)"
  using honest_bootstrap [OF C n dealers io] bootstrap_ends by blast

theorem bootstrap_completes_witness:
  "\<exists>share st. bootstrap rat_line empty_disk quad_node (\<lambda>k. 3)
    (map (\<lambda>D. Share (dealt rat_line quad_node D)) quad_dealers) = Ok (share, st)"
proof (rule bootstrap_completes [OF rat_line_scalar_laws rat_line_pairing_laws rat_line_faithful, THEN conjunct1])
  show "dk_node_id ` set quad_dealers = {i. unat i < unat (nc_total_nodes quad_node)} - {nc_node_id quad_node}"
    by (auto simp: quad_dealers_def quad_node_def dkg_new_def below_four)
qed (simp_all add: quad_node_def quad_dealers_def dkg_new_def empty_disk_def no_fault_def)

section \<open>Transport\<close>

text \<open>
  C34: Share messages on the wire. A share message decodes to what was encoded, for any number of
  commitments, and only canonical encodings decode. A framed share message is delivered when it has
  at most 84 commitments; with more, the receiver rejects the frame it was sent.
\<close>

theorem dkg_frame_delivery:
  assumes C: "dkg_codec_laws C" and n: "length (ds_commitments m) < 2 ^ 24"
  shows "dkg_from_bytes C (dkg_to_bytes C m) = Ok m \<and>
    (dkg_from_bytes C bs = Ok m' \<longrightarrow> dkg_to_bytes C m' = bs) \<and>
    handle_connection C io self_id (frame PACKET_TYPE_DKG (dkg_to_bytes C m)) ep =
    (if length (ds_commitments m) \<le> 84 then (Ok (), ep\<lparr>e_tx_dkg := e_tx_dkg ep @ [m]\<rparr>)
     else (Err INVALID_PACKET_SIZE, ep))"
  using dkg_decode_encode [OF dkg_encodableI [OF C]] dkg_encode_decode [OF C]
    handle_connection_dkg [OF dkg_encodableI [OF C]] dkg_packet_too_large [OF dkg_encodableI [OF C] _ n] by auto

theorem dkg_frame_delivery_witness:
  "dkg_from_bytes wire_curve (dkg_to_bytes wire_curve wire_share) = Ok wire_share \<and>
    handle_connection wire_curve handler_io_ok 0 (frame PACKET_TYPE_DKG (dkg_to_bytes wire_curve wire_share))
      wire_endpoint = (Ok (), wire_endpoint\<lparr>e_tx_dkg := [wire_share]\<rparr>)"
  using dkg_frame_delivery [OF wire_curve_codec, of wire_share "dkg_to_bytes wire_curve wire_share" wire_share
      handler_io_ok 0 wire_endpoint]
  by (simp add: wire_share_def wire_endpoint_def)

end
