(* ===== verification/Text.thy ===== *)
theory Text
  imports Prelude
begin

text \<open>
  What the attestation modules share: Rust strings as their UTF-8 bytes (string equality is byte
  equality), the standard library's tests on them, hexadecimal and decimal printing, SHA-256
  fingerprints and length-prefixed fields. SHA-256 itself is a parameter. The lemmas show that
  hexadecimal encoding is injective and inverted by decoding, and that a sequence of
  length-prefixed fields determines the fields.
\<close>

type_synonym str = bytes

definition ascii :: "string \<Rightarrow> str" where
  "ascii s = map of_char s"

section \<open>Character tests\<close>

text \<open>\<open>s.trim().is_empty()\<close>: only white space in the sense of Unicode, on the encoded bytes.\<close>

fun blank :: "str \<Rightarrow> bool" where
  "blank [] = True"
| "blank (a # s) =
     (if (9 \<le> a \<and> a \<le> 13) \<or> a = 32 then blank s
      else case s of
        [] \<Rightarrow> False
      | b # s1 \<Rightarrow>
          (if a = 0xC2 \<and> (b = 0x85 \<or> b = 0xA0) then blank s1
           else case s1 of
             [] \<Rightarrow> False
           | c # s2 \<Rightarrow>
               (if (a = 0xE1 \<and> b = 0x9A \<and> c = 0x80) \<or>
                   (a = 0xE2 \<and> b = 0x80 \<and> ((0x80 \<le> c \<and> c \<le> 0x8A) \<or> c = 0xA8 \<or> c = 0xA9 \<or> c = 0xAF)) \<or>
                   (a = 0xE2 \<and> b = 0x81 \<and> c = 0x9F) \<or> (a = 0xE3 \<and> b = 0x80 \<and> c = 0x80)
                then blank s2 else False)))"

definition is_ascii_hexdigit :: "u8 \<Rightarrow> bool" where
  "is_ascii_hexdigit b \<longleftrightarrow> (48 \<le> b \<and> b \<le> 57) \<or> (65 \<le> b \<and> b \<le> 70) \<or> (97 \<le> b \<and> b \<le> 102)"

definition is_ascii_uppercase :: "u8 \<Rightarrow> bool" where
  "is_ascii_uppercase b \<longleftrightarrow> 65 \<le> b \<and> b \<le> 90"

text \<open>\<open>valid_sha256\<close> of the package root and the attestation, and the stricter one of the repair
  attestation, which rejects upper case.\<close>

definition sha256_prefix :: str where
  "sha256_prefix = ascii ''sha256:''"

definition valid_sha256 :: "str \<Rightarrow> bool" where
  "valid_sha256 v \<longleftrightarrow> length v = 71 \<and> take 7 v = sha256_prefix \<and>
     list_all is_ascii_hexdigit (drop 7 v)"

definition valid_sha256_lower :: "str \<Rightarrow> bool" where
  "valid_sha256_lower v \<longleftrightarrow> length v = 71 \<and> take 7 v = sha256_prefix \<and>
     list_all (\<lambda>b. is_ascii_hexdigit b \<and> \<not> is_ascii_uppercase b) (drop 7 v)"

section \<open>Hexadecimal and decimal\<close>

definition hex_digit :: "nat \<Rightarrow> u8" where
  "hex_digit n = (if n < 10 then word_of_nat (48 + n) else word_of_nat (87 + n))"

text \<open>\<open>format!("{byte:02x}")\<close> of every byte.\<close>

definition hex_encode :: "bytes \<Rightarrow> str" where
  "hex_encode bs = concat (map (\<lambda>b. [hex_digit (unat b div 16), hex_digit (unat b mod 16)]) bs)"

definition hex_value :: "u8 \<Rightarrow> nat" where
  "hex_value b =
     (if b \<le> 57 then unat b - 48 else if b \<le> 70 then unat b - 55 else unat b - 87)"

text \<open>\<open>u8::from_str_radix(pair, 16)\<close> over the pairs of a string of hexadecimal digits.\<close>

fun hex_pairs :: "str \<Rightarrow> bytes" where
  "hex_pairs (a # b # s) = word_of_nat (hex_value a * 16 + hex_value b) # hex_pairs s"
| "hex_pairs _ = []"

definition hex_decode :: "nat \<Rightarrow> str \<Rightarrow> bytes option" where
  "hex_decode n value =
     (if length value \<noteq> n * 2 \<or> \<not> list_all is_ascii_hexdigit value then None
      else Some (hex_pairs value))"

text \<open>\<open>to_string\<close> of an unsigned integer.\<close>

fun dec_string :: "nat \<Rightarrow> str" where
  "dec_string n = (if n < 10 then [word_of_nat (48 + n)]
     else dec_string (n div 10) @ [word_of_nat (48 + n mod 10)])"

declare dec_string.simps [simp del]

section \<open>Fingerprints and length-prefixed fields\<close>

text \<open>\<open>format!("sha256:{:x}", Sha256::digest(bytes))\<close>.\<close>

definition fingerprint :: "(bytes \<Rightarrow> bytes) \<Rightarrow> bytes \<Rightarrow> str" where
  "fingerprint sha256 bs = sha256_prefix @ hex_encode (sha256 bs)"

definition sha256_width :: "(bytes \<Rightarrow> bytes) \<Rightarrow> bool" where
  "sha256_width sha256 \<longleftrightarrow> (\<forall>bs. length (sha256 bs) = 32)"

text \<open>\<open>push_length_prefixed\<close>; none when the length does not fit 32 bits.\<close>

definition push_length_prefixed :: "bytes \<Rightarrow> bytes \<Rightarrow> bytes option" where
  "push_length_prefixed output field =
     (if length field < 2 ^ 32
      then Some (output @ u32_to_be_bytes (word_of_nat (length field)) @ field) else None)"

fun push_fields :: "bytes \<Rightarrow> bytes list \<Rightarrow> bytes option" where
  "push_fields output [] = Some output"
| "push_fields output (f # fs) =
     (case push_length_prefixed output f of None \<Rightarrow> None | Some out \<Rightarrow> push_fields out fs)"

section \<open>Encoding lemmas\<close>

lemma hex_digit_props:
  assumes "n < 16"
  shows "is_ascii_hexdigit (hex_digit n)" "hex_value (hex_digit n) = n"
    "\<not> is_ascii_uppercase (hex_digit n)"
proof -
  have "n = 0 \<or> n = 1 \<or> n = 2 \<or> n = 3 \<or> n = 4 \<or> n = 5 \<or> n = 6 \<or> n = 7 \<or> n = 8 \<or>
      n = 9 \<or> n = 10 \<or> n = 11 \<or> n = 12 \<or> n = 13 \<or> n = 14 \<or> n = 15"
    using assms by presburger
  then show "is_ascii_hexdigit (hex_digit n)" "hex_value (hex_digit n) = n"
    "\<not> is_ascii_uppercase (hex_digit n)"
    by (auto simp: hex_digit_def is_ascii_hexdigit_def hex_value_def is_ascii_uppercase_def
        word_le_nat_alt)
qed

lemma length_hex_encode [simp]: "length (hex_encode bs) = 2 * length bs"
  by (induction bs) (simp_all add: hex_encode_def)

lemma hex_encode_digits:
  "list_all (\<lambda>b. is_ascii_hexdigit b \<and> \<not> is_ascii_uppercase b) (hex_encode bs)"
proof (induction bs)
  case (Cons b bs)
  have "unat b < 256" using unsigned_less [of b] by simp
  then have "unat b div 16 < 16" "unat b mod 16 < 16" by simp_all
  with Cons hex_digit_props show ?case by (simp add: hex_encode_def)
qed (simp add: hex_encode_def)

lemma hex_pairs_encode [simp]: "hex_pairs (hex_encode bs) = bs"
proof (induction bs)
  case (Cons b bs)
  have "unat b < 256" using unsigned_less [of b] by simp
  then have "unat b div 16 < 16" "unat b mod 16 < 16" by simp_all
  with Cons hex_digit_props(2) show ?case by (simp add: hex_encode_def)
qed (simp add: hex_encode_def)

lemma hex_decode_encode: "hex_decode (length bs) (hex_encode bs) = Some bs"
  using hex_encode_digits [of bs] by (simp add: hex_decode_def list_all_iff)

lemma hex_encode_inject [simp]: "hex_encode xs = hex_encode ys \<longleftrightarrow> xs = ys"
  by (metis hex_pairs_encode)

lemma length_prefix [simp]: "length sha256_prefix = 7"
  by (simp add: sha256_prefix_def ascii_def)

lemma fingerprint_valid:
  assumes "sha256_width sha256"
  shows "valid_sha256 (fingerprint sha256 bs)" "valid_sha256_lower (fingerprint sha256 bs)"
  using assms hex_encode_digits [of "sha256 bs"]
  by (auto simp: valid_sha256_def valid_sha256_lower_def fingerprint_def sha256_width_def list_all_iff)

lemma fingerprint_eq: "fingerprint h xs = fingerprint h ys \<longleftrightarrow> h xs = h ys"
  by (simp add: fingerprint_def)

text \<open>The material that a sequence of fields contributes.\<close>

definition prefixed :: "bytes list \<Rightarrow> bytes" where
  "prefixed fs = concat (map (\<lambda>f. u32_to_be_bytes (word_of_nat (length f)) @ f) fs)"

abbreviation short :: "bytes list \<Rightarrow> bool" where
  "short fs \<equiv> (\<forall>f\<in>set fs. length f < 2 ^ 32)"

lemma push_fields_iff: "push_fields out fs = Some r \<longleftrightarrow> short fs \<and> r = out @ prefixed fs"
  by (induction fs arbitrary: out) (auto simp: push_length_prefixed_def prefixed_def)

lemma push_fields_append:
  "push_fields out (fs @ gs) = Option.bind (push_fields out fs) (\<lambda>out. push_fields out gs)"
  by (induction fs arbitrary: out) (auto split: option.splits)

lemma prefixed_append [simp]: "prefixed (fs @ gs) = prefixed fs @ prefixed gs"
  by (simp add: prefixed_def)

lemma length_word_inj:
  assumes "length f < 2 ^ 32" "length g < 2 ^ 32"
    and "(word_of_nat (length f) :: u32) = word_of_nat (length g)"
  shows "length f = length g"
proof -
  have "unat (word_of_nat (length f) :: u32) = unat (word_of_nat (length g) :: u32)" using assms(3) by simp
  then show ?thesis using assms(1,2) by (simp add: unat_of_nat)
qed

lemma prefixed_inject:
  "short fs \<Longrightarrow> short gs \<Longrightarrow> prefixed fs = prefixed gs \<Longrightarrow> fs = gs"
proof (induction fs arbitrary: gs)
  case Nil
  then show ?case by (cases gs) (auto simp: prefixed_def dest: arg_cong [of _ _ length])
next
  case (Cons f fs)
  then obtain g gs' where gs: "gs = g # gs'"
    by (cases gs) (auto simp: prefixed_def dest: arg_cong [of _ _ length])
  have eq: "u32_to_be_bytes (word_of_nat (length f)) @ f @ prefixed fs =
      u32_to_be_bytes (word_of_nat (length g)) @ g @ prefixed gs'"
    using Cons.prems(3) by (simp add: gs prefixed_def)
  then have "u32_to_be_bytes (word_of_nat (length f)) = u32_to_be_bytes (word_of_nat (length g))"
    "f @ prefixed fs = g @ prefixed gs'"
    by (simp_all add: append_eq_append_conv)
  then have len: "length f = length g"
    using length_word_inj [of f g] Cons.prems(1,2) by (simp add: gs)
  then have "f = g" "prefixed fs = prefixed gs'"
    using \<open>f @ prefixed fs = g @ prefixed gs'\<close> by simp_all
  then show ?case using Cons.IH [of gs'] Cons.prems(1,2) by (simp add: gs)
qed

end
