(* ===== verification/Attestation.thy ===== *)
theory Attestation
  imports Text
begin

text \<open>
  The attestation modules: \<open>signed_package_root.rs\<close> (the canonical root of an evidence package),
  \<open>assurance_attestation.rs\<close> (a reviewer's attestation, its signature and its verification) and
  \<open>repair_attestation.rs\<close> (the root of a repair). SHA-256 and Ed25519 are parameters. A field
  of \<open>2 ^ 32\<close> bytes or more is an error of the package root and a panic of the attestation, the
  outer \<open>None\<close>. The lemmas characterise the accepted inputs and show that the hashed material
  determines every field.
\<close>

section \<open>Package roots\<close>

definition SIGNED_PACKAGE_ROOT_SCHEMA :: str where
  "SIGNED_PACKAGE_ROOT_SCHEMA = ascii ''causal-assurance-signed-root/v2''"

definition PORTABLE_PACKAGE_SCHEMA :: str where
  "PORTABLE_PACKAGE_SCHEMA = ascii ''causal-assurance-portable-package/v2''"

record root_artifact =
  role :: str
  contents :: bytes
  declared :: str
  binds_to :: "str list"

datatype package_error =
    INVALID_PACKAGE_SHAPE
  | FIELD_EXCEEDS_U32
  | INVALID_ARTIFACT
  | ARTIFACT_DIGEST_MISMATCH
  | ARTIFACT_BINDING_MISMATCH

definition ROLES :: "str list" where
  "ROLES = [ascii ''WITNESS'', ascii ''EVIDENCE'', ascii ''WORKBENCH'', ascii ''ATTESTATION'']"

text \<open>The loop over the artifacts from position \<open>index\<close>, with the digests recomputed so far.\<close>

fun artifact_loop :: "(bytes \<Rightarrow> bytes) \<Rightarrow> nat \<Rightarrow> bytes \<Rightarrow> str list \<Rightarrow> root_artifact list \<Rightarrow>
    (package_error, bytes) result" where
  "artifact_loop sha256 index material recomputed [] = Ok material"
| "artifact_loop sha256 index material recomputed (a # as) =
     (if role a \<noteq> ROLES ! index \<or> \<not> valid_sha256 (declared a) then Err INVALID_ARTIFACT
      else let actual = fingerprint sha256 (contents a) in
        if actual \<noteq> declared a then Err ARTIFACT_DIGEST_MISMATCH
        else if length (binds_to a) \<noteq> length recomputed \<or>
            list_ex (\<lambda>(declared, expected). declared \<noteq> expected) (zip (binds_to a) recomputed)
          then Err ARTIFACT_BINDING_MISMATCH
        else case push_fields material
            [dec_string index, role a, actual, dec_string (length (binds_to a))] of
          None \<Rightarrow> Err FIELD_EXCEEDS_U32
        | Some material \<Rightarrow>
            (case push_fields material (binds_to a) of
               None \<Rightarrow> Err FIELD_EXCEEDS_U32
             | Some material \<Rightarrow> artifact_loop sha256 (Suc index) material (recomputed @ [actual]) as))"

definition canonical_package_root :: "(bytes \<Rightarrow> bytes) \<Rightarrow> str \<Rightarrow> str \<Rightarrow> root_artifact list \<Rightarrow>
    (package_error, str) result" where
  "canonical_package_root sha256 run_id subject artifacts =
     (if blank run_id \<or> blank subject \<or> \<not> (length artifacts = 3 \<or> length artifacts = 4)
      then Err INVALID_PACKAGE_SHAPE
      else case push_fields []
          [SIGNED_PACKAGE_ROOT_SCHEMA, PORTABLE_PACKAGE_SCHEMA, run_id, subject] of
        None \<Rightarrow> Err FIELD_EXCEEDS_U32
      | Some material \<Rightarrow>
          (case artifact_loop sha256 0 material [] artifacts of
             Err e \<Rightarrow> Err e
           | Ok material \<Rightarrow> Ok (fingerprint sha256 material)))"

section \<open>Assurance attestations\<close>

definition ATTESTATION_SCHEMA :: str where
  "ATTESTATION_SCHEMA = ascii ''causal-assurance-attestation/v2''"

definition SIGNATURE_SCHEMA :: str where
  "SIGNATURE_SCHEMA = ascii ''causal-assurance-attestation-signature/v1''"

datatype review_decision = Confirmed | Rejected | Abstained

fun decision_str :: "review_decision \<Rightarrow> str" where
  "decision_str Confirmed = ascii ''CONFIRMED''"
| "decision_str Rejected = ascii ''REJECTED''"
| "decision_str Abstained = ascii ''ABSTAINED''"

record assurance_attestation =
  schema :: str
  certificate_digest :: str
  reviewer_id :: str
  decision :: review_decision
  scope_digest :: str
  attestation_digest :: str

datatype attestation_error =
    REVIEWER_ID_REQUIRED
  | DIGESTS_MUST_BE_FINGERPRINTS
  | CERTIFICATE_BINDING_MISMATCH
  | SCOPE_BINDING_MISMATCH
  | ATTESTATION_DIGEST_MISMATCH
  | INVALID_HEXADECIMAL
  | UNEXPECTED_SCHEMA_OR_ALGORITHM
  | INVALID_KEY_ID
  | FINGERPRINT_NOT_KEY_ID
  | NOT_THE_PINNED_KEY
  | INVALID_PUBLIC_KEY
  | SIGNATURE_VERIFICATION_FAILED

definition attestation_material :: "str \<Rightarrow> str \<Rightarrow> review_decision \<Rightarrow> str \<Rightarrow> bytes option" where
  "attestation_material certificate reviewer dec scope =
     push_fields [] [ATTESTATION_SCHEMA, certificate, reviewer, decision_str dec, scope]"

definition attestation_new :: "(bytes \<Rightarrow> bytes) \<Rightarrow> str \<Rightarrow> str \<Rightarrow> review_decision \<Rightarrow> str \<Rightarrow>
    (attestation_error, assurance_attestation) result option" where
  "attestation_new sha256 certificate reviewer dec scope =
     (if blank reviewer then Some (Err REVIEWER_ID_REQUIRED)
      else if \<not> valid_sha256 certificate \<or> \<not> valid_sha256 scope
      then Some (Err DIGESTS_MUST_BE_FINGERPRINTS)
      else case attestation_material certificate reviewer dec scope of
        None \<Rightarrow> None
      | Some material \<Rightarrow> Some (Ok
          \<lparr>schema = ATTESTATION_SCHEMA, certificate_digest = certificate, reviewer_id = reviewer,
           decision = dec, scope_digest = scope, attestation_digest = fingerprint sha256 material\<rparr>))"

definition verify_binding :: "(bytes \<Rightarrow> bytes) \<Rightarrow> assurance_attestation \<Rightarrow> str \<Rightarrow> str \<Rightarrow>
    (attestation_error, unit) result option" where
  "verify_binding sha256 a certificate scope =
     (if certificate_digest a \<noteq> certificate then Some (Err CERTIFICATE_BINDING_MISMATCH)
      else if scope_digest a \<noteq> scope then Some (Err SCOPE_BINDING_MISMATCH)
      else case attestation_material (certificate_digest a) (reviewer_id a) (decision a) (scope_digest a) of
        None \<Rightarrow> None
      | Some material \<Rightarrow>
          (if fingerprint sha256 material \<noteq> attestation_digest a
           then Some (Err ATTESTATION_DIGEST_MISMATCH) else Some (Ok ())))"

text \<open>The signature library: keys as bytes, signing, the check of a key and of a signature.\<close>

record 'sk ed25519 =
  verifying_key :: "'sk \<Rightarrow> bytes"
  ed_sign :: "'sk \<Rightarrow> bytes \<Rightarrow> bytes"
  key_from_bytes :: "bytes \<Rightarrow> bool"
  ed_verify :: "bytes \<Rightarrow> bytes \<Rightarrow> bytes \<Rightarrow> bool"

text \<open>Keys have 32 bytes, signatures 64, and a key verifies what it signed.\<close>

definition ed25519_laws :: "'sk ed25519 \<Rightarrow> bool" where
  "ed25519_laws E \<longleftrightarrow> (\<forall>sk. length (verifying_key E sk) = 32 \<and> key_from_bytes E (verifying_key E sk) \<and>
     (\<forall>m. length (ed_sign E sk m) = 64 \<and> ed_verify E (verifying_key E sk) m (ed_sign E sk m)))"

record signed_assurance_attestation =
  signature_schema :: str
  attestation :: assurance_attestation
  algorithm :: str
  key_id :: str
  public_key_hex :: str
  signature_hex :: str

definition signer_key_id :: "(bytes \<Rightarrow> bytes) \<Rightarrow> bytes \<Rightarrow> str" where
  "signer_key_id sha256 public_key = fingerprint sha256 public_key"

definition signature_material :: "str \<Rightarrow> str \<Rightarrow> bytes option" where
  "signature_material digest kid = push_fields [] [SIGNATURE_SCHEMA, digest, kid]"

definition sign_attestation :: "(bytes \<Rightarrow> bytes) \<Rightarrow> 'sk ed25519 \<Rightarrow> assurance_attestation \<Rightarrow> 'sk \<Rightarrow>
    (attestation_error, signed_assurance_attestation) result option" where
  "sign_attestation sha256 E a signing_key =
     (case verify_binding sha256 a (certificate_digest a) (scope_digest a) of
        None \<Rightarrow> None
      | Some (Err e) \<Rightarrow> Some (Err e)
      | Some (Ok _) \<Rightarrow>
          (let public_key = verifying_key E signing_key;
               kid = signer_key_id sha256 public_key
           in case signature_material (attestation_digest a) kid of
                None \<Rightarrow> None
              | Some material \<Rightarrow> Some (Ok
                  \<lparr>signature_schema = SIGNATURE_SCHEMA, attestation = a,
                   algorithm = ascii ''Ed25519'', key_id = kid,
                   public_key_hex = hex_encode public_key,
                   signature_hex = hex_encode (ed_sign E signing_key material)\<rparr>)))"

definition verify_attestation :: "(bytes \<Rightarrow> bytes) \<Rightarrow> 'sk ed25519 \<Rightarrow> signed_assurance_attestation \<Rightarrow>
    str \<Rightarrow> str \<Rightarrow> str \<Rightarrow> (attestation_error, unit) result option" where
  "verify_attestation sha256 E s expected_key_id certificate scope =
     (if signature_schema s \<noteq> SIGNATURE_SCHEMA \<or> algorithm s \<noteq> ascii ''Ed25519''
      then Some (Err UNEXPECTED_SCHEMA_OR_ALGORITHM)
      else if \<not> valid_sha256 expected_key_id \<or> \<not> valid_sha256 (key_id s)
      then Some (Err INVALID_KEY_ID)
      else case verify_binding sha256 (attestation s) certificate scope of
        None \<Rightarrow> None
      | Some (Err e) \<Rightarrow> Some (Err e)
      | Some (Ok _) \<Rightarrow>
          (case hex_decode 32 (public_key_hex s) of
             None \<Rightarrow> Some (Err INVALID_HEXADECIMAL)
           | Some public_key \<Rightarrow>
               (let actual_key_id = signer_key_id sha256 public_key in
                if actual_key_id \<noteq> key_id s then Some (Err FINGERPRINT_NOT_KEY_ID)
                else if actual_key_id \<noteq> expected_key_id then Some (Err NOT_THE_PINNED_KEY)
                else if \<not> key_from_bytes E public_key then Some (Err INVALID_PUBLIC_KEY)
                else case hex_decode 64 (signature_hex s) of
                  None \<Rightarrow> Some (Err INVALID_HEXADECIMAL)
                | Some signature \<Rightarrow>
                    (case signature_material (attestation_digest (attestation s)) actual_key_id of
                       None \<Rightarrow> None
                     | Some material \<Rightarrow>
                         (if ed_verify E public_key material signature then Some (Ok ())
                          else Some (Err SIGNATURE_VERIFICATION_FAILED))))))"

section \<open>Repair attestations\<close>

record repair_input =
  propagation_envelope_digest :: str
  sentinel_observation_digest :: str
  problem :: str
  native_replay_verified :: bool

record repair_attestation =
  repair_schema :: str
  attested_root :: str
  repair_problem_id :: str
  eligible :: bool
  claim_boundary :: str

definition REPAIR_SCHEMA :: str where
  "REPAIR_SCHEMA = ascii ''causal-assurance-repair-attestation/v1''"

definition CLAIM_BOUNDARY :: str where
  "CLAIM_BOUNDARY = ascii (''Sovereign-Lattice attests the supplied evidence root only. '' @
     ''It does not independently prove target-protocol safety, native replay semantics, '' @
     ''or global repair correctness.'')"

definition repair_eligible :: "repair_input \<Rightarrow> bool" where
  "repair_eligible i \<longleftrightarrow> native_replay_verified i \<and>
     valid_sha256_lower (propagation_envelope_digest i) \<and>
     valid_sha256_lower (sentinel_observation_digest i) \<and> \<not> blank (problem i)"

definition repair_material :: "repair_input \<Rightarrow> bytes" where
  "repair_material i = REPAIR_SCHEMA @ [0] @ propagation_envelope_digest i @ [0] @
     sentinel_observation_digest i @ [0] @ problem i"

definition attest_repair_root :: "(bytes \<Rightarrow> bytes) \<Rightarrow> repair_input \<Rightarrow> repair_attestation" where
  "attest_repair_root sha256 i =
     \<lparr>repair_schema = REPAIR_SCHEMA,
      attested_root = (if repair_eligible i then fingerprint sha256 (repair_material i)
                       else ascii ''UNATTESTED''),
      repair_problem_id = problem i,
      eligible = repair_eligible i,
      claim_boundary = CLAIM_BOUNDARY\<rparr>"

section \<open>Accepted packages\<close>

lemma valid_fingerprint: "sha256_width sha256 \<Longrightarrow> valid_sha256 (fingerprint sha256 bs)"
  by (rule fingerprint_valid(1))

lemma length_fingerprint: "sha256_width sha256 \<Longrightarrow> length (fingerprint sha256 bs) = 71"
  using valid_fingerprint [of sha256 bs] by (simp add: valid_sha256_def)

lemma zip_differs: "length xs = length ys \<Longrightarrow> list_ex (\<lambda>(x, y). x \<noteq> y) (zip xs ys) \<longleftrightarrow> xs \<noteq> ys"
  by (induction xs ys rule: list_induct2) auto

fun artifacts_ok :: "(bytes \<Rightarrow> bytes) \<Rightarrow> nat \<Rightarrow> str list \<Rightarrow> root_artifact list \<Rightarrow> bool" where
  "artifacts_ok sha256 i ds [] = True"
| "artifacts_ok sha256 i ds (a # as) \<longleftrightarrow> role a = ROLES ! i \<and>
     declared a = fingerprint sha256 (contents a) \<and> binds_to a = ds \<and>
     artifacts_ok sha256 (Suc i) (ds @ [declared a]) as"

fun artifact_fields :: "nat \<Rightarrow> root_artifact list \<Rightarrow> bytes list" where
  "artifact_fields i [] = []"
| "artifact_fields i (a # as) =
     [dec_string i, role a, declared a, dec_string (length (binds_to a))] @ binds_to a @
     artifact_fields (Suc i) as"

text \<open>What is hashed into the root, and every input of SHA-256.\<close>

definition package_fields :: "str \<Rightarrow> str \<Rightarrow> root_artifact list \<Rightarrow> bytes list" where
  "package_fields run_id subject as =
     [SIGNED_PACKAGE_ROOT_SCHEMA, PORTABLE_PACKAGE_SCHEMA, run_id, subject] @ artifact_fields 0 as"

definition package_hashes :: "str \<Rightarrow> str \<Rightarrow> root_artifact list \<Rightarrow> bytes set" where
  "package_hashes run_id subject as =
     insert (prefixed (package_fields run_id subject as)) (contents ` set as)"

lemma artifact_loop_iff:
  assumes "sha256_width sha256"
  shows "artifact_loop sha256 i m ds as = Ok r \<longleftrightarrow>
    artifacts_ok sha256 i ds as \<and> short (artifact_fields i as) \<and> r = m @ prefixed (artifact_fields i as)"
proof (induction as arbitrary: i m ds)
  case (Cons a as)
  show ?case
  proof (cases "role a = ROLES ! i \<and> declared a = fingerprint sha256 (contents a) \<and> binds_to a = ds")
    case True
    have p: "push_fields (m @ prefixed xs) ys = (if short ys then Some (m @ prefixed (xs @ ys)) else None)"
      "push_fields m xs = (if short xs then Some (m @ prefixed xs) else None)" for xs ys
      by (auto simp: push_fields_iff not_Some_eq [symmetric] simp del: not_Some_eq)
    have f: "artifact_fields i (a # as) =
        ([dec_string i, role a, declared a, dec_string (length ds)] @ ds) @ artifact_fields (Suc i) as"
      using True by simp
    show ?thesis using True valid_fingerprint [OF assms]
      unfolding f artifact_loop.simps artifacts_ok.simps
      by (simp add: zip_differs p Cons.IH Let_def prefixed_append [symmetric] del: prefixed_append push_fields.simps)
        blast
  qed (auto simp: Let_def zip_differs)
qed (auto simp: prefixed_def)

lemma artifacts_ok_nth:
  "artifacts_ok sha256 i ds as \<longleftrightarrow>
    (\<forall>j<length as. role (as ! j) = ROLES ! (i + j) \<and>
       declared (as ! j) = fingerprint sha256 (contents (as ! j)) \<and>
       binds_to (as ! j) = ds @ map declared (take j as))"
  by (induction as arbitrary: i ds) (auto simp: All_less_Suc2)

lemma length_ROLES: "i < 4 \<Longrightarrow> length (ROLES ! i) < 12"
  by (auto simp: less_Suc_eq numeral_eq_Suc ROLES_def ascii_def)

lemma length_dec_string: "n < 10 \<Longrightarrow> length (dec_string n) = 1"
  by (simp add: dec_string.simps)

lemma artifact_fields_short:
  assumes "sha256_width sha256"
  shows "artifacts_ok sha256 i ds as \<Longrightarrow> i + length as \<le> 4 \<Longrightarrow> length ds = i \<Longrightarrow>
    \<forall>d\<in>set ds. length d = 71 \<Longrightarrow> short (artifact_fields i as)"
proof (induction as arbitrary: i ds)
  case (Cons a as)
  have "short (artifact_fields (Suc i) as)"
    using Cons.prems length_fingerprint [OF assms] by (intro Cons.IH [of "Suc i" "ds @ [declared a]"]) auto
  then show ?case
    using Cons.prems length_fingerprint [OF assms] length_ROLES [of i] length_dec_string [of i]
    by auto
qed simp

lemma package_fields_short:
  assumes "sha256_width sha256" "artifacts_ok sha256 0 [] as" "length as = 3 \<or> length as = 4"
    and "length run_id < 2 ^ 32" "length subject < 2 ^ 32"
  shows "short (package_fields run_id subject as)"
proof -
  have "short (artifact_fields 0 as)"
    using assms(3) by (intro artifact_fields_short [OF assms(1,2)]) auto
  moreover have "length SIGNED_PACKAGE_ROOT_SCHEMA < 2 ^ 32" "length PORTABLE_PACKAGE_SCHEMA < 2 ^ 32"
    by (simp_all add: SIGNED_PACKAGE_ROOT_SCHEMA_def PORTABLE_PACKAGE_SCHEMA_def ascii_def)
  ultimately show ?thesis using assms(4,5) by (auto simp: package_fields_def)
qed

lemma package_root_iff:
  assumes "sha256_width sha256"
  shows "canonical_package_root sha256 run_id subject as = Ok digest \<longleftrightarrow>
    \<not> blank run_id \<and> \<not> blank subject \<and> (length as = 3 \<or> length as = 4) \<and>
    artifacts_ok sha256 0 [] as \<and> length run_id < 2 ^ 32 \<and> length subject < 2 ^ 32 \<and>
    digest = fingerprint sha256 (prefixed (package_fields run_id subject as))"
proof -
  have l: "length SIGNED_PACKAGE_ROOT_SCHEMA < 2 ^ 32" "length PORTABLE_PACKAGE_SCHEMA < 2 ^ 32"
    by (simp_all add: SIGNED_PACKAGE_ROOT_SCHEMA_def PORTABLE_PACKAGE_SCHEMA_def ascii_def)
  let ?fs = "[SIGNED_PACKAGE_ROOT_SCHEMA, PORTABLE_PACKAGE_SCHEMA, run_id, subject]"
  have p: "push_fields [] ?fs = (if short ?fs then Some (prefixed ?fs) else None)"
    by (auto simp: push_fields_iff not_Some_eq [symmetric] simp del: not_Some_eq push_fields.simps)
  have s: "short ?fs \<longleftrightarrow> length run_id < 2 ^ 32 \<and> length subject < 2 ^ 32" using l by simp
  have "artifacts_ok sha256 0 [] as \<Longrightarrow> length as = 3 \<or> length as = 4 \<Longrightarrow> short (artifact_fields 0 as)"
    by (rule artifact_fields_short [OF assms]) auto
  moreover have "(case artifact_loop sha256 0 m [] as of Err e \<Rightarrow> Err e | Ok x \<Rightarrow> Ok (f x)) = Ok digest \<longleftrightarrow>
      (\<exists>x. artifact_loop sha256 0 m [] as = Ok x \<and> digest = f x)" for m and f :: "bytes \<Rightarrow> str"
    by (auto split: sum.splits)
  ultimately show ?thesis
    unfolding canonical_package_root_def p s package_fields_def prefixed_append
    by (auto simp: artifact_loop_iff [OF assms] split: if_splits)
qed

lemma artifact_fields_inject:
  "artifacts_ok sha256 i ds as \<Longrightarrow> artifacts_ok sha256 i ds bs \<Longrightarrow>
    inj_on sha256 (contents ` set as \<union> contents ` set bs) \<Longrightarrow>
    artifact_fields i as = artifact_fields i bs \<Longrightarrow> as = bs"
proof (induction as arbitrary: i ds bs)
  case Nil
  then show ?case by (cases bs) auto
next
  case (Cons a as)
  then obtain b bs' where bs: "bs = b # bs'" by (cases bs) auto
  have eq: "role a = role b" "declared a = declared b" "binds_to a = binds_to b"
    "artifact_fields (Suc i) as = artifact_fields (Suc i) bs'"
    using Cons.prems(1,2,4) by (simp_all add: bs)
  have "sha256 (contents a) = sha256 (contents b)"
    using Cons.prems(1,2) eq(2) by (simp add: bs fingerprint_eq)
  then have "contents a = contents b" by (rule inj_onD [OF Cons.prems(3)]) (simp_all add: bs)
  moreover have "as = bs'"
    using Cons.prems(1,2) eq(2,4) inj_on_subset [OF Cons.prems(3)]
    by (intro Cons.IH [of "Suc i" "ds @ [declared a]" bs']) (auto simp: bs)
  ultimately show ?case using eq by (simp add: bs)
qed

section \<open>Accepted attestations\<close>

definition attestation_fields :: "assurance_attestation \<Rightarrow> bytes list" where
  "attestation_fields a =
     [ATTESTATION_SCHEMA, certificate_digest a, reviewer_id a, decision_str (decision a), scope_digest a]"

lemma short_constants: "length ATTESTATION_SCHEMA < 2 ^ 32" "length SIGNATURE_SCHEMA < 2 ^ 32"
  "length (decision_str d) < 2 ^ 32"
  by (simp_all add: ATTESTATION_SCHEMA_def SIGNATURE_SCHEMA_def ascii_def) (cases d; simp add: ascii_def)

lemma push_fields_Nil: "push_fields [] fs = (if short fs then Some (prefixed fs) else None)"
  by (auto simp: push_fields_iff not_Some_eq [symmetric] simp del: not_Some_eq push_fields.simps)

lemma verify_binding_iff:
  "verify_binding sha256 a c s = Some (Ok u) \<longleftrightarrow> certificate_digest a = c \<and> scope_digest a = s \<and>
     short (attestation_fields a) \<and> attestation_digest a = fingerprint sha256 (prefixed (attestation_fields a))"
  by (auto simp: verify_binding_def attestation_material_def push_fields_Nil attestation_fields_def
      simp del: push_fields.simps)

lemma attestation_new_iff:
  "attestation_new sha256 c r d s = Some (Ok a) \<longleftrightarrow> \<not> blank r \<and> valid_sha256 c \<and> valid_sha256 s \<and>
     length r < 2 ^ 32 \<and>
     a = \<lparr>schema = ATTESTATION_SCHEMA, certificate_digest = c, reviewer_id = r, decision = d,
          scope_digest = s,
          attestation_digest = fingerprint sha256 (prefixed [ATTESTATION_SCHEMA, c, r, decision_str d, s])\<rparr>"
  using short_constants(1,2) short_constants(3) [of d]
  by (auto simp: attestation_new_def attestation_material_def push_fields_Nil valid_sha256_def
      simp del: push_fields.simps)

lemma decision_str_inject [simp]: "decision_str d = decision_str e \<longleftrightarrow> d = e"
  by (cases d; cases e) (simp_all add: ascii_def)

lemma attestation_fields_inject:
  assumes "attestation_fields a = attestation_fields b"
  shows "certificate_digest a = certificate_digest b \<and> reviewer_id a = reviewer_id b \<and>
    decision a = decision b \<and> scope_digest a = scope_digest b"
  using assms by (simp add: attestation_fields_def)

lemma verify_attestation_iff:
  "verify_attestation sha256 E s kid c sc = Some (Ok u) \<longleftrightarrow>
     signature_schema s = SIGNATURE_SCHEMA \<and> algorithm s = ascii ''Ed25519'' \<and>
     valid_sha256 kid \<and> key_id s = kid \<and> verify_binding sha256 (attestation s) c sc = Some (Ok ()) \<and>
     (\<exists>pk sg. hex_decode 32 (public_key_hex s) = Some pk \<and> fingerprint sha256 pk = kid \<and>
        key_from_bytes E pk \<and> hex_decode 64 (signature_hex s) = Some sg \<and>
        length (attestation_digest (attestation s)) < 2 ^ 32 \<and>
        ed_verify E pk (prefixed [SIGNATURE_SCHEMA, attestation_digest (attestation s), kid]) sg)"
  (is "?l \<longleftrightarrow> ?r")
proof
  assume ?l
  then show ?r
    by (auto simp: verify_attestation_def signature_material_def push_fields_Nil signer_key_id_def Let_def
        simp del: push_fields.simps split: if_splits option.splits sum.splits)
next
  assume ?r
  then show ?l using short_constants(2)
    by (auto simp: verify_attestation_def signature_material_def push_fields_Nil signer_key_id_def Let_def
        valid_sha256_def simp del: push_fields.simps)
qed

text \<open>The envelope that signing builds.\<close>

definition signed_envelope :: "(bytes \<Rightarrow> bytes) \<Rightarrow> 'sk ed25519 \<Rightarrow> assurance_attestation \<Rightarrow> 'sk \<Rightarrow>
    signed_assurance_attestation" where
  "signed_envelope sha256 E a sk =
     (let kid = fingerprint sha256 (verifying_key E sk) in
      \<lparr>signature_schema = SIGNATURE_SCHEMA, attestation = a, algorithm = ascii ''Ed25519'', key_id = kid,
       public_key_hex = hex_encode (verifying_key E sk),
       signature_hex = hex_encode (ed_sign E sk (prefixed [SIGNATURE_SCHEMA, attestation_digest a, kid]))\<rparr>)"

lemma new_binding:
  assumes "attestation_new sha256 c r d s = Some (Ok a)"
  shows "verify_binding sha256 a c s = Some (Ok ())"
  using assms short_constants(1) short_constants(3) [of d]
  by (auto simp: attestation_new_iff verify_binding_iff attestation_fields_def valid_sha256_def)

lemma new_signature_material:
  assumes "sha256_width sha256" "attestation_new sha256 c r d s = Some (Ok a)"
  shows "signature_material (attestation_digest a) (fingerprint sha256 pk) =
    Some (prefixed [SIGNATURE_SCHEMA, attestation_digest a, fingerprint sha256 pk])"
proof -
  have "length (attestation_digest a) = 71"
    using assms length_fingerprint by (auto simp: attestation_new_iff)
  then show ?thesis using length_fingerprint [OF assms(1)] short_constants(2)
    by (simp add: signature_material_def push_fields_Nil del: push_fields.simps)
qed

lemma sign_new:
  assumes "sha256_width sha256" "attestation_new sha256 c r d s = Some (Ok a)"
  shows "sign_attestation sha256 E a sk = Some (Ok (signed_envelope sha256 E a sk))"
proof -
  have "certificate_digest a = c" "scope_digest a = s" using assms(2) by (auto simp: attestation_new_iff)
  then show ?thesis
    using new_binding [OF assms(2)] new_signature_material [OF assms]
    by (simp add: sign_attestation_def signed_envelope_def signer_key_id_def Let_def)
qed

lemma verify_envelope:
  fixes sk :: 'sk
  assumes "sha256_width sha256" "ed25519_laws E" "attestation_new sha256 c r d s = Some (Ok a)"
  defines "kid \<equiv> fingerprint sha256 (verifying_key E sk)"
  shows "verify_attestation sha256 E (signed_envelope sha256 E a sk) kid c s = Some (Ok ())"
    and "kid' \<noteq> kid \<Longrightarrow> verify_attestation sha256 E (signed_envelope sha256 E a sk) kid' c s =
      Some (Err (if valid_sha256 kid' then NOT_THE_PINNED_KEY else INVALID_KEY_ID))"
proof -
  have k: "hex_decode 32 (hex_encode (verifying_key E sk)) = Some (verifying_key E sk)"
    "hex_decode 64 (hex_encode (ed_sign E sk m)) = Some (ed_sign E sk m)" for m
    using assms(2) by (metis ed25519_laws_def hex_decode_encode)+
  have e: "valid_sha256 kid" using valid_fingerprint [OF assms(1)] by (simp add: kid_def)
  note facts = new_binding [OF assms(3)] new_signature_material [OF assms(1,3)] k e [unfolded kid_def] assms(2)
  show "verify_attestation sha256 E (signed_envelope sha256 E a sk) kid c s = Some (Ok ())"
    using facts by (simp add: verify_attestation_def signed_envelope_def signer_key_id_def Let_def kid_def
        ed25519_laws_def)
  show "verify_attestation sha256 E (signed_envelope sha256 E a sk) kid' c s =
      Some (Err (if valid_sha256 kid' then NOT_THE_PINNED_KEY else INVALID_KEY_ID))" if "kid' \<noteq> kid"
    using facts that by (auto simp: verify_attestation_def signed_envelope_def signer_key_id_def Let_def kid_def)
qed

lemma repair_material_inject:
  assumes "repair_eligible i" "repair_eligible j" "repair_material i = repair_material j"
  shows "i = j"
proof -
  have "length (propagation_envelope_digest i) = length (propagation_envelope_digest j)"
    "length (sentinel_observation_digest i) = length (sentinel_observation_digest j)"
    using assms(1,2) by (simp_all add: repair_eligible_def valid_sha256_lower_def)
  then show ?thesis using assms by (cases i; cases j) (simp add: repair_material_def repair_eligible_def)
qed

text \<open>The root of an eligible repair is a fingerprint that no other input shares, as long as
  SHA-256 does not collide on the two materials.\<close>

lemma repair_root_attests_evidence:
  assumes width: "sha256_width sha256" and eligible: "eligible (attest_repair_root sha256 i)"
    and inj: "inj_on sha256 {repair_material i, repair_material j}"
  shows "native_replay_verified i \<and> valid_sha256_lower (attested_root (attest_repair_root sha256 i)) \<and>
    (attested_root (attest_repair_root sha256 i) = attested_root (attest_repair_root sha256 j) \<longleftrightarrow> i = j) \<and>
    (eligible (attest_repair_root sha256 j) \<longleftrightarrow>
       attested_root (attest_repair_root sha256 j) \<noteq> ascii ''UNATTESTED'')"
proof -
  have i: "repair_eligible i" using eligible by (simp add: attest_repair_root_def)
  have no: "fingerprint sha256 bs \<noteq> ascii ''UNATTESTED''" for bs
  proof -
    have "length (ascii ''UNATTESTED'') = 10" by (simp add: ascii_def)
    then show ?thesis using length_fingerprint [OF width, of bs] by auto
  qed
  have "i = j" if "attested_root (attest_repair_root sha256 i) = attested_root (attest_repair_root sha256 j)"
  proof -
    have roots: "fingerprint sha256 (repair_material i) =
        (if repair_eligible j then fingerprint sha256 (repair_material j) else ascii ''UNATTESTED'')"
      using that i unfolding attest_repair_root_def by (simp only: repair_attestation.simps if_True)
    have j: "repair_eligible j"
    proof (rule ccontr)
      assume "\<not> repair_eligible j"
      then show False using roots no [of "repair_material i"] by (simp only: if_False)
    qed
    then have "sha256 (repair_material i) = sha256 (repair_material j)"
      using roots by (simp only: if_True fingerprint_eq)
    then have "repair_material i = repair_material j" by (rule inj_onD [OF inj]) simp_all
    with i j show "i = j" by (rule repair_material_inject)
  qed
  moreover have "native_replay_verified i" using i by (simp add: repair_eligible_def)
  moreover have "valid_sha256_lower (attested_root (attest_repair_root sha256 i))"
    using i fingerprint_valid(2) [OF width] by (simp add: attest_repair_root_def)
  moreover have "eligible (attest_repair_root sha256 j) \<longleftrightarrow>
      attested_root (attest_repair_root sha256 j) \<noteq> ascii ''UNATTESTED''"
    using no by (simp add: attest_repair_root_def)
  ultimately show ?thesis by blast
qed

end
