(* ===== verification/Evidence_Guarantees.thy ===== *)
theory Evidence_Guarantees
  imports Attestation
begin

text \<open>
  The properties of the attestation modules: what the root of a package determines, that a signed
  attestation verifies and what a verified one determines. Where a property needs that SHA-256 does
  not collide it names the inputs the calls hash; the witnesses use a small hash function, the last 32 bytes of its input.
\<close>

section \<open>Fixtures\<close>

definition tail_hash :: "bytes \<Rightarrow> bytes" where
  "tail_hash bs = drop (length bs) (replicate 32 0 @ bs)"

lemma tail_hash_width: "sha256_width tail_hash"
  unfolding sha256_width_def tail_hash_def length_drop length_append length_replicate by simp

definition sample_artifact :: "nat \<Rightarrow> bytes list \<Rightarrow> root_artifact" where
  "sample_artifact i cs = \<lparr>role = ROLES ! i, contents = cs ! i,
     declared = fingerprint tail_hash (cs ! i), binds_to = map (fingerprint tail_hash) (take i cs)\<rparr>"

definition sample_package :: "bytes list \<Rightarrow> root_artifact list" where
  "sample_package cs = map (\<lambda>i. sample_artifact i cs) [0..<length cs]"

lemma sample_package_ok: "artifacts_ok tail_hash 0 [] (sample_package cs)"
  by (auto simp: artifacts_ok_nth sample_package_def sample_artifact_def take_map [symmetric] nth_append
      intro!: nth_equalityI)

lemma sample_package_root:
  "canonical_package_root tail_hash [97] [98] (sample_package [[1], [2], [3]]) =
     Ok (fingerprint tail_hash (prefixed (package_fields [97] [98] (sample_package [[1], [2], [3]]))))"
  "canonical_package_root tail_hash [97] [98] (sample_package [[1], [4], [3]]) =
     Ok (fingerprint tail_hash (prefixed (package_fields [97] [98] (sample_package [[1], [4], [3]]))))"
  by (simp_all add: package_root_iff [OF tail_hash_width] sample_package_ok) (simp_all add: sample_package_def)

text \<open>The material of a package of three ends with the digest of its second artifact.\<close>

lemma tail_hash_suffix: "32 \<le> length ys \<Longrightarrow> tail_hash (xs @ ys) = tail_hash ys"
  by (simp add: tail_hash_def)

lemma sample_package_hash:
  "tail_hash (prefixed (package_fields r s (sample_package [a, b, c]))) = tail_hash (fingerprint tail_hash b)"
proof -
  have "\<exists>fs. package_fields r s (sample_package [a, b, c]) = fs @ [fingerprint tail_hash b]"
    by (simp add: package_fields_def sample_package_def sample_artifact_def upt_rec)
  then obtain fs where "package_fields r s (sample_package [a, b, c]) = fs @ [fingerprint tail_hash b]" ..
  then show ?thesis
    using length_fingerprint [OF tail_hash_width, of b]
    by (simp add: prefixed_def append_assoc [symmetric] tail_hash_suffix del: append_assoc)
qed

lemma tail_hash_digits:
  "tail_hash (fingerprint tail_hash [2]) = replicate 31 48 @ [50]"
  "tail_hash (fingerprint tail_hash [4]) = replicate 31 48 @ [52]"
  by (code_simp, code_simp)

lemmas sample_package_hashes = sample_package_hash [of "[97]" "[98]" "[1]" "[2]" "[3]", unfolded tail_hash_digits]
  sample_package_hash [of "[97]" "[98]" "[1]" "[4]" "[3]", unfolded tail_hash_digits]

lemma sample_package_contents: "contents ` set (sample_package cs) = set cs"
  by (force simp: sample_package_def sample_artifact_def in_set_conv_nth)

definition sample_ed25519 :: "u8 ed25519" where
  "sample_ed25519 = \<lparr>verifying_key = replicate 32, ed_sign = \<lambda>sk m. replicate 64 sk,
     key_from_bytes = \<lambda>pk. True, ed_verify = \<lambda>pk m sg. sg = replicate 64 (hd pk)\<rparr>"

lemma sample_ed25519_laws: "ed25519_laws sample_ed25519"
  by (simp add: ed25519_laws_def sample_ed25519_def)

definition sample_attestation :: "str \<Rightarrow> review_decision \<Rightarrow> assurance_attestation" where
  "sample_attestation r d = \<lparr>schema = ATTESTATION_SCHEMA, certificate_digest = fingerprint tail_hash [1],
     reviewer_id = r, decision = d, scope_digest = fingerprint tail_hash [2],
     attestation_digest = fingerprint tail_hash (prefixed [ATTESTATION_SCHEMA, fingerprint tail_hash [1], r,
       decision_str d, fingerprint tail_hash [2]])\<rparr>"

lemma sample_attestation_new:
  "\<not> blank r \<Longrightarrow> length r < 2 ^ 32 \<Longrightarrow>
    attestation_new tail_hash (fingerprint tail_hash [1]) r d (fingerprint tail_hash [2]) =
      Some (Ok (sample_attestation r d))"
  by (simp add: attestation_new_iff valid_fingerprint [OF tail_hash_width] sample_attestation_def)

lemma sample_attestation_hash:
  "tail_hash (prefixed (attestation_fields (sample_attestation r d))) = replicate 31 48 @ [50]"
proof -
  have "prefixed (fs @ [f]) = (prefixed fs @ u32_to_be_bytes (word_of_nat (length f))) @ f" for fs f
    by (simp add: prefixed_def)
  moreover have "attestation_fields (sample_attestation r d) =
      [ATTESTATION_SCHEMA, fingerprint tail_hash [1], r, decision_str d] @ [fingerprint tail_hash [2]]"
    by (simp add: attestation_fields_def sample_attestation_def)
  ultimately show ?thesis
    using length_fingerprint [OF tail_hash_width, of "[2]"] tail_hash_digits(1)
    by (simp add: tail_hash_suffix del: append_assoc append_Cons append_Nil)
qed

section \<open>Package roots\<close>

text \<open>
  C31: The root determines the package: two accepted packages have the same root exactly when run,
  subject and artifacts are the same, provided that SHA-256 does not collide on what the two calls
  hash, that is the contents and the two length-prefixed materials.
\<close>

theorem package_root_determines_package:
  assumes width: "sha256_width sha256"
    and p: "canonical_package_root sha256 run_id subject as = Ok d"
    and q: "canonical_package_root sha256 run_id' subject' as' = Ok d'"
    and inj: "inj_on sha256 (package_hashes run_id subject as \<union> package_hashes run_id' subject' as')"
  shows "d = d' \<longleftrightarrow> run_id = run_id' \<and> subject = subject' \<and> as = as'"
proof
  note pi = iffD1 [OF package_root_iff [OF width] p] and qi = iffD1 [OF package_root_iff [OF width] q]
  assume "d = d'"
  then have "sha256 (prefixed (package_fields run_id subject as)) =
      sha256 (prefixed (package_fields run_id' subject' as'))"
    using pi qi by (simp only: fingerprint_eq)
  then have "prefixed (package_fields run_id subject as) = prefixed (package_fields run_id' subject' as')"
    by (rule inj_onD [OF inj]) (simp_all add: package_hashes_def)
  moreover have "short (package_fields run_id subject as)"
    using pi by (intro package_fields_short [OF width]) simp_all
  moreover have "short (package_fields run_id' subject' as')"
    using qi by (intro package_fields_short [OF width]) simp_all
  ultimately have f: "package_fields run_id subject as = package_fields run_id' subject' as'"
    by (intro prefixed_inject)
  have "artifacts_ok sha256 0 [] as" "artifacts_ok sha256 0 [] as'" using pi qi by simp_all
  moreover have "inj_on sha256 (contents ` set as \<union> contents ` set as')"
    by (rule inj_on_subset [OF inj]) (auto simp: package_hashes_def)
  moreover have "artifact_fields 0 as = artifact_fields 0 as'" using f by (simp add: package_fields_def)
  ultimately have "as = as'" by (rule artifact_fields_inject)
  with f show "run_id = run_id' \<and> subject = subject' \<and> as = as'" by (simp add: package_fields_def)
next
  assume "run_id = run_id' \<and> subject = subject' \<and> as = as'"
  then show "d = d'" using p q by simp
qed

theorem package_root_determines_package_witness:
  "canonical_package_root tail_hash [97] [98] (sample_package [[1], [2], [3]]) \<noteq>
   canonical_package_root tail_hash [97] [98] (sample_package [[1], [4], [3]])"
proof -
  let ?a = "prefixed (package_fields [97] [98] (sample_package [[1], [2], [3]]))"
  let ?b = "prefixed (package_fields [97] [98] (sample_package [[1], [4], [3]]))"
  have h: "tail_hash [k] = replicate 31 0 @ [k]" for k
    by (simp add: tail_hash_def eval_nat_numeral)
  have "distinct (map tail_hash [?a, ?b, [1], [2], [3], [4]])"
    unfolding list.map h sample_package_hashes by simp
  then have "inj_on tail_hash (set [?a, ?b, [1], [2], [3], [4]])" by (simp only: distinct_map)
  then have "inj_on tail_hash (package_hashes [97] [98] (sample_package [[1], [2], [3]]) \<union>
      package_hashes [97] [98] (sample_package [[1], [4], [3]]))"
    by (rule inj_on_subset) (simp only: package_hashes_def sample_package_contents list.set, fast)
  moreover have "sample_package [[1], [2], [3]] \<noteq> sample_package [[1], [4], [3]]"
  proof
    assume "sample_package [[1], [2], [3]] = sample_package [[1], [4], [3]]"
    then have "contents ` set (sample_package [[1], [2], [3]]) = contents ` set (sample_package [[1], [4], [3]])"
      by (rule arg_cong)
    then have "{[1], [2], [3]} = {[1], [4], [3 :: u8]}" unfolding sample_package_contents by simp
    then have "[2] \<in> {[1], [4], [3 :: u8]}" by blast
    then show False by simp
  qed
  ultimately have "fingerprint tail_hash ?a \<noteq> fingerprint tail_hash ?b"
    using package_root_determines_package [OF tail_hash_width sample_package_root] by blast
  then show ?thesis by (simp only: sample_package_root sum.inject) simp
qed

section \<open>Reviewer attestations\<close>

text \<open>
  C32: A new attestation can be signed with any key, and the envelope verifies under the key's own
  identifier and the attested digests. Under any other pinned identifier it is rejected.
\<close>

theorem signed_attestation_verifies:
  assumes width: "sha256_width sha256" and laws: "ed25519_laws E"
    and new: "attestation_new sha256 c r d s = Some (Ok a)"
  shows "\<exists>env. sign_attestation sha256 E a sk = Some (Ok env) \<and> attestation env = a \<and>
    verify_attestation sha256 E env (fingerprint sha256 (verifying_key E sk)) c s = Some (Ok ()) \<and>
    (\<forall>kid. kid \<noteq> fingerprint sha256 (verifying_key E sk) \<longrightarrow>
       verify_attestation sha256 E env kid c s =
         Some (Err (if valid_sha256 kid then NOT_THE_PINNED_KEY else INVALID_KEY_ID)))"
proof -
  have a: "certificate_digest a = c" "scope_digest a = s" using new by (auto simp: attestation_new_iff)
  have "sign_attestation sha256 E a sk = Some (Ok (signed_envelope sha256 E a sk))"
    using new by (rule sign_new [OF width])
  moreover have "attestation (signed_envelope sha256 E a sk) = a" by (simp add: signed_envelope_def Let_def)
  ultimately show ?thesis using verify_envelope [OF width laws new] a by blast
qed

theorem signed_attestation_verifies_witness:
  "\<exists>env. sign_attestation tail_hash sample_ed25519 (sample_attestation [97] Confirmed) 7 = Some (Ok env) \<and>
    verify_attestation tail_hash sample_ed25519 env (fingerprint tail_hash (replicate 32 7))
      (fingerprint tail_hash [1]) (fingerprint tail_hash [2]) = Some (Ok ())"
  using signed_attestation_verifies [OF tail_hash_width sample_ed25519_laws
      sample_attestation_new [of "[97]" Confirmed], of 7]
  by (simp add: sample_ed25519_def) blast

text \<open>
  C19: A verified attestation is pinned and bound: the embedded key has the expected identifier and
  its signature covers the attestation digest. Two verified attestations with the same digest under
  the same pinned identifier carry the same key and agree on certificate, scope, reviewer and
  decision, provided that SHA-256 does not collide on the two keys and the two materials.
\<close>

theorem verified_attestations_agree:
  assumes u: "verify_attestation sha256 E x kid c s = Some (Ok ())"
    and v: "verify_attestation sha256 E y kid c' s' = Some (Ok ())"
    and same: "attestation_digest (attestation x) = attestation_digest (attestation y)"
    and inj: "inj_on sha256 {prefixed (attestation_fields (attestation x)),
      prefixed (attestation_fields (attestation y)), hex_pairs (public_key_hex x), hex_pairs (public_key_hex y)}"
  shows "c = c' \<and> s = s' \<and> certificate_digest (attestation x) = c \<and> scope_digest (attestation x) = s \<and>
    reviewer_id (attestation x) = reviewer_id (attestation y) \<and>
    decision (attestation x) = decision (attestation y) \<and>
    (\<exists>pk. hex_decode 32 (public_key_hex x) = Some pk \<and> hex_decode 32 (public_key_hex y) = Some pk \<and>
       fingerprint sha256 pk = kid \<and>
       (\<forall>z\<in>{x, y}. \<exists>sg. hex_decode 64 (signature_hex z) = Some sg \<and>
          ed_verify E pk (prefixed [SIGNATURE_SCHEMA, attestation_digest (attestation x), kid]) sg))"
proof -
  have bx: "verify_binding sha256 (attestation x) c s = Some (Ok ())"
    and by': "verify_binding sha256 (attestation y) c' s' = Some (Ok ())"
    using u v by (simp_all add: verify_attestation_iff)
  obtain pk sg where x: "hex_decode 32 (public_key_hex x) = Some pk" "fingerprint sha256 pk = kid"
      "hex_decode 64 (signature_hex x) = Some sg"
      "ed_verify E pk (prefixed [SIGNATURE_SCHEMA, attestation_digest (attestation x), kid]) sg"
    using u by (auto simp: verify_attestation_iff)
  obtain pk' sg' where y: "hex_decode 32 (public_key_hex y) = Some pk'" "fingerprint sha256 pk' = kid"
      "hex_decode 64 (signature_hex y) = Some sg'"
      "ed_verify E pk' (prefixed [SIGNATURE_SCHEMA, attestation_digest (attestation y), kid]) sg'"
    using v by (auto simp: verify_attestation_iff)
  have p: "pk = hex_pairs (public_key_hex x)" "pk' = hex_pairs (public_key_hex y)"
    using x(1) y(1) by (simp_all add: hex_decode_def split: if_splits)
  have "sha256 pk = sha256 pk'" using x(2) y(2) fingerprint_eq by metis
  then have "pk = pk'" by (rule inj_onD [OF inj]) (simp_all add: p)
  have "sha256 (prefixed (attestation_fields (attestation x))) = sha256 (prefixed (attestation_fields (attestation y)))"
    using bx by' same by (auto simp: verify_binding_iff fingerprint_eq)
  then have "prefixed (attestation_fields (attestation x)) = prefixed (attestation_fields (attestation y))"
    by (rule inj_onD [OF inj]) simp_all
  then have "attestation_fields (attestation x) = attestation_fields (attestation y)"
    using bx by' by (intro prefixed_inject) (simp_all add: verify_binding_iff)
  from attestation_fields_inject [OF this] show ?thesis
    using bx by' x y same \<open>pk = pk'\<close> by (auto simp: verify_binding_iff)
qed

theorem verified_attestations_agree_witness:
  "\<exists>pk. hex_decode 32 (hex_encode (replicate 32 (7 :: u8))) = Some pk \<and>
    fingerprint tail_hash pk = fingerprint tail_hash (replicate 32 7)"
proof -
  let ?a = "sample_attestation [97] Confirmed"
  let ?e = "signed_envelope tail_hash sample_ed25519 ?a 7"
  let ?kid = "fingerprint tail_hash (replicate 32 7)"
  have new: "attestation_new tail_hash (fingerprint tail_hash [1]) [97] Confirmed (fingerprint tail_hash [2]) =
      Some (Ok ?a)"
    by (rule sample_attestation_new) simp_all
  have v: "verify_attestation tail_hash sample_ed25519 ?e ?kid (fingerprint tail_hash [1])
      (fingerprint tail_hash [2]) = Some (Ok ())"
    using verify_envelope(1) [OF tail_hash_width sample_ed25519_laws new, of 7]
    by (simp add: sample_ed25519_def)
  have e: "attestation ?e = ?a" "public_key_hex ?e = hex_encode (replicate 32 7)"
    by (simp_all add: signed_envelope_def sample_ed25519_def Let_def)
  have "hd (replicate 31 48 @ [50]) \<noteq> hd (replicate 32 (7 :: u8))" by simp
  then have different: "replicate 31 48 @ [50] \<noteq> replicate 32 (7 :: u8)" by metis
  have "tail_hash (replicate 32 7) = replicate 32 7" by (simp add: tail_hash_def)
  then have "tail_hash (prefixed (attestation_fields ?a)) \<noteq> tail_hash (replicate 32 7)"
    unfolding sample_attestation_hash using different by metis
  then have "inj_on tail_hash {prefixed (attestation_fields (attestation ?e)),
      prefixed (attestation_fields (attestation ?e)), hex_pairs (public_key_hex ?e), hex_pairs (public_key_hex ?e)}"
    unfolding e hex_pairs_encode by (simp add: inj_on_def)
  from verified_attestations_agree [OF v v refl this] show ?thesis using e by auto
qed

end
