(* ===== verification/Epoch.thy ===== *)
theory Epoch
  imports Prelude
begin

text \<open>
  \<open>epoch.rs\<close>: the validator set of an epoch and its transitions. The power of a set is a
  field of its own, each signer counts one, and the threshold wraps at 64 bits. The certificate
  is accepted unread. The lemmas characterise the accepted transitions, and the quorum rule of
  the library is interpreted on the sets whose power is the number of their validators.
\<close>

section \<open>State and operations\<close>

record validator_set =
  epoch_id :: u64
  validators :: "(u32, bytes) fmap"
  total_power :: u64

datatype epoch_error =
    UNAUTHORIZED_SIGNER_IN_QUORUM
  | MISSING_QUORUM_CERTIFICATE
  | INVALID_EPOCH_TRANSITION

definition quorum_threshold :: "validator_set \<Rightarrow> u64" where
  "quorum_threshold vs = total_power vs * 2 div 3 + 1"

text \<open>The loop over the signers.\<close>

fun count_power :: "validator_set \<Rightarrow> u64 \<Rightarrow> u32 list \<Rightarrow> (epoch_error, u64) result" where
  "count_power vs voting_power [] = Ok voting_power"
| "count_power vs voting_power (signer # signers) =
     (if \<not> hm_contains (validators vs) signer then Err UNAUTHORIZED_SIGNER_IN_QUORUM
      else count_power vs (voting_power + 1) signers)"

definition verify_quorum :: "validator_set \<Rightarrow> u32 fset \<Rightarrow> bytes \<Rightarrow> (epoch_error, unit) result" where
  "verify_quorum vs signers qc =
     (case count_power vs 0 (sorted_list_of_fset signers) of
        Err e \<Rightarrow> Err e
      | Ok voting_power \<Rightarrow>
          (if voting_power < quorum_threshold vs then Err MISSING_QUORUM_CERTIFICATE else Ok ()))"

record epoch_transition =
  current_epoch :: u64
  next_validator_set :: validator_set
  transition_qc :: bytes
  signers :: "u32 fset"

record epoch_manager =
  current_state :: validator_set

definition apply_transition ::
  "epoch_manager \<Rightarrow> epoch_transition \<Rightarrow> epoch_manager \<times> (epoch_error, unit) result" where
  "apply_transition m t =
     (if current_epoch t \<noteq> epoch_id (current_state m) then (m, Err INVALID_EPOCH_TRANSITION)
      else case verify_quorum (current_state m) (signers t) (transition_qc t) of
        Err e \<Rightarrow> (m, Err e)
      | Ok _ \<Rightarrow> (m\<lparr>current_state := next_validator_set t\<rparr>, Ok ()))"

section \<open>Accepted transitions\<close>

lemma count_power_iff:
  "count_power vs p ss = Ok q \<longleftrightarrow>
     set ss \<subseteq> fset (fmdom (validators vs)) \<and> q = p + word_of_nat (length ss)"
  by (induction ss arbitrary: p) (auto simp: hm_contains_def fmlookup_dom_iff add.assoc add.commute)

lemma count_power_error: "count_power vs p ss = Err e \<Longrightarrow> e = UNAUTHORIZED_SIGNER_IN_QUORUM"
  by (induction ss arbitrary: p) (auto split: if_splits)

lemma verify_quorum_iff:
  "verify_quorum vs ss qc = Ok () \<longleftrightarrow>
     ss |\<subseteq>| fmdom (validators vs) \<and> unat (quorum_threshold vs) \<le> fcard ss"
  by (auto simp: verify_quorum_def count_power_iff word_less_nat_alt
      unat_fcard_u32 less_eq_fset.rep_eq split: sum.splits)
    (metis Inl_not_Inr count_power_iff sorted_list_of_fset_simps(1))+

lemma apply_transition_iff:
  "apply_transition m t = (m', Ok ()) \<longleftrightarrow> current_epoch t = epoch_id (current_state m) \<and>
     signers t |\<subseteq>| fmdom (validators (current_state m)) \<and>
     unat (quorum_threshold (current_state m)) \<le> fcard (signers t) \<and>
     m' = \<lparr>current_state = next_validator_set t\<rparr>"
  using verify_quorum_iff [of "current_state m" "signers t" "transition_qc t"]
  by (auto simp: apply_transition_def split: sum.splits)

lemma apply_transition_error: "apply_transition m t = (m', Err e) \<Longrightarrow> m' = m"
  by (auto simp: apply_transition_def split: sum.splits if_splits)

section \<open>The quorum rule\<close>

text \<open>A set whose power is at least the number of its validators, and small enough to be doubled.
  Nothing in the code keeps the two numbers together.\<close>

definition covers_votes :: "validator_set \<Rightarrow> bool" where
  "covers_votes vs \<longleftrightarrow> fcard (fmdom (validators vs)) \<le> unat (total_power vs) \<and> unat (total_power vs) < 2 ^ 63"

lemma quorum_threshold_value:
  assumes "unat (total_power vs) < 2 ^ 63"
  shows "unat (quorum_threshold vs) = unat (total_power vs) * 2 div 3 + 1"
proof -
  have "unat (total_power vs * 2) = unat (total_power vs) * 2" using assms by (simp add: unat_word_ariths)
  then have "unat (total_power vs * 2 div 3) = unat (total_power vs) * 2 div 3" by (simp add: unat_div)
  moreover have "unat (total_power vs) * 2 div 3 + 1 < 2 ^ 64" using assms by simp
  ultimately show ?thesis by (simp add: quorum_threshold_def unat_word_ariths)
qed

interpretation epoch_quorum: quorum_rule covers_votes
  "\<lambda>vs. fcard (fmdom (validators vs))" "\<lambda>vs. fcard (fmdom (validators vs)) div 3"
  "\<lambda>vs. unat (quorum_threshold vs)"
proof unfold_locales
  fix vs
  assume c: "covers_votes vs"
  have "fcard (fmdom (validators vs)) * 2 div 3 \<le> unat (total_power vs) * 2 div 3"
    using c by (intro div_le_mono) (simp add: covers_votes_def)
  then show "fcard (fmdom (validators vs)) + fcard (fmdom (validators vs)) div 3 < 2 * unat (quorum_threshold vs)"
    using c by (simp add: covers_votes_def quorum_threshold_value)
qed

text \<open>Two quorums of one validator set, with its threshold as it is, and with power for every vote.\<close>

lemma quorums_share_signers:
  assumes "verify_quorum vs S qc = Ok ()" "verify_quorum vs T qc' = Ok ()"
  shows "2 * unat (quorum_threshold vs) \<le> fcard (fmdom (validators vs)) + fcard (S |\<inter>| T)"
proof -
  have sub: "fset S \<subseteq> fset (fmdom (validators vs))" "fset T \<subseteq> fset (fmdom (validators vs))"
    and q: "unat (quorum_threshold vs) \<le> card (fset S)" "unat (quorum_threshold vs) \<le> card (fset T)"
    using assms by (simp_all add: verify_quorum_iff less_eq_fset.rep_eq fcard.rep_eq)
  have "card (fset S \<union> fset T) \<le> card (fset (fmdom (validators vs)))" by (rule card_mono) (use sub in auto)
  moreover have "card (fset S \<union> fset T) + card (fset S \<inter> fset T) = card (fset S) + card (fset T)"
    by (rule card_Un_Int [symmetric]) simp_all
  ultimately show ?thesis using q by (simp add: fcard.rep_eq)
qed

lemma epoch_quorums_overlap:
  assumes "covers_votes vs" "verify_quorum vs S qc = Ok ()" "verify_quorum vs T qc' = Ok ()"
  shows "fcard (fmdom (validators vs)) < 3 * fcard (S |\<inter>| T)"
proof -
  have "fcard (fmdom (validators vs)) div 3 < fcard (S |\<inter>| T)"
    using epoch_quorum.intersection [OF assms(1), of "fset (fmdom (validators vs))" "fset S" "fset T"] assms
    by (simp add: verify_quorum_iff fcard.rep_eq less_eq_fset.rep_eq)
  then show ?thesis by presburger
qed

end
