(* ===== verification/Vote_Tracker.thy ===== *)
theory Vote_Tracker
  imports Prelude
begin

text \<open>
  \<open>quorum_tracker.rs\<close>, \<open>pbft_state.rs\<close> and \<open>consensus_engine.rs\<close>: the vote tracker that
  signals the vote which completes a quorum, the locks of a node, and the engine whose direct path
  is disabled. The lemmas describe a run of votes and the digests that locks keep together.
\<close>

section \<open>Views\<close>

datatype view = View (view_number: u64)

text \<open>The derived order of the Rust type.\<close>

instantiation view :: linorder
begin

definition less_eq_view :: "view \<Rightarrow> view \<Rightarrow> bool" where
  "less_eq_view v w \<longleftrightarrow> view_number v \<le> view_number w"

definition less_view :: "view \<Rightarrow> view \<Rightarrow> bool" where
  "less_view v w \<longleftrightarrow> view_number v < view_number w"

instance
  by standard (auto simp: less_eq_view_def less_view_def view.expand)

end

type_synonym node_id = u32
type_synonym vote_key = "view \<times> u64 \<times> bytes"

section \<open>The vote tracker\<close>

record quorum_tracker =
  tracker_prepares :: "(vote_key, node_id fset) fmap"
  tracker_commits :: "(vote_key, node_id fset) fmap"

definition tracker_new :: quorum_tracker where
  "tracker_new = \<lparr>tracker_prepares = fmempty, tracker_commits = fmempty\<rparr>"

definition has_quorum :: "usize \<Rightarrow> usize \<Rightarrow> bool" where
  "has_quorum voters_count f \<longleftrightarrow> 2 * f + 1 \<le> voters_count"

definition voters_of :: "(vote_key, node_id fset) fmap \<Rightarrow> vote_key \<Rightarrow> node_id fset" where
  "voters_of m k = (case fmlookup m k of None \<Rightarrow> {||} | Some s \<Rightarrow> s)"

text \<open>The body that both operations share, on the map they work on.\<close>

definition cast_vote :: "(vote_key, node_id fset) fmap \<Rightarrow> vote_key \<Rightarrow> node_id \<Rightarrow> usize \<Rightarrow>
    (vote_key, node_id fset) fmap \<times> bool" where
  "cast_vote m k sender f =
     (let voters = voters_of m k;
          already_had_quorum = has_quorum (word_of_nat (fcard voters)) f;
          voters = finsert sender voters;
          now_has_quorum = has_quorum (word_of_nat (fcard voters)) f
      in (fmupd k voters m, \<not> already_had_quorum \<and> now_has_quorum))"

definition add_prepare :: "quorum_tracker \<Rightarrow> view \<Rightarrow> u64 \<Rightarrow> bytes \<Rightarrow> node_id \<Rightarrow> usize \<Rightarrow>
    quorum_tracker \<times> bool" where
  "add_prepare t v n d sender f =
     (let (m, crossed) = cast_vote (tracker_prepares t) (v, n, d) sender f
      in (t\<lparr>tracker_prepares := m\<rparr>, crossed))"

definition add_commit :: "quorum_tracker \<Rightarrow> view \<Rightarrow> u64 \<Rightarrow> bytes \<Rightarrow> node_id \<Rightarrow> usize \<Rightarrow>
    quorum_tracker \<times> bool" where
  "add_commit t v n d sender f =
     (let (m, crossed) = cast_vote (tracker_commits t) (v, n, d) sender f
      in (t\<lparr>tracker_commits := m\<rparr>, crossed))"

section \<open>The locks of a node\<close>

record node_state =
  prepared :: "(u64 \<times> u64, bytes) fmap"
  committed :: "(u64 \<times> u64, bytes) fmap"
  locked_digests :: "(u64, bytes) fmap"

datatype lock_error = SAFETY_VIOLATION

definition node_state_new :: node_state where
  "node_state_new = \<lparr>prepared = fmempty, committed = fmempty, locked_digests = fmempty\<rparr>"

definition mark_prepared :: "node_state \<Rightarrow> u64 \<Rightarrow> u64 \<Rightarrow> bytes \<Rightarrow> node_state \<times> (lock_error, unit) result" where
  "mark_prepared s v n d =
     (if (case fmlookup (locked_digests s) n of None \<Rightarrow> False | Some locked \<Rightarrow> locked \<noteq> d)
      then (s, Err SAFETY_VIOLATION)
      else (s\<lparr>prepared := fmupd (v, n) d (prepared s),
              locked_digests := fmupd n d (locked_digests s)\<rparr>, Ok ()))"

definition mark_committed :: "node_state \<Rightarrow> u64 \<Rightarrow> u64 \<Rightarrow> bytes \<Rightarrow> node_state" where
  "mark_committed s v n d = s\<lparr>committed := fmupd (v, n) d (committed s)\<rparr>"

definition inherit_lock :: "node_state \<Rightarrow> u64 \<Rightarrow> bytes \<Rightarrow> node_state" where
  "inherit_lock s n d = s\<lparr>locked_digests := fmupd n d (locked_digests s)\<rparr>"

section \<open>The consensus engine\<close>

record consensus_engine =
  engine_node_id :: u32
  engine_state :: node_state
  engine_view :: view

definition consensus_engine_new :: "u32 \<Rightarrow> consensus_engine" where
  "consensus_engine_new node_id =
     \<lparr>engine_node_id = node_id, engine_state = node_state_new, engine_view = View 0\<rparr>"

datatype engine_error = DIRECT_PROCESSING_DISABLED

definition process_consensus_payload :: "consensus_engine \<Rightarrow> view \<Rightarrow> u64 \<Rightarrow> bytes \<Rightarrow>
    consensus_engine \<times> (engine_error, unit) result" where
  "process_consensus_payload e v n d = (e, Err DIRECT_PROCESSING_DISABLED)"

section \<open>Runs of votes\<close>

datatype ballot = Prepare_Vote | Commit_Vote

type_synonym vote = "ballot \<times> vote_key \<times> node_id"

fun cast_ballot :: "usize \<Rightarrow> quorum_tracker \<Rightarrow> vote \<Rightarrow> quorum_tracker \<times> bool" where
  "cast_ballot f t (Prepare_Vote, (v, n, d), sender) = add_prepare t v n d sender f"
| "cast_ballot f t (Commit_Vote, (v, n, d), sender) = add_commit t v n d sender f"

text \<open>The votes of a run in order, each with the signal it gives.\<close>

fun tracker_run :: "usize \<Rightarrow> quorum_tracker \<Rightarrow> vote list \<Rightarrow> (vote \<times> bool) list" where
  "tracker_run f t [] = []"
| "tracker_run f t (vote # votes) =
     (let (t, crossed) = cast_ballot f t vote in (vote, crossed) # tracker_run f t votes)"

definition signals_for :: "ballot \<Rightarrow> vote_key \<Rightarrow> (vote \<times> bool) list \<Rightarrow> nat" where
  "signals_for b k signals = length (filter (\<lambda>((b', k', _), crossed). b' = b \<and> k' = k \<and> crossed) signals)"

definition voters_in :: "ballot \<Rightarrow> vote_key \<Rightarrow> vote list \<Rightarrow> node_id fset" where
  "voters_in b k votes =
     fset_of_list (map (snd \<circ> snd) (filter (\<lambda>(b', k', _). b' = b \<and> k' = k) votes))"

definition voters_at :: "quorum_tracker \<Rightarrow> ballot \<Rightarrow> vote_key \<Rightarrow> node_id fset" where
  "voters_at t b k =
     voters_of (case b of Prepare_Vote \<Rightarrow> tracker_prepares t | Commit_Vote \<Rightarrow> tracker_commits t) k"

text \<open>A threshold that does not wrap.\<close>

lemma has_quorum_iff:
  assumes "2 * unat f + 1 < 2 ^ 64"
  shows "has_quorum (word_of_nat (fcard (S :: node_id fset))) f \<longleftrightarrow> 2 * unat f + 1 \<le> fcard S"
proof -
  have "unat (2 * f + 1) = 2 * unat f + 1" using assms by (simp add: unat_word_ariths)
  then show ?thesis by (simp add: has_quorum_def word_le_nat_alt unat_fcard_u32)
qed

lemma cast_ballot_voters:
  "voters_at (fst (cast_ballot f t (b, k, sender))) b' k' =
     (if b' = b \<and> k' = k then finsert sender (voters_at t b k) else voters_at t b' k')"
  by (cases b; cases b'; cases k)
    (simp_all add: add_prepare_def add_commit_def cast_vote_def voters_of_def voters_at_def Let_def)

lemma cast_ballot_signal:
  assumes "2 * unat f + 1 < 2 ^ 64"
  shows "snd (cast_ballot f t (b, k, sender)) \<longleftrightarrow>
    fcard (voters_at t b k) < 2 * unat f + 1 \<and>
    2 * unat f + 1 \<le> fcard (finsert sender (voters_at t b k))"
  by (cases b; cases k)
    (simp_all add: add_prepare_def add_commit_def cast_vote_def voters_at_def Let_def
      has_quorum_iff [OF assms] not_le)

lemma tracker_run_signals:
  assumes "2 * unat f + 1 < 2 ^ 64"
  shows "signals_for b k (tracker_run f t votes) =
    (if fcard (voters_at t b k) < 2 * unat f + 1 \<and>
        2 * unat f + 1 \<le> fcard (voters_at t b k |\<union>| voters_in b k votes) then 1 else 0)"
proof (induction votes arbitrary: t)
  case Nil
  then show ?case by (simp add: signals_for_def voters_in_def)
next
  case (Cons vote votes)
  obtain b' k' sender where vote: "vote = (b', k', sender)" by (cases vote) auto
  let ?t = "fst (cast_ballot f t vote)"
  let ?S = "voters_at t b k"
  have run: "signals_for b k (tracker_run f t (vote # votes)) =
      (if b' = b \<and> k' = k \<and> snd (cast_ballot f t vote) then 1 else 0) +
      signals_for b k (tracker_run f ?t votes)"
    by (auto simp: vote signals_for_def Let_def split: prod.splits)
  show ?case
  proof (cases "b' = b \<and> k' = k")
    case True
    have u: "voters_at ?t b k |\<union>| voters_in b k votes = ?S |\<union>| voters_in b k (vote # votes)"
      using True by (auto simp: cast_ballot_voters voters_in_def vote)
    have "fcard (finsert sender ?S) \<le> fcard (?S |\<union>| voters_in b k (vote # votes))"
      unfolding u [symmetric] using True by (intro fcard_mono) (auto simp: cast_ballot_voters vote)
    moreover have "fcard ?S \<le> fcard (finsert sender ?S)" by (rule fcard_mono) auto
    ultimately show ?thesis
      unfolding run Cons.IH u using True
      by (auto simp: vote cast_ballot_signal [OF assms] cast_ballot_voters)
  next
    case False
    then show ?thesis
      unfolding run Cons.IH by (auto simp: cast_ballot_voters voters_in_def vote)
  qed
qed

section \<open>Runs of lock operations\<close>

datatype lock_op = Mark_Prepared u64 u64 bytes | Mark_Committed u64 u64 bytes | Inherit_Lock u64 bytes

fun lock_step :: "node_state \<Rightarrow> lock_op \<Rightarrow> node_state" where
  "lock_step s (Mark_Prepared v n d) = fst (mark_prepared s v n d)"
| "lock_step s (Mark_Committed v n d) = mark_committed s v n d"
| "lock_step s (Inherit_Lock n d) = inherit_lock s n d"

text \<open>Every prepared digest is the one its sequence is locked on.\<close>

definition locks_agree :: "node_state \<Rightarrow> bool" where
  "locks_agree s \<longleftrightarrow>
     (\<forall>v n d. fmlookup (prepared s) (v, n) = Some d \<longrightarrow> fmlookup (locked_digests s) n = Some d)"

text \<open>A lock is inherited only for a sequence that nothing was prepared for, or with its digest.\<close>

definition respects_lock :: "node_state \<Rightarrow> lock_op \<Rightarrow> bool" where
  "respects_lock s opn \<longleftrightarrow>
     (\<forall>n d e v. opn = Inherit_Lock n d \<longrightarrow> fmlookup (prepared s) (v, n) = Some e \<longrightarrow> e = d)"

lemma lock_step_agree: "locks_agree s \<Longrightarrow> respects_lock s opn \<Longrightarrow> locks_agree (lock_step s opn)"
  by (cases opn)
    (auto simp: locks_agree_def respects_lock_def mark_prepared_def mark_committed_def inherit_lock_def
      split: option.splits)

inductive lock_run :: "node_state \<Rightarrow> lock_op list \<Rightarrow> node_state \<Rightarrow> bool" where
  start: "lock_run s [] s"
| step: "lock_run s ops s' \<Longrightarrow> respects_lock s' opn \<Longrightarrow> lock_run s (ops @ [opn]) (lock_step s' opn)"

inductive_cases lock_run_snocE: "lock_run s (ops @ [opn]) s'"

text \<open>The runs are the folds whose inherited locks all respect what was prepared.\<close>

lemma lock_run_fold: "lock_run s ops s' \<Longrightarrow> s' = fold (\<lambda>opn s. lock_step s opn) ops s"
  by (induction rule: lock_run.induct) auto

lemma lock_run_snoc_iff:
  "lock_run s (ops @ [opn]) s' \<longleftrightarrow> (\<exists>t. lock_run s ops t \<and> respects_lock t opn \<and> s' = lock_step t opn)"
  by (auto elim: lock_run_snocE intro: lock_run.step)

lemma lock_run_agree: "lock_run s ops s' \<Longrightarrow> locks_agree s \<Longrightarrow> locks_agree s'"
  by (induction rule: lock_run.induct) (auto intro: lock_step_agree)

lemma node_state_new_agree: "locks_agree node_state_new"
  by (simp add: locks_agree_def node_state_new_def)

end
