(* ===== verification/Control_Guarantees.thy ===== *)
theory Control_Guarantees
  imports Epoch Vote_Tracker
begin

text \<open>
  The properties of the epoch manager, the vote tracker and the locks of a node.
\<close>

section \<open>Epochs\<close>

text \<open>
  C37: Two transitions that a manager accepts in the same state share signers, all of them validators
  of the current set: at least twice the quorum threshold less the number of validators. When the
  power of the set is at least the number of its validators and is below \<open>2 ^ 63\<close>, these are more
  than a third of the validators. The code checks neither bound, and without the first the share can
  be empty (\<open>epoch_power_unchecked\<close>).
\<close>

theorem epoch_transitions_overlap:
  assumes "apply_transition m t = (m1, Ok ())" and "apply_transition m u = (m2, Ok ())"
  shows "signers t |\<inter>| signers u |\<subseteq>| fmdom (validators (current_state m)) \<and>
    2 * unat (quorum_threshold (current_state m)) \<le>
      fcard (fmdom (validators (current_state m))) + fcard (signers t |\<inter>| signers u) \<and>
    (fcard (fmdom (validators (current_state m))) \<le> unat (total_power (current_state m)) \<and>
       unat (total_power (current_state m)) < 2 ^ 63 \<longrightarrow>
     fcard (fmdom (validators (current_state m))) < 3 * fcard (signers t |\<inter>| signers u))"
proof -
  have q: "verify_quorum (current_state m) (signers t) [] = Ok ()"
    "verify_quorum (current_state m) (signers u) [] = Ok ()"
    using assms by (simp_all add: apply_transition_iff verify_quorum_iff)
  have "signers t |\<inter>| signers u |\<subseteq>| fmdom (validators (current_state m))"
    using assms by (auto simp: apply_transition_iff)
  then show ?thesis
    using quorums_share_signers [OF q] epoch_quorums_overlap [OF _ q] by (simp add: covers_votes_def)
qed

definition sample_set :: "u64 \<Rightarrow> validator_set" where
  "sample_set e = \<lparr>epoch_id = e,
     validators = fmap_of_list [(0, [0]), (1, [1]), (2, [2]), (3, [3])], total_power = 4\<rparr>"

definition sample_transition :: "u32 fset \<Rightarrow> epoch_transition" where
  "sample_transition S = \<lparr>current_epoch = 0, next_validator_set = sample_set 0, transition_qc = [],
     signers = S\<rparr>"

lemma sample_set_facts:
  "fmdom (validators (sample_set e)) = {|0, 1, 2, 3|}" "unat (total_power (sample_set e)) = 4"
  "quorum_threshold (sample_set e) = 3"
  by (auto simp: sample_set_def quorum_threshold_def fcard.rep_eq)

lemma sample_transition_applies:
  assumes "S |\<subseteq>| {|0, 1, 2, 3|}" "3 \<le> fcard S"
  shows "apply_transition \<lparr>current_state = sample_set 0\<rparr> (sample_transition S) =
    (\<lparr>current_state = sample_set 0\<rparr>, Ok ())"
  using assms by (simp add: apply_transition_iff sample_set_facts sample_transition_def)
    (simp add: sample_set_def)

theorem epoch_transitions_overlap_witness:
  "\<exists>m t u m1 m2. apply_transition m t = (m1, Ok ()) \<and> apply_transition m u = (m2, Ok ()) \<and>
    signers t \<noteq> signers u \<and> fcard (fmdom (validators (current_state m))) = 4 \<and>
    4 < 3 * fcard (signers t |\<inter>| signers u)"
proof -
  let ?m = "\<lparr>current_state = sample_set 0\<rparr>"
  let ?t = "sample_transition {|0, 1, 2|}" and ?u = "sample_transition {|1, 2, 3|}"
  have a: "apply_transition ?m ?t = (?m, Ok ())" "apply_transition ?m ?u = (?m, Ok ())"
    by (intro sample_transition_applies; simp add: fcard.rep_eq)+
  have "(0 :: u32) |\<notin>| {|1, 2, 3|}" by simp
  then have "{|0, 1, 2|} \<noteq> {|1, 2, 3 :: u32|}" by blast
  then have "signers ?t \<noteq> signers ?u" by (simp add: sample_transition_def)
  moreover have n: "fcard (fmdom (validators (current_state ?m))) = 4"
    by (simp add: sample_set_facts fcard.rep_eq)
  moreover have "4 < 3 * fcard (signers ?t |\<inter>| signers ?u)"
    using epoch_transitions_overlap [OF a] unfolding n by (simp add: sample_set_facts)
  ultimately show ?thesis using a by blast
qed

text \<open>A set without power accepts one signer, so that two transitions need not share any.\<close>

lemma epoch_power_unchecked:
  "\<exists>m t u m1 m2. apply_transition m t = (m1, Ok ()) \<and> apply_transition m u = (m2, Ok ()) \<and>
    signers t |\<inter>| signers u = {||}"
proof -
  let ?m = "\<lparr>current_state = (sample_set 0)\<lparr>total_power := 0\<rparr>\<rparr>"
  have "apply_transition ?m (sample_transition {|i|}) = (\<lparr>current_state = sample_set 0\<rparr>, Ok ())"
    if "i |\<in>| {|0, 1, 2, 3|}" for i
    using that by (auto simp: apply_transition_iff sample_transition_def sample_set_def quorum_threshold_def
        fcard.rep_eq)
  from this [of 0] this [of 1]
  have "apply_transition ?m (sample_transition {|0|}) = (\<lparr>current_state = sample_set 0\<rparr>, Ok ())"
    "apply_transition ?m (sample_transition {|1|}) = (\<lparr>current_state = sample_set 0\<rparr>, Ok ())" by simp_all
  moreover have "signers (sample_transition {|0|}) |\<inter>| signers (sample_transition {|1|}) = {||}"
    by (simp add: sample_transition_def)
  ultimately show ?thesis by blast
qed

text \<open>
  An applied transition can be applied again, as often as one likes: the epoch identifier of the
  next set is not compared with the current one, so that a set which keeps the identifier and the
  signers leaves the manager open to the same transition.
\<close>

lemma epoch_transition_replay:
  "\<exists>m t m'. apply_transition m t = (m', Ok ()) \<and> m' \<noteq> m \<and> apply_transition m' t = (m', Ok ())"
proof (intro exI conjI)
  let ?m = "\<lparr>current_state = (sample_set 0)\<lparr>total_power := 3\<rparr>\<rparr>"
  let ?t = "sample_transition {|0, 1, 2|}"
  have q: "quorum_threshold ((sample_set 0)\<lparr>total_power := 3\<rparr>) = 3" by (simp add: quorum_threshold_def)
  show "apply_transition ?m ?t = (\<lparr>current_state = sample_set 0\<rparr>, Ok ())"
    by (simp add: apply_transition_iff q sample_transition_def fcard.rep_eq) (simp add: sample_set_def)
  show "\<lparr>current_state = sample_set 0\<rparr> \<noteq> ?m" by (simp add: sample_set_def)
  show "apply_transition \<lparr>current_state = sample_set 0\<rparr> ?t = (\<lparr>current_state = sample_set 0\<rparr>, Ok ())"
    by (simp add: apply_transition_iff sample_set_facts sample_transition_def fcard.rep_eq) (simp add: sample_set_def)
qed

section \<open>The vote tracker\<close>

text \<open>
  In any interleaving of prepare and commit votes on a new tracker, the votes of one kind for one
  view, sequence and digest signal a quorum exactly once if they come from at least \<open>2 * f + 1\<close>
  distinct senders, and never otherwise, however often senders repeat themselves.
\<close>

theorem quorum_signalled_once:
  assumes "2 * unat f + 1 < 2 ^ 64"
  shows "signals_for b k (tracker_run f tracker_new votes) =
    (if 2 * unat f + 1 \<le> fcard (voters_in b k votes) then 1 else 0)"
  using tracker_run_signals [OF assms, of b k tracker_new votes]
  by (cases b) (simp_all add: voters_at_def tracker_new_def voters_of_def fcard.rep_eq)

theorem quorum_signalled_once_witness:
  "signals_for Prepare_Vote (View 0, 1, [7])
     (tracker_run 1 tracker_new (map (\<lambda>i. (Prepare_Vote, (View 0, 1, [7]), i)) [0, 0, 1, 2, 1, 3])) = 1"
  by (subst quorum_signalled_once) (simp_all add: voters_in_def fcard.rep_eq card_insert_if)

section \<open>Locks\<close>

text \<open>
  C38: In every run in which a lock is inherited only where it does not contradict a prepared digest,
  the digests prepared for one sequence in any two views are the same, and the sequence is locked on
  it. A conflicting preparation is refused with SAFETY_VIOLATION and changes nothing.
\<close>

theorem prepared_digests_agree:
  assumes "lock_run node_state_new ops s"
    and "fmlookup (prepared s) (v, n) = Some d"
  shows "fmlookup (locked_digests s) n = Some d \<and>
    (\<forall>w e. fmlookup (prepared s) (w, n) = Some e \<longrightarrow> e = d) \<and>
    (\<forall>w e. e \<noteq> d \<longrightarrow> mark_prepared s w n e = (s, Err SAFETY_VIOLATION))"
proof -
  have "locks_agree s" by (rule lock_run_agree [OF assms(1) node_state_new_agree])
  then have "fmlookup (prepared s) (w, n) = Some e \<Longrightarrow> fmlookup (locked_digests s) n = Some e" for w e
    by (simp add: locks_agree_def)
  from this [OF assms(2)] this show ?thesis by (auto simp: mark_prepared_def)
qed

theorem prepared_digests_agree_witness:
  "mark_prepared (lock_step node_state_new (Mark_Prepared 0 1 [7])) 1 1 [8] =
     (lock_step node_state_new (Mark_Prepared 0 1 [7]), Err SAFETY_VIOLATION)"
proof -
  have "lock_run node_state_new ([] @ [Mark_Prepared 0 1 [7]])
      (lock_step node_state_new (Mark_Prepared 0 1 [7]))"
    by (rule lock_run.step [OF lock_run.start]) (simp add: respects_lock_def)
  from prepared_digests_agree [OF this, of 0 1 "[7]"] show ?thesis
    by (simp add: mark_prepared_def node_state_new_def)
qed

end
