(* ===== verification/Joint_Feldman.thy ===== *)
theory Joint_Feldman
  imports Dkg
begin

text \<open>
  The modules around Feldman sharing that the node does not call: \<open>pedersen_vss.rs\<close> (the share
  verifier), \<open>feldman_dkg.rs\<close> (a joint generation in one process), \<open>Dkg/feldman.rs\<close> (dealers,
  complaints and disqualification) and \<open>Dkg/pedersen_vss.rs\<close> (Pedersen commitments). The random
  coefficients are parameters. The lemmas give the final shares and keys as values of the sum of
  the dealers' polynomials.
\<close>

section \<open>The share verifier\<close>

definition evaluation_point :: "('s, 'g1, 'g2, 'gt) bls \<Rightarrow> u32 \<Rightarrow> 's" where
  "evaluation_point C node_id = scalar_from_u64 C (ucast (node_id + 1))"

definition verify_feldman_share ::
  "('s::field, 'g1, 'g2::ab_group_add, 'gt) bls \<Rightarrow> u32 \<Rightarrow> 's \<Rightarrow> 'g2 list \<Rightarrow> bool" where
  "verify_feldman_share C participant_id secret_share public_commitments =
     (let expected_pk = commit_loop C public_commitments (evaluation_point C participant_id) 0 1;
          actual_pk = g2_mul C (g2_generator C) secret_share
      in actual_pk = expected_pk)"

section \<open>Joint generation in one process\<close>

definition random_poly :: "(nat \<Rightarrow> 's) \<Rightarrow> u32 \<Rightarrow> 's list" where
  "random_poly rnd t = map rnd [0..<unat t]"

text \<open>\<open>1..=n\<close>.\<close>

definition parties :: "u32 \<Rightarrow> u32 list" where
  "parties n = map word_of_nat [1..<Suc (unat n)]"

definition feldman_commitments :: "('s, 'g1, 'g2, 'gt) bls \<Rightarrow> 's list \<Rightarrow> 'g2 list" where
  "feldman_commitments C coeffs = map (g2_mul C (g2_generator C)) coeffs"

definition share_for :: "('s::field, 'g1, 'g2, 'gt) bls \<Rightarrow> 's list \<Rightarrow> u32 \<Rightarrow> 's" where
  "share_for C coeffs j = poly_loop coeffs (scalar_from_u64 C (ucast j)) 0 1"

record 'g2 dkg_commitment =
  dc_index :: u32
  dc_commitments :: "'g2 list"

record ('s, 'g2) dkg_output =
  do_secret_share :: 's
  do_public_key :: 'g2
  do_verification_points :: "'g2 list"

text \<open>The two nested loops that fill the table of shares, keyed by dealer and recipient.\<close>

definition share_table :: "('s::field, 'g1, 'g2, 'gt) bls \<Rightarrow> (u32 \<Rightarrow> 's list) \<Rightarrow> u32 list \<Rightarrow>
    (u32 \<times> u32, 's) fmap" where
  "share_table C coeffs ps =
     fold (\<lambda>i. fold (\<lambda>j. fmupd (i, j) (share_for C (coeffs i) j)) ps) ps fmempty"

text \<open>None is the panic of \<open>c.commitments[0]\<close> on an empty vector.\<close>

definition run_feldman_dkg :: "('s::field, 'g1, 'g2::ab_group_add, 'gt) bls \<Rightarrow> u32 \<Rightarrow> u32 \<Rightarrow>
    (u32 \<Rightarrow> nat \<Rightarrow> 's) \<Rightarrow> ('s, 'g2) dkg_output list option" where
  "run_feldman_dkg C n t rnd =
     (let coeffs = (\<lambda>i. random_poly (rnd i) t);
          all_commits = map (\<lambda>i. \<lparr>dc_index = i, dc_commitments = feldman_commitments C (coeffs i)\<rparr>) (parties n);
          all_shares = share_table C coeffs (parties n)
      in if list_ex (\<lambda>c. dc_commitments c = []) all_commits then None
         else Some (map (\<lambda>i.
           \<lparr>do_secret_share = foldl (\<lambda>my_share j. my_share + the (fmlookup all_shares (j, i))) 0 (parties n),
            do_public_key = foldl (\<lambda>pk c. pk + hd (dc_commitments c)) 0 all_commits,
            do_verification_points = map (\<lambda>c. hd (dc_commitments c)) all_commits\<rparr>) (parties n)))"

section \<open>Dealers, complaints and disqualification\<close>

record 's dealt_share =
  sh_index :: u32
  sh_value :: 's

record 'g2 dealer_commitment =
  cm_dealer :: u32
  cm_commitments :: "'g2 list"

record 's complaint =
  cp_from :: u32
  cp_against :: u32
  cp_share :: "'s dealt_share"

record ('s, 'g2) multi_dealer_dkg =
  md_n :: u32
  md_t :: u32
  md_commitments :: "(u32, 'g2 dealer_commitment) fmap"
  md_shares :: "(u32 \<times> u32, 's) fmap"
  md_disqualified :: "u32 fset"
  md_complaints :: "'s complaint list"

definition multi_dealer_new :: "u32 \<Rightarrow> u32 \<Rightarrow> ('s, 'g2) multi_dealer_dkg" where
  "multi_dealer_new n t = \<lparr>md_n = n, md_t = t, md_commitments = fmempty, md_shares = fmempty,
     md_disqualified = {||}, md_complaints = []\<rparr>"

definition deal :: "('s::field, 'g1, 'g2, 'gt) bls \<Rightarrow> (nat \<Rightarrow> 's) \<Rightarrow> u32 \<Rightarrow> ('s, 'g2) multi_dealer_dkg \<Rightarrow>
    's dealt_share list \<times> ('s, 'g2) multi_dealer_dkg" where
  "deal C rnd dealer_id st =
     (let coeffs = random_poly rnd (md_t st);
          shares = map (\<lambda>i. \<lparr>sh_index = i, sh_value = share_for C coeffs i\<rparr>) (parties (md_n st))
      in (shares, st\<lparr>
            md_commitments := fmupd dealer_id
              \<lparr>cm_dealer = dealer_id, cm_commitments = feldman_commitments C coeffs\<rparr> (md_commitments st),
            md_shares := fold (\<lambda>s. fmupd (dealer_id, sh_index s) (sh_value s)) shares (md_shares st)\<rparr>))"

definition verify_share :: "('s::field, 'g1, 'g2::ab_group_add, 'gt) bls \<Rightarrow> ('s, 'g2) multi_dealer_dkg \<Rightarrow>
    u32 \<Rightarrow> 's dealt_share \<Rightarrow> bool" where
  "verify_share C st dealer share =
     (case fmlookup (md_commitments st) dealer of
        None \<Rightarrow> False
      | Some cmt \<Rightarrow>
          (let rhs = commit_loop C (cm_commitments cmt) (scalar_from_u64 C (ucast (sh_index share))) 0 1
           in g2_mul C (g2_generator C) (sh_value share) = rhs))"

definition file_complaint :: "'s complaint \<Rightarrow> ('s, 'g2) multi_dealer_dkg \<Rightarrow> ('s, 'g2) multi_dealer_dkg" where
  "file_complaint c st =
     (if cp_against c |\<notin>| md_disqualified st then st\<lparr>md_complaints := md_complaints st @ [c]\<rparr> else st)"

definition complaint_counts :: "'s complaint list \<Rightarrow> (u32, u32) fmap" where
  "complaint_counts cs =
     fold (\<lambda>c m. fmupd (cp_against c) ((case fmlookup m (cp_against c) of None \<Rightarrow> 0 | Some k \<Rightarrow> k) + 1) m)
       cs fmempty"

definition disqualify :: "u32 \<times> u32 \<Rightarrow> ('s, 'g2) multi_dealer_dkg \<Rightarrow> ('s, 'g2) multi_dealer_dkg" where
  "disqualify p st =
     (case p of (dealer, cnt) \<Rightarrow>
        if md_t st < cnt
        then st\<lparr>md_disqualified := finsert dealer (md_disqualified st),
                md_commitments := fmdrop dealer (md_commitments st),
                md_shares := fmfilter (\<lambda>(d, _). d \<noteq> dealer) (md_shares st)\<rparr>
        else st)"

definition resolve_and_disqualify :: "('s, 'g2) multi_dealer_dkg \<Rightarrow> ('s, 'g2) multi_dealer_dkg" where
  "resolve_and_disqualify st =
     (fold disqualify (hm_items (complaint_counts (md_complaints st))) st)\<lparr>md_complaints := []\<rparr>"

definition final_share :: "u32 \<Rightarrow> ('s::field, 'g2) multi_dealer_dkg \<Rightarrow> 's option" where
  "final_share recipient st =
     (let (sum, found) = fold (\<lambda>((dealer, r), v) (sum, found).
            if r = recipient \<and> dealer |\<notin>| md_disqualified st then (sum + v, True) else (sum, found))
          (hm_items (md_shares st)) (0, False)
      in if found then Some sum else None)"

section \<open>Pedersen commitments\<close>

text \<open>The second generator comes from a function that no file of the repository defines.\<close>

record 'g2 pedersen_commitment =
  pc_g :: 'g2
  pc_h :: 'g2

definition pedersen_new :: "('s, 'g1, 'g2, 'gt) bls \<Rightarrow> 'g2 \<Rightarrow> 'g2 pedersen_commitment" where
  "pedersen_new C independent_generator = \<lparr>pc_g = g2_generator C, pc_h = independent_generator\<rparr>"

definition pedersen_commit :: "('s, 'g1, 'g2::ab_group_add, 'gt) bls \<Rightarrow> 'g2 pedersen_commitment \<Rightarrow>
    's \<Rightarrow> 's \<Rightarrow> 'g2" where
  "pedersen_commit C p secret blinding_factor = g2_mul C (pc_g p) secret + g2_mul C (pc_h p) blinding_factor"

section \<open>Parties and shares\<close>

lemma evaluation_point_x_coord: "evaluation_point C i = x_coord C i"
  by (simp add: evaluation_point_def x_coord_def)

lemma unat_u32_less: "unat (n :: u32) < 4294967296"
  using unsigned_less [of n] by simp

lemma set_parties: "set (parties n) = {i. 1 \<le> i \<and> i \<le> n}"
proof -
  have "i \<in> set (parties n) \<longleftrightarrow> 1 \<le> i \<and> i \<le> n" for i
  proof
    assume "i \<in> set (parties n)"
    then obtain k where k: "i = word_of_nat k" "1 \<le> k" "k \<le> unat n" by (auto simp: parties_def)
    then have "unat i = k"
      using unat_u32_less [of n] by (simp add: unat_of_nat)
    then show "1 \<le> i \<and> i \<le> n" using k by (simp add: word_le_nat_alt)
  next
    assume "1 \<le> i \<and> i \<le> n"
    then have "i = word_of_nat (unat i)" "unat i \<in> set [1..<Suc (unat n)]"
      by (simp_all add: word_le_nat_alt del: upt_Suc)
    then show "i \<in> set (parties n)" unfolding parties_def by (metis image_eqI list.set_map)
  qed
  then show ?thesis by blast
qed

lemma distinct_parties: "distinct (parties n)"
proof -
  have "inj_on (word_of_nat :: nat \<Rightarrow> u32) (set [1..<Suc (unat n)])"
  proof (rule inj_onI)
    fix j k
    assume jk: "j \<in> set [1..<Suc (unat n)]" "k \<in> set [1..<Suc (unat n)]"
      and eq: "(word_of_nat j :: u32) = word_of_nat k"
    have "unat (word_of_nat j :: u32) = unat (word_of_nat k :: u32)" using eq by simp
    then show "j = k" using jk unat_u32_less [of n] by (auto simp: unat_of_nat less_Suc_eq_le simp del: upt_Suc)
  qed
  then show ?thesis by (simp add: parties_def distinct_map del: upt_Suc)
qed

lemma share_for_eval: "share_for C cs j = poly_eval cs (scalar_from_u64 C (ucast j))"
  by (simp add: share_for_def poly_loop_eval)

lemma feldman_commitments_check:
  assumes "scalar_laws C"
  shows "commit_loop C (feldman_commitments C cs) x 0 1 = g2_mul C (g2_generator C) (poly_eval cs x)"
  by (simp add: feldman_commitments_def commit_loop_commitments [OF assms])

text \<open>
  What a verifier of Feldman shares promises its clients: against the commitments of a polynomial
  it accepts exactly the value at the participant's point. Accepted shares then fix the secret.
\<close>

locale share_verifier =
  fixes accepts :: "('s::field, 'g1::ab_group_add, 'g2::ab_group_add, 'gt) bls \<Rightarrow> u32 \<Rightarrow> 's \<Rightarrow> 'g2 list \<Rightarrow> bool"
  assumes accepts_iff: "scalar_laws C \<Longrightarrow> g2_generator_faithful C \<Longrightarrow>
    accepts C i v (map (g2_mul C (g2_generator C)) F) \<longleftrightarrow> v = poly_eval F (x_coord C i)"
begin

lemma accepted_unique:
  assumes "scalar_laws C" "g2_generator_faithful C"
    and "accepts C i v (map (g2_mul C (g2_generator C)) F)" "accepts C i w (map (g2_mul C (g2_generator C)) F)"
  shows "v = w"
  using assms by (simp add: accepts_iff)

lemma accepted_interpolate:
  assumes C: "scalar_laws C" "g2_generator_faithful C" and F: "F \<noteq> []" "length F \<le> card R"
    and R: "finite R" "\<And>i. i \<in> R \<Longrightarrow> accepts C i (v i) (map (g2_mul C (g2_generator C)) F)"
  shows "(\<Sum>i\<in>R. v i * lagrange_coeff (x_coord C) R i) = hd F"
proof -
  have "(\<Sum>i\<in>R. v i * lagrange_coeff (x_coord C) R i) =
      (\<Sum>i\<in>R. poly_eval F (x_coord C i) * lagrange_coeff (x_coord C) R i)"
    using R(2) by (intro sum.cong) (simp_all add: accepts_iff [OF C])
  also have "\<dots> = hd F" by (rule lagrange_poly [OF R(1) x_coord_inj_on [OF C(1)] F(2,1)])
  finally show ?thesis .
qed

end

lemma verify_feldman_share_iff:
  assumes "scalar_laws C" "g2_generator_faithful C"
  shows "verify_feldman_share C i v (map (g2_mul C (g2_generator C)) F) \<longleftrightarrow> v = poly_eval F (x_coord C i)"
  using assms
  by (auto simp: verify_feldman_share_def commit_loop_commitments evaluation_point_x_coord
      g2_generator_faithful_def Let_def dest: injD)

text \<open>The multi-dealer verifier numbers the participants from one.\<close>

lemma verify_share_feldman:
  assumes "fmlookup (md_commitments st) dealer = Some \<lparr>cm_dealer = dealer, cm_commitments = commits\<rparr>"
  shows "verify_share C st dealer \<lparr>sh_index = i + 1, sh_value = v\<rparr> \<longleftrightarrow> verify_feldman_share C i v commits"
  using assms by (simp add: verify_share_def verify_feldman_share_def evaluation_point_def Let_def)

definition dealing_of :: "'g2 list \<Rightarrow> ('s, 'g2) multi_dealer_dkg" where
  "dealing_of commits = (multi_dealer_new 0 0)\<lparr>md_commitments :=
     fmupd 0 \<lparr>cm_dealer = 0, cm_commitments = commits\<rparr> fmempty\<rparr>"

lemma dealing_of_commitments:
  "fmlookup (md_commitments (dealing_of commits)) 0 = Some \<lparr>cm_dealer = 0, cm_commitments = commits\<rparr>"
  by (simp add: dealing_of_def)

interpretation feldman: share_verifier verify_feldman_share
  by unfold_locales (rule verify_feldman_share_iff)

interpretation dealer: share_verifier
  "\<lambda>C i v commits. verify_share C (dealing_of commits) 0 \<lparr>sh_index = i + 1, sh_value = v\<rparr>"
proof unfold_locales
  fix C :: "('s::field, 'g1::ab_group_add, 'g2::ab_group_add, 'gt) bls" and i v F
  assume "scalar_laws C" "g2_generator_faithful C"
  then show "verify_share C (dealing_of (map (g2_mul C (g2_generator C)) F)) 0
      \<lparr>sh_index = i + 1, sh_value = v\<rparr> \<longleftrightarrow> v = poly_eval F (x_coord C i)"
    unfolding verify_share_feldman [OF dealing_of_commitments] by (rule verify_feldman_share_iff)
qed

lemma foldl_add: "foldl (\<lambda>a x. a + f x) a xs = a + sum_list (map f xs)"
  for a :: "'a::ab_group_add"
  by (induction xs arbitrary: a) (simp_all add: add.assoc)

lemma length_random_poly [simp]: "length (random_poly rnd t) = unat t"
  by (simp add: random_poly_def)

section \<open>The table of shares\<close>

lemma lookup_share_row:
  "fmlookup (fold (\<lambda>j. fmupd (i, j) (f j)) js m) (d, r) =
     (if d = i \<and> r \<in> set js then Some (f r) else fmlookup m (d, r))"
  by (induction js arbitrary: m) auto

lemma lookup_share_rows:
  "fmlookup (fold (\<lambda>i. fold (\<lambda>j. fmupd (i, j) (f i j)) js) is m) (d, r) =
     (if d \<in> set is \<and> r \<in> set js then Some (f d r) else fmlookup m (d, r))"
  by (induction "is" arbitrary: m) (auto simp: lookup_share_row)

lemma lookup_share_table:
  "fmlookup (share_table C coeffs ps) (d, r) =
     (if d \<in> set ps \<and> r \<in> set ps then Some (share_for C (coeffs d) r) else None)"
  by (simp add: share_table_def lookup_share_rows)

text \<open>The outputs: the shares are the values of the sum of the polynomials.\<close>

lemma run_feldman_dkg_outputs:
  assumes C: "scalar_laws C" and t: "0 < t"
  shows "run_feldman_dkg C n t rnd = Some (map (\<lambda>i.
    \<lparr>do_secret_share = (\<Sum>j\<in>{1..n}. poly_eval (random_poly (rnd j) t) (scalar_from_u64 C (ucast i))),
     do_public_key = g2_mul C (g2_generator C) (\<Sum>j\<in>{1..n}. rnd j 0),
     do_verification_points = map (\<lambda>j. g2_mul C (g2_generator C) (rnd j 0)) (parties n)\<rparr>) (parties n))"
proof -
  have t': "0 < unat t" using t by (simp add: word_less_nat_alt)
  then have h: "feldman_commitments C (random_poly (rnd i) t) \<noteq> []"
    "hd (feldman_commitments C (random_poly (rnd i) t)) = g2_mul C (g2_generator C) (rnd i 0)" for i
    by (simp_all add: feldman_commitments_def random_poly_def hd_map upt_rec)
  have sum: "sum_list (map g (parties n)) = (\<Sum>j\<in>{1..n}. g j)" for g :: "u32 \<Rightarrow> 'x::comm_monoid_add"
    using distinct_parties [of n]
    by (simp add: sum_list_distinct_conv_sum_set set_parties atLeastAtMost_def atLeast_def atMost_def Collect_conj_eq)
  show ?thesis
    by (auto simp: run_feldman_dkg_def Let_def list_ex_iff h foldl_add comp_def sum g2_mul_sum [OF C]
        lookup_share_table share_for_eval set_parties intro!: map_cong sum.cong)
qed

section \<open>Complaints\<close>

definition complaints_against :: "'s complaint list \<Rightarrow> u32 \<Rightarrow> nat" where
  "complaints_against cs d = length (filter (\<lambda>c. cp_against c = d) cs)"

lemma complaint_fold:
  "fmlookup (fold (\<lambda>c m. fmupd (cp_against c) ((case fmlookup m (cp_against c) of None \<Rightarrow> 0 | Some k \<Rightarrow> k) + 1) m)
      cs m) d =
    (if complaints_against cs d = 0 then fmlookup m d
     else Some ((case fmlookup m d of None \<Rightarrow> 0 | Some k \<Rightarrow> k) + word_of_nat (complaints_against cs d)))"
  by (induction cs arbitrary: m) (auto simp: complaints_against_def add.assoc split: option.splits)

lemma lookup_complaint_counts:
  "fmlookup (complaint_counts cs) d =
    (if complaints_against cs d = 0 then None else Some (word_of_nat (complaints_against cs d)))"
  by (simp add: complaint_counts_def complaint_fold)

lemma file_complaints:
  assumes "md_disqualified st = {||}"
  shows "fold file_complaint cs st = st\<lparr>md_complaints := md_complaints st @ cs\<rparr>"
  using assms by (induction cs arbitrary: st) (simp_all add: file_complaint_def)

lemma disqualify_fold:
  fixes ps t
  defines "bad \<equiv> \<lambda>ps (t :: u32) d. \<exists>c. (d, c) \<in> set ps \<and> t < c"
  shows "md_t (fold disqualify ps st) = md_t st"
    "d |\<in>| md_disqualified (fold disqualify ps st) \<longleftrightarrow> bad ps (md_t st) d \<or> d |\<in>| md_disqualified st"
    "fmlookup (md_shares (fold disqualify ps st)) (d, r) =
      (if bad ps (md_t st) d then None else fmlookup (md_shares st) (d, r))"
    "fmlookup (md_commitments (fold disqualify ps st)) d =
      (if bad ps (md_t st) d then None else fmlookup (md_commitments st) d)"
  unfolding bad_def
  by (induction ps arbitrary: st) (auto simp: disqualify_def split: prod.splits)

lemma resolve_effects:
  fixes st :: "('s, 'g2) multi_dealer_dkg"
  assumes "length (md_complaints st) < 2 ^ 32"
  defines "bad \<equiv> \<lambda>d. unat (md_t st) < complaints_against (md_complaints st) d"
  shows "d |\<in>| md_disqualified (resolve_and_disqualify st) \<longleftrightarrow> bad d \<or> d |\<in>| md_disqualified st"
    "fmlookup (md_shares (resolve_and_disqualify st)) (d, r) =
      (if bad d then None else fmlookup (md_shares st) (d, r))"
    "fmlookup (md_commitments (resolve_and_disqualify st)) d =
      (if bad d then None else fmlookup (md_commitments st) d)"
proof -
  have "complaints_against (md_complaints st) d < 2 ^ 32" for d
    unfolding complaints_against_def by (rule le_less_trans [OF length_filter_le assms(1)])
  then have "unat (word_of_nat (complaints_against (md_complaints st) d) :: u32) =
      complaints_against (md_complaints st) d" for d
    by (simp add: unat_of_nat)
  then have "(\<exists>c. (d, c) \<in> set (hm_items (complaint_counts (md_complaints st))) \<and> md_t st < c) \<longleftrightarrow> bad d" for d
    by (auto simp: set_hm_items lookup_complaint_counts word_less_nat_alt bad_def)
  then show "d |\<in>| md_disqualified (resolve_and_disqualify st) \<longleftrightarrow> bad d \<or> d |\<in>| md_disqualified st"
    "fmlookup (md_shares (resolve_and_disqualify st)) (d, r) =
      (if bad d then None else fmlookup (md_shares st) (d, r))"
    "fmlookup (md_commitments (resolve_and_disqualify st)) d =
      (if bad d then None else fmlookup (md_commitments st) d)"
    by (simp_all add: resolve_and_disqualify_def disqualify_fold)
qed

section \<open>Dealt states\<close>

definition deal_all :: "('s::field, 'g1, 'g2, 'gt) bls \<Rightarrow> (u32 \<Rightarrow> nat \<Rightarrow> 's) \<Rightarrow> u32 list \<Rightarrow>
    ('s, 'g2) multi_dealer_dkg \<Rightarrow> ('s, 'g2) multi_dealer_dkg" where
  "deal_all C rnd ds st = fold (\<lambda>d st. snd (deal C (rnd d) d st)) ds st"

lemma lookup_dealt_row:
  "fmlookup (fold (\<lambda>s. fmupd (d, sh_index s) (sh_value s)) (map (\<lambda>i. \<lparr>sh_index = i, sh_value = f i\<rparr>) is) m) (e, r) =
    (if e = d \<and> r \<in> set is then Some (f r) else fmlookup m (e, r))"
  by (induction "is" arbitrary: m) auto

lemma deal_all_state:
  "md_n (deal_all C rnd ds st) = md_n st" "md_t (deal_all C rnd ds st) = md_t st"
  "md_disqualified (deal_all C rnd ds st) = md_disqualified st"
  "md_complaints (deal_all C rnd ds st) = md_complaints st"
  "fmlookup (md_shares (deal_all C rnd ds st)) (d, r) =
    (if d \<in> set ds \<and> 1 \<le> r \<and> r \<le> md_n st then Some (share_for C (random_poly (rnd d) (md_t st)) r)
     else fmlookup (md_shares st) (d, r))"
  "fmlookup (md_commitments (deal_all C rnd ds st)) d =
    (if d \<in> set ds then Some \<lparr>cm_dealer = d,
        cm_commitments = feldman_commitments C (random_poly (rnd d) (md_t st))\<rparr>
     else fmlookup (md_commitments st) d)"
  unfolding deal_all_def
  by (induction ds arbitrary: st) (auto simp: deal_def Let_def lookup_dealt_row set_parties)

text \<open>The state after all dealings, all complaints and the resolution.\<close>

definition resolved :: "('s::field, 'g1, 'g2, 'gt) bls \<Rightarrow> (u32 \<Rightarrow> nat \<Rightarrow> 's) \<Rightarrow> u32 \<Rightarrow> u32 \<Rightarrow> u32 list \<Rightarrow>
    's complaint list \<Rightarrow> ('s, 'g2) multi_dealer_dkg" where
  "resolved C rnd n t ds cs =
     resolve_and_disqualify (fold file_complaint cs (deal_all C rnd ds (multi_dealer_new n t)))"

lemma resolved_state:
  assumes "length cs < 2 ^ 32"
  shows "d |\<in>| md_disqualified (resolved C rnd n t ds cs) \<longleftrightarrow> unat t < complaints_against cs d"
    "fmlookup (md_shares (resolved C rnd n t ds cs)) (d, r) =
      (if d \<in> set ds \<and> complaints_against cs d \<le> unat t \<and> 1 \<le> r \<and> r \<le> n
       then Some (poly_eval (random_poly (rnd d) t) (scalar_from_u64 C (ucast r))) else None)"
    "fmlookup (md_commitments (resolved C rnd n t ds cs)) d =
      (if d \<in> set ds \<and> complaints_against cs d \<le> unat t
       then Some \<lparr>cm_dealer = d, cm_commitments = feldman_commitments C (random_poly (rnd d) t)\<rparr> else None)"
proof -
  let ?dealt = "deal_all C rnd ds (multi_dealer_new n t)"
  let ?filed = "?dealt\<lparr>md_complaints := cs\<rparr>"
  have filed: "fold file_complaint cs ?dealt = ?filed"
    by (subst file_complaints) (simp_all add: deal_all_state multi_dealer_new_def)
  have "length (md_complaints ?filed) < 2 ^ 32" using assms by simp
  note eff = resolve_effects [OF this]
  have t: "md_t ?filed = t" "md_complaints ?filed = cs" by (simp_all add: deal_all_state multi_dealer_new_def)
  have old: "md_disqualified ?filed = {||}"
    "fmlookup (md_shares ?filed) (d, r) = (if d \<in> set ds \<and> 1 \<le> r \<and> r \<le> n
       then Some (poly_eval (random_poly (rnd d) t) (scalar_from_u64 C (ucast r))) else None)"
    "fmlookup (md_commitments ?filed) d = (if d \<in> set ds
       then Some \<lparr>cm_dealer = d, cm_commitments = feldman_commitments C (random_poly (rnd d) t)\<rparr> else None)"
    by (simp_all add: deal_all_state multi_dealer_new_def share_for_eval)
  show "d |\<in>| md_disqualified (resolved C rnd n t ds cs) \<longleftrightarrow> unat t < complaints_against cs d"
    unfolding resolved_def filed eff(1) t old by simp
  show "fmlookup (md_shares (resolved C rnd n t ds cs)) (d, r) =
      (if d \<in> set ds \<and> complaints_against cs d \<le> unat t \<and> 1 \<le> r \<and> r \<le> n
       then Some (poly_eval (random_poly (rnd d) t) (scalar_from_u64 C (ucast r))) else None)"
    unfolding resolved_def filed eff(2) t old by auto
  show "fmlookup (md_commitments (resolved C rnd n t ds cs)) d =
      (if d \<in> set ds \<and> complaints_against cs d \<le> unat t
       then Some \<lparr>cm_dealer = d, cm_commitments = feldman_commitments C (random_poly (rnd d) t)\<rparr> else None)"
    unfolding resolved_def filed eff(3) t old by auto
qed

lemma final_share_fold:
  "fold (\<lambda>((dealer, r), v) (s, found). if P dealer r then (s + v, True) else (s, found)) xs (s, b) =
    (s + sum_list (map snd (filter (\<lambda>((dealer, r), v). P dealer r) xs)),
     b \<or> (\<exists>x\<in>set xs. case x of ((dealer, r), v) \<Rightarrow> P dealer r))"
  for s :: "'s::comm_monoid_add"
  by (induction xs arbitrary: s b) (auto simp: add.assoc)

lemma final_share_sum:
  assumes "finite D" and row: "\<And>d. fmlookup (md_shares st) (d, r) = (if d \<in> D then Some (f d) else None)"
    and live: "\<And>d. d \<in> D \<Longrightarrow> d |\<notin>| md_disqualified st"
  shows "final_share r st = (if D = {} then None else Some (\<Sum>d\<in>D. f d))"
proof -
  let ?P = "\<lambda>dealer r'. r' = r \<and> dealer |\<notin>| md_disqualified st"
  let ?xs = "filter (\<lambda>((dealer, r'), v). ?P dealer r') (hm_items (md_shares st))"
  have set: "set ?xs = (\<lambda>d. ((d, r), f d)) ` D"
    using row live by (auto simp: set_hm_items split: if_splits)
  have "distinct ?xs" using distinct_hm_items [of "md_shares st"] by (simp add: distinct_map)
  then have "sum_list (map snd ?xs) = (\<Sum>p\<in>(\<lambda>d. ((d, r), f d)) ` D. snd p)"
    by (simp only: sum_list_distinct_conv_sum_set set)
  also have "\<dots> = (\<Sum>d\<in>D. f d)" by (subst sum.reindex) (auto intro: inj_onI)
  finally have sum: "sum_list (map snd ?xs) = (\<Sum>d\<in>D. f d)" .
  have "(\<exists>x\<in>set (hm_items (md_shares st)). case x of ((dealer, r'), v) \<Rightarrow> ?P dealer r') \<longleftrightarrow>
      (\<exists>dealer v. fmlookup (md_shares st) (dealer, r) = Some v \<and> dealer |\<notin>| md_disqualified st)"
    by (auto simp: set_hm_items)
  also have "\<dots> \<longleftrightarrow> D \<noteq> {}" using row live by (auto split: if_splits)
  finally show ?thesis unfolding final_share_def final_share_fold sum by simp
qed

section \<open>Pedersen commitments\<close>

lemma pedersen_commit_add:
  assumes "scalar_laws C"
  shows "pedersen_commit C p (s + s') (b + b') = pedersen_commit C p s b + pedersen_commit C p s' b'"
  by (simp add: pedersen_commit_def g2_mul_add_scalar [OF assms])

text \<open>Opening a commitment to two secrets reveals the logarithm of the second generator.\<close>

lemma pedersen_binding:
  fixes C :: "('s::field, 'g1::ab_group_add, 'g2::ab_group_add, 'gt) bls"
  assumes C: "scalar_laws C" "inj (g2_mul C (pc_g p))"
    and eq: "pedersen_commit C p s b = pedersen_commit C p s' b'" and ne: "s \<noteq> s'"
  shows "b \<noteq> b' \<and> pc_h p = g2_mul C (pc_g p) ((s' - s) / (b - b'))"
proof
  have minus: "g2_mul C P (k - l) = g2_mul C P k - g2_mul C P l" for P k l
    using g2_mul_add_scalar [OF C(1), of P "k - l" l] by simp
  show b: "b \<noteq> b'"
  proof
    assume "b = b'"
    then have "g2_mul C (pc_g p) s = g2_mul C (pc_g p) s'" using eq by (simp add: pedersen_commit_def)
    then show False using C(2) ne by (auto dest: injD)
  qed
  have "g2_mul C (pc_h p) (b - b') = g2_mul C (pc_g p) (s' - s)"
    using eq by (simp add: minus pedersen_commit_def algebra_simps)
  then have "g2_mul C (g2_mul C (pc_h p) (b - b')) (inverse (b - b')) =
      g2_mul C (g2_mul C (pc_g p) (s' - s)) (inverse (b - b'))" by simp
  then show "pc_h p = g2_mul C (pc_g p) ((s' - s) / (b - b'))"
    using b by (simp add: g2_mul_mul [OF C(1)] g2_mul_one [OF C(1)] divide_inverse)
qed

end
