(* ===== verification/Frost.thy ===== *)
theory Frost
  imports Threshold_Bls
begin

text \<open>
  The remaining signature modules that the node does not call: \<open>schnorr_proof.rs\<close> (a
  non-interactive proof of knowledge of an exponent) and \<open>frost_sim.rs\<close> (a trusted dealer and
  threshold signatures). Randomness and SHA-256 are parameters. The panics of the second module,
  on an empty polynomial and on repeated identifiers, are \<open>None\<close>.
\<close>

section \<open>Schnorr proofs\<close>

record ('s, 'g2) schnorr_proof =
  sp_R :: 'g2
  sp_s :: 's

definition schnorr_dst :: bytes where
  "schnorr_dst = map of_char ''FELDMAN_VSS_SCHNORR_PROOF_V1''"

definition challenge :: "('s, 'g1, 'g2, 'gt) bls \<Rightarrow> (bytes \<Rightarrow> bytes) \<Rightarrow> 'g2 \<Rightarrow> 'g2 \<Rightarrow> 'g2 \<Rightarrow> 's" where
  "challenge C sha256 base commitment R =
     (let hash = sha256 (schnorr_dst @ g2_to_compressed C base @ g2_to_compressed C commitment @
                         g2_to_compressed C R)
      in scalar_from_bytes_wide C (hash @ replicate 32 0))"

definition schnorr_prove :: "('s::field, 'g1, 'g2, 'gt) bls \<Rightarrow> (bytes \<Rightarrow> bytes) \<Rightarrow> 's \<Rightarrow> 'g2 \<Rightarrow> 's \<Rightarrow>
    'g2 \<times> ('s, 'g2) schnorr_proof" where
  "schnorr_prove C sha256 r base secret =
     (let R = g2_mul C base r;
          commitment = g2_mul C base secret;
          c = challenge C sha256 base commitment R;
          s = r + c * secret
      in (commitment, \<lparr>sp_R = R, sp_s = s\<rparr>))"

definition schnorr_verify :: "('s::field, 'g1, 'g2::ab_group_add, 'gt) bls \<Rightarrow> (bytes \<Rightarrow> bytes) \<Rightarrow>
    'g2 \<Rightarrow> 'g2 \<Rightarrow> ('s, 'g2) schnorr_proof \<Rightarrow> bool" where
  "schnorr_verify C sha256 base commitment proof =
     (let c = challenge C sha256 base commitment (sp_R proof);
          lhs = g2_mul C base (sp_s proof);
          rhs = sp_R proof + g2_mul C commitment c
      in lhs = rhs)"

lemma schnorr_complete:
  assumes C: "scalar_laws C"
  shows "schnorr_verify C sha256 base (fst (schnorr_prove C sha256 r base secret))
    (snd (schnorr_prove C sha256 r base secret))"
  by (simp add: schnorr_verify_def schnorr_prove_def Let_def g2_mul_add_scalar [OF C] g2_mul_mul [OF C]
      mult.commute)

lemma g2_mul_diff:
  fixes C :: "('s::field, 'g1::ab_group_add, 'g2::ab_group_add, 'gt) bls"
  assumes C: "scalar_laws C"
  shows "g2_mul C P (k - l) = g2_mul C P k - g2_mul C P l"
  using g2_mul_add_scalar [OF C, of P "k - l" l] by simp

text \<open>Two answers to different challenges of one nonce give the secret away.\<close>

lemma schnorr_extract:
  fixes C :: "('s::field, 'g1::ab_group_add, 'g2::ab_group_add, 'gt) bls"
  assumes C: "scalar_laws C"
    and v: "g2_mul C base s = R + g2_mul C Y c" and v': "g2_mul C base s' = R + g2_mul C Y c'"
    and ne: "c \<noteq> c'"
  shows "Y = g2_mul C base ((s - s') / (c - c'))"
proof -
  have "g2_mul C base (s - s') = g2_mul C Y (c - c')"
    using v v' by (simp add: g2_mul_diff [OF C])
  then have "g2_mul C (g2_mul C base (s - s')) (inverse (c - c')) =
      g2_mul C (g2_mul C Y (c - c')) (inverse (c - c'))" by simp
  then show ?thesis using ne by (simp add: g2_mul_mul [OF C] g2_mul_one [OF C] divide_inverse)
qed

section \<open>The trusted dealer\<close>

record ('s, 'g2) frost_key_share =
  fk_node_id :: u32
  fk_secret_share :: 's
  fk_public_key :: 'g2
  fk_verification_keys :: "(u32, 'g2) fmap"

record 'g1 signature_share =
  ss_node_id :: u32
  ss_share :: 'g1

text \<open>\<open>0..total_nodes as u32\<close>.\<close>

definition node_range :: "usize \<Rightarrow> u32 list" where
  "node_range total_nodes = map word_of_nat [0..<unat (ucast total_nodes :: u32)]"

text \<open>The x-coordinate is that of the threshold module. None is the panic of \<open>coeffs[0]\<close>.\<close>

definition trusted_dealer :: "('s::field, 'g1, 'g2, 'gt) bls \<Rightarrow> (nat \<Rightarrow> 's) \<Rightarrow> usize \<Rightarrow> usize \<Rightarrow>
    ('g2 \<times> (u32, ('s, 'g2) frost_key_share) fmap) option" where
  "trusted_dealer C rnd threshold total_nodes =
     (let coeffs = map rnd [0..<unat threshold] in
      if coeffs = [] then None
      else
        let group_public = g2_mul C (g2_generator C) (coeffs ! 0);
            share = (\<lambda>i. poly_loop coeffs (x_coord C i) 0 1);
            verification_keys = fold (\<lambda>i. fmupd i (g2_mul C (g2_generator C) (share i)))
              (node_range total_nodes) fmempty;
            key_shares = fold (\<lambda>i. fmupd i \<lparr>fk_node_id = i, fk_secret_share = share i,
                fk_public_key = group_public, fk_verification_keys = verification_keys\<rparr>)
              (node_range total_nodes) fmempty
        in Some (group_public, key_shares))"

section \<open>Signing, aggregation and verification\<close>

text \<open>The message is copied, not hashed: its first 32 bytes, padded with zeros.\<close>

definition frost_point :: "('s, 'g1, 'g2, 'gt) bls \<Rightarrow> bytes \<Rightarrow> 'g1" where
  "frost_point C msg =
     (let len = min (length msg) 32;
          msg_hash = take len msg @ replicate (32 - len) 0
      in g1_mul C (g1_generator C) (scalar_from_bytes_wide C (msg_hash @ replicate 32 0)))"

definition frost_sign :: "('s, 'g1, 'g2, 'gt) bls \<Rightarrow> bytes \<Rightarrow> ('s, 'g2) frost_key_share \<Rightarrow>
    'g1 signature_share" where
  "frost_sign C msg key_share =
     \<lparr>ss_node_id = fk_node_id key_share, ss_share = g1_mul C (frost_point C msg) (fk_secret_share key_share)\<rparr>"

datatype frost_error = NOT_ENOUGH_SHARES

fun frost_inner :: "('s::field, 'g1, 'g2, 'gt) bls \<Rightarrow> nat \<Rightarrow> 's \<Rightarrow> (nat \<times> 'g1 signature_share) list \<Rightarrow>
    's \<Rightarrow> 's \<Rightarrow> 's \<times> 's" where
  "frost_inner C i x_i [] num den = (num, den)"
| "frost_inner C i x_i ((j, s) # rest) num den =
     (if i = j then frost_inner C i x_i rest num den
      else let x_j = x_coord C (ss_node_id s) in
        frost_inner C i x_i rest (num * x_j) (den * (x_j - x_i)))"

fun frost_outer :: "('s::field, 'g1::ab_group_add, 'g2, 'gt) bls \<Rightarrow> 'g1 signature_share list \<Rightarrow>
    (nat \<times> 'g1 signature_share) list \<Rightarrow> 'g1 \<Rightarrow> 'g1 option" where
  "frost_outer C chosen [] acc = Some acc"
| "frost_outer C chosen ((i, s) # rest) acc =
     (case frost_inner C i (x_coord C (ss_node_id s)) (enumerate 0 chosen) 1 1 of
        (num, den) \<Rightarrow>
          (case scalar_invert den of
             None \<Rightarrow> None
           | Some den_inv \<Rightarrow> frost_outer C chosen rest (acc + g1_mul C (ss_share s) (num * den_inv))))"

definition frost_aggregate :: "('s::field, 'g1::ab_group_add, 'g2, 'gt) bls \<Rightarrow> 'g1 signature_share list \<Rightarrow>
    usize \<Rightarrow> (frost_error, 'g1) result option" where
  "frost_aggregate C shares threshold =
     (if length shares < unat threshold then Some (Err NOT_ENOUGH_SHARES)
      else let chosen = take (unat threshold) shares in
        case frost_outer C chosen (enumerate 0 chosen) 0 of
          None \<Rightarrow> None
        | Some aggregated_sig \<Rightarrow> Some (Ok aggregated_sig))"

definition verify_group_signature :: "('s, 'g1, 'g2, 'gt) bls \<Rightarrow> bytes \<Rightarrow> 'g1 \<Rightarrow> 'g2 \<Rightarrow> bool" where
  "verify_group_signature C msg signature group_public_key =
     (let pairing_sig = pairing C signature (g2_generator C);
          pairing_msg = pairing C (frost_point C msg) group_public_key
      in pairing_sig = pairing_msg)"

section \<open>The loops interpolate at zero\<close>

lemma frost_inner_prod:
  "frost_inner C i x_i ps n d =
    (n * prod_list (map (\<lambda>p. x_coord C (ss_node_id (snd p))) (filter (\<lambda>p. fst p \<noteq> i) ps)),
     d * prod_list (map (\<lambda>p. x_coord C (ss_node_id (snd p)) - x_i) (filter (\<lambda>p. fst p \<noteq> i) ps)))"
  by (induction ps arbitrary: n d) (auto simp: Let_def mult.assoc)

lemma others_nodes:
  assumes "distinct (map ss_node_id chosen)" "i < length chosen"
  defines "ks \<equiv> map (\<lambda>p. ss_node_id (snd p)) (filter (\<lambda>p. fst p \<noteq> i) (enumerate 0 chosen))"
  shows "distinct ks" "set ks = ss_node_id ` set chosen - {ss_node_id (chosen ! i)}"
proof -
  have e: "map (\<lambda>p. ss_node_id (snd p)) (enumerate 0 chosen) = map ss_node_id chosen"
    by (rule nth_equalityI) (simp_all add: nth_enumerate_eq)
  have inj: "inj_on (\<lambda>p. ss_node_id (snd p)) (set (enumerate 0 chosen))" and d: "distinct (enumerate 0 chosen)"
    using assms(1) unfolding e [symmetric] by (simp_all add: distinct_map)
  show "distinct ks" unfolding ks_def distinct_map
    using d inj by (auto intro: inj_on_subset)
  show "set ks = ss_node_id ` set chosen - {ss_node_id (chosen ! i)}"
  proof -
    have "x \<in> set ks \<longleftrightarrow> (\<exists>j<length chosen. j \<noteq> i \<and> x = ss_node_id (chosen ! j))" for x
    proof -
      have f: "set (filter (\<lambda>p. fst p \<noteq> i) (enumerate 0 chosen)) =
          (\<lambda>j. (j, chosen ! j)) ` {j. j < length chosen \<and> j \<noteq> i}"
        by (auto simp: in_set_enumerate_eq)
      show ?thesis unfolding ks_def list.set_map f by (auto simp: image_iff)
    qed
    moreover have "j \<noteq> i \<longleftrightarrow> ss_node_id (chosen ! j) \<noteq> ss_node_id (chosen ! i)" if "j < length chosen" for j
      using assms(1,2) that by (auto simp: distinct_conv_nth)
    moreover have "x \<in> ss_node_id ` set chosen \<longleftrightarrow> (\<exists>j<length chosen. x = ss_node_id (chosen ! j))" for x
      by (auto simp: in_set_conv_nth image_iff Bex_def)
    ultimately have "x \<in> set ks \<longleftrightarrow> x \<in> ss_node_id ` set chosen \<and> x \<noteq> ss_node_id (chosen ! i)" for x
      by (simp only:) auto
    then show ?thesis by auto
  qed
qed

lemma frost_inner_coeff:
  assumes C: "scalar_laws C" and d: "distinct (map ss_node_id chosen)" and i: "i < length chosen"
  obtains n e where "frost_inner C i (x_coord C (ss_node_id (chosen ! i))) (enumerate 0 chosen) 1 1 = (n, e)"
    "e \<noteq> 0"
    "n * inverse e = lagrange_coeff (x_coord C) (ss_node_id ` set chosen) (ss_node_id (chosen ! i))"
proof -
  let ?x = "x_coord C" let ?k = "ss_node_id (chosen ! i)"
  let ?S = "ss_node_id ` set chosen - {?k}"
  let ?ks = "map (\<lambda>p. ss_node_id (snd p)) (filter (\<lambda>p. fst p \<noteq> i) (enumerate 0 chosen))"
  have prods: "prod_list (map (\<lambda>p. f (ss_node_id (snd p))) (filter (\<lambda>p. fst p \<noteq> i) (enumerate 0 chosen))) =
      prod f ?S" for f :: "u32 \<Rightarrow> 'a"
  proof -
    have "prod_list (map f ?ks) = prod f (set ?ks)"
      by (rule prod.distinct_set_conv_list [OF others_nodes(1) [OF d i], symmetric])
    then show ?thesis unfolding others_nodes(2) [OF d i] by (simp add: comp_def)
  qed
  have ne: "(\<Prod>j\<in>?S. ?x j - ?x ?k) \<noteq> 0" by (auto simp: x_coord_inj [OF C])
  have "lagrange_coeff ?x (ss_node_id ` set chosen) ?k = (\<Prod>j\<in>?S. ?x j / (?x j - ?x ?k))"
    unfolding lagrange_coeff_def by (rule prod.cong) (simp_all add: minus_divide_left [symmetric] minus_divide_right)
  also have "\<dots> = (\<Prod>j\<in>?S. ?x j) * inverse (\<Prod>j\<in>?S. ?x j - ?x ?k)"
    unfolding prod_dividef by (rule divide_inverse)
  finally show ?thesis using ne by (intro that) (simp_all add: frost_inner_prod prods [of ?x]
      prods [of "\<lambda>k. ?x k - ?x ?k"])
qed

lemma frost_outer_sum:
  assumes C: "scalar_laws C" and d: "distinct (map ss_node_id chosen)" and js: "set js \<subseteq> {..<length chosen}"
  shows "frost_outer C chosen (map (\<lambda>i. (i, chosen ! i)) js) acc =
    Some (acc + sum_list (map (\<lambda>i. g1_mul C (ss_share (chosen ! i))
      (lagrange_coeff (x_coord C) (ss_node_id ` set chosen) (ss_node_id (chosen ! i)))) js))"
  using js
proof (induction js arbitrary: acc)
  case (Cons i js)
  then have "i < length chosen" by simp
  from frost_inner_coeff [OF C d this] obtain n e where
    "frost_inner C i (x_coord C (ss_node_id (chosen ! i))) (enumerate 0 chosen) 1 1 = (n, e)" "e \<noteq> 0"
    "n * inverse e = lagrange_coeff (x_coord C) (ss_node_id ` set chosen) (ss_node_id (chosen ! i))" .
  then show ?case using Cons by (simp add: add.assoc)
qed simp

text \<open>Shares of a polynomial at distinct nodes aggregate to the signature with its constant term.\<close>

lemma frost_aggregate_shares:
  assumes C: "scalar_laws C" and d: "distinct (map ss_node_id (take (unat t) shares))"
    and cs: "cs \<noteq> []" "length cs \<le> unat t" "unat t \<le> length shares"
    and s: "\<And>s. s \<in> set (take (unat t) shares) \<Longrightarrow> ss_share s = g1_mul C H (poly_eval cs (x_coord C (ss_node_id s)))"
  shows "frost_aggregate C shares t = Some (Ok (g1_mul C H (hd cs)))"
proof -
  let ?sub = "take (unat t) shares" let ?S = "ss_node_id ` set ?sub"
  let ?l = "lagrange_coeff (x_coord C) ?S"
  have e: "enumerate 0 ?sub = map (\<lambda>i. (i, ?sub ! i)) [0..<length ?sub]"
    by (rule nth_equalityI) (simp_all add: nth_enumerate_eq)
  have "sum_list (map (\<lambda>i. g1_mul C (ss_share (?sub ! i)) (?l (ss_node_id (?sub ! i)))) [0..<length ?sub]) =
      sum_list (map (\<lambda>s. g1_mul C (ss_share s) (?l (ss_node_id s))) ?sub)"
    by (rule arg_cong [of _ _ sum_list], rule nth_equalityI) simp_all
  also have "\<dots> = sum_list (map (\<lambda>s. g1_mul C H (poly_eval cs (x_coord C (ss_node_id s)) * ?l (ss_node_id s))) ?sub)"
    by (rule arg_cong [of _ _ sum_list], rule map_cong) (simp_all add: s g1_mul_mul [OF C])
  also have "\<dots> = sum_list (map (\<lambda>k. g1_mul C H (poly_eval cs (x_coord C k) * ?l k)) (map ss_node_id ?sub))"
    by (simp add: comp_def)
  also have "\<dots> = (\<Sum>k\<in>?S. g1_mul C H (poly_eval cs (x_coord C k) * ?l k))"
    by (simp only: sum_list_distinct_conv_sum_set [OF d] list.set_map)
  also have "\<dots> = g1_mul C H (\<Sum>k\<in>?S. poly_eval cs (x_coord C k) * ?l k)" by (rule g1_mul_sum [OF C])
  also have "(\<Sum>k\<in>?S. poly_eval cs (x_coord C k) * ?l k) = hd cs"
  proof (rule lagrange_poly)
    have "card ?S = length ?sub" using distinct_card [OF d] by simp
    then show "length cs \<le> card ?S" using cs by simp
  qed (use cs x_coord_inj_on [OF C] in auto)
  finally have sum: "sum_list (map (\<lambda>i. g1_mul C (ss_share (?sub ! i)) (?l (ss_node_id (?sub ! i))))
      [0..<length ?sub]) = g1_mul C H (hd cs)" .
  have "frost_outer C ?sub (enumerate 0 ?sub) 0 = Some (0 + g1_mul C H (hd cs))"
    unfolding e sum [symmetric] by (rule frost_outer_sum [OF C d]) auto
  then show ?thesis using cs(3) by (simp add: frost_aggregate_def Let_def)
qed

lemma lookup_fold_upd:
  "fmlookup (fold (\<lambda>i. fmupd i (f i)) is m) i = (if i \<in> set is then Some (f i) else fmlookup m i)"
  by (induction "is" arbitrary: m) auto

lemma dom_fold_upd: "fset (fmdom (fold (\<lambda>i. fmupd i (f i)) is m)) = set is \<union> fset (fmdom m)"
  by (induction "is" arbitrary: m) auto

lemma trusted_dealer_keys:
  assumes "0 < t" "trusted_dealer C rnd t n = Some (pk, keys)"
  shows "pk = g2_mul C (g2_generator C) (rnd 0)" "fset (fmdom keys) = set (node_range n)"
    "fmlookup keys i = Some k \<Longrightarrow> fk_node_id k = i \<and> fk_public_key k = pk \<and>
       fk_secret_share k = poly_eval (map rnd [0..<unat t]) (x_coord C i)"
proof -
  have "0 < unat t" using assms(1) by (simp add: word_less_nat_alt)
  then show "pk = g2_mul C (g2_generator C) (rnd 0)" "fset (fmdom keys) = set (node_range n)"
    "fmlookup keys i = Some k \<Longrightarrow> fk_node_id k = i \<and> fk_public_key k = pk \<and>
       fk_secret_share k = poly_eval (map rnd [0..<unat t]) (x_coord C i)"
    using assms(2)
    by (auto simp: trusted_dealer_def Let_def lookup_fold_upd dom_fold_upd poly_loop_eval split: if_splits)
qed

lemma trusted_dealer_total: "0 < t \<Longrightarrow> \<exists>keys. trusted_dealer C rnd t n = Some (g2_mul C (g2_generator C) (rnd 0), keys)"
  by (simp add: trusted_dealer_def Let_def word_less_nat_alt)

end
