(* ===== verification/Sharing_Guarantees.thy ===== *)
theory Sharing_Guarantees
  imports Joint_Feldman Frost
begin

text \<open>
  The properties of the sharing and signature modules, most of which the node does not call: the
  three verifiers of Feldman shares agree but for the number of commitments, disqualified dealers do
  not count, Schnorr proofs are complete and give a witness away, and the simulated threshold
  signatures verify.
\<close>

section \<open>Feldman shares\<close>

text \<open>
  C29: The stand-alone verifier of shares and that of the multi-dealer generation accept the same
  shares of a node, the latter under the index that follows the node's, and the verifier of a
  key-generation session accepts those of them whose commitments are as many as its threshold: only
  the session checks the number. When the commitments are those of a polynomial this is exactly its value at
  the node's point, and accepted shares of as many nodes as it has coefficients interpolate to the
  committed secret.
\<close>

theorem feldman_verifiers_agree:
  fixes C :: "('s::field, 'g1::ab_group_add, 'g2::ab_group_add, 'gt) bls"
  assumes C: "scalar_laws C" "g2_generator_faithful C"
    and cmt: "fmlookup (md_commitments st) dealer = Some \<lparr>cm_dealer = dealer, cm_commitments = commits\<rparr>"
  shows "(is_ok (fst (process_incoming_share C j v commits ses)) \<longleftrightarrow>
      length commits = unat (dk_threshold ses) \<and> verify_feldman_share C (dk_node_id ses) v commits) \<and>
    (verify_share C st dealer \<lparr>sh_index = dk_node_id ses + 1, sh_value = v\<rparr> \<longleftrightarrow>
      verify_feldman_share C (dk_node_id ses) v commits) \<and>
    (\<forall>F. commits = map (g2_mul C (g2_generator C)) F \<longrightarrow>
      (verify_feldman_share C (dk_node_id ses) v commits \<longleftrightarrow> v = poly_eval F (x_coord C (dk_node_id ses))) \<and>
      (\<forall>R w. F \<noteq> [] \<and> finite R \<and> length F \<le> card R \<and> (\<forall>i\<in>R. verify_feldman_share C i (w i) commits) \<longrightarrow>
        (\<Sum>i\<in>R. w i * lagrange_coeff (x_coord C) R i) = hd F))"
proof (intro conjI allI impI)
  show "is_ok (fst (process_incoming_share C j v commits ses)) \<longleftrightarrow>
      length commits = unat (dk_threshold ses) \<and> verify_feldman_share C (dk_node_id ses) v commits"
    by (simp add: process_incoming_share_def verify_feldman_share_def evaluation_point_x_coord Let_def)
  show "verify_share C st dealer \<lparr>sh_index = dk_node_id ses + 1, sh_value = v\<rparr> \<longleftrightarrow>
      verify_feldman_share C (dk_node_id ses) v commits"
    by (rule verify_share_feldman [OF cmt])
next
  fix F
  assume F: "commits = map (g2_mul C (g2_generator C)) F"
  show "verify_feldman_share C (dk_node_id ses) v commits \<longleftrightarrow> v = poly_eval F (x_coord C (dk_node_id ses))"
    unfolding F by (rule verify_feldman_share_iff [OF C])
  fix R w
  assume "F \<noteq> [] \<and> finite R \<and> length F \<le> card R \<and> (\<forall>i\<in>R. verify_feldman_share C i (w i) commits)"
  then show "(\<Sum>i\<in>R. w i * lagrange_coeff (x_coord C) R i) = hd F"
    unfolding F by (intro feldman.accepted_interpolate [OF C]) auto
qed

definition sample_dealing :: "(rat, rat) multi_dealer_dkg" where
  "sample_dealing = snd (deal rat_line (\<lambda>k. if k = 0 then 3 else 4) 2 (multi_dealer_new 4 2))"

lemma sample_dealing_commitments:
  "fmlookup (md_commitments sample_dealing) 2 = Some \<lparr>cm_dealer = 2, cm_commitments = [3, 4]\<rparr>"
  by (simp add: sample_dealing_def deal_def multi_dealer_new_def feldman_commitments_def random_poly_def
      upt_rec Let_def)

theorem feldman_verifiers_agree_witness:
  "verify_share rat_line sample_dealing 2 \<lparr>sh_index = 1, sh_value = 7\<rparr> \<and>
   verify_feldman_share rat_line 0 7 [3, 4] \<and>
   is_ok (fst (process_incoming_share rat_line 2 7 [3, 4] (dkg_new (\<lambda>k. 0) 0 2 4))) \<and>
   \<not> is_ok (fst (process_incoming_share rat_line 2 7 [3, 4] (dkg_new (\<lambda>k. 0) 0 3 4)))"
proof -
  have ses: "dk_node_id (dkg_new (\<lambda>k. 0) 0 n 4 :: (rat, rat) dkg_session) = 0"
    "dk_threshold (dkg_new (\<lambda>k. 0) 0 n 4 :: (rat, rat) dkg_session) = n" for n by (simp_all add: dkg_new_def)
  note agree = feldman_verifiers_agree [OF rat_line_scalar_laws rat_line_faithful
      sample_dealing_commitments, of 2 7 "dkg_new (\<lambda>k. 0) 0 _ 4", unfolded ses]
  have "[3, 4] = map (g2_mul rat_line (g2_generator rat_line)) [3, 4]" by simp
  from agree [THEN conjunct2, THEN conjunct2, rule_format, OF this, THEN conjunct1]
  have "verify_feldman_share rat_line 0 7 [3, 4] \<longleftrightarrow> 7 = poly_eval [3, 4] (x_coord rat_line 0)" .
  then have "verify_feldman_share rat_line 0 7 [3, 4]" by (simp add: poly_eval_Cons x_coord_def)
  with agree [of 2] agree [of 3] show ?thesis by simp
qed

section \<open>Dealers and complaints\<close>

text \<open>
  C30: Whatever dealers deal and whatever complaints are filed, after the resolution the final share
  of a recipient is the sum over the dealers with at most \<open>t\<close> complaints of their polynomials at
  the recipient's point, and the final shares of any \<open>t\<close> recipients interpolate at zero to the sum
  of those dealers' secrets: a disqualified dealer has no part in the key.
\<close>

theorem disqualified_dealers_do_not_count:
  fixes C :: "('s::field, 'g1::ab_group_add, 'g2::ab_group_add, 'gt) bls" and rnd :: "u32 \<Rightarrow> nat \<Rightarrow> 's"
  assumes C: "scalar_laws C" and t: "0 < t" and cs: "length cs < 2 ^ 32"
    and live: "{d \<in> set ds. complaints_against cs d \<le> unat t} \<noteq> {}"
    and R: "R \<subseteq> {1..n}" "unat t \<le> card R"
  defines "st \<equiv> resolved C rnd n t ds cs"
  shows "(\<forall>r\<in>{1..n}. final_share r st = Some (\<Sum>d\<in>{d \<in> set ds. complaints_against cs d \<le> unat t}.
        poly_eval (random_poly (rnd d) t) (scalar_from_u64 C (ucast r)))) \<and>
    (\<Sum>r\<in>R. the (final_share r st) * lagrange_coeff (\<lambda>r. scalar_from_u64 C (ucast r)) R r) =
      (\<Sum>d\<in>{d \<in> set ds. complaints_against cs d \<le> unat t}. rnd d 0)"
proof
  let ?D = "{d \<in> set ds. complaints_against cs d \<le> unat t}"
  let ?x = "\<lambda>r. scalar_from_u64 C (ucast r)"
  let ?p = "\<lambda>d. random_poly (rnd d) t"
  show shares: "\<forall>r\<in>{1..n}. final_share r st = Some (\<Sum>d\<in>?D. poly_eval (?p d) (?x r))"
  proof
    fix r
    assume r: "r \<in> {1..n}"
    have "final_share r st = (if ?D = {} then None else Some (\<Sum>d\<in>?D. poly_eval (?p d) (?x r)))"
    proof (rule final_share_sum)
      show "fmlookup (md_shares st) (d, r) = (if d \<in> ?D then Some (poly_eval (?p d) (?x r)) else None)" for d
        using r by (simp add: st_def resolved_state [OF cs])
      show "d |\<notin>| md_disqualified st" if "d \<in> ?D" for d
        using that by (simp add: st_def resolved_state [OF cs])
    qed simp
    then show "final_share r st = Some (\<Sum>d\<in>?D. poly_eval (?p d) (?x r))" using live by simp
  qed
  have t': "0 < unat t" using t by (simp add: word_less_nat_alt)
  have x: "inj_on ?x R" by (auto intro!: inj_onI dest!: scalar_from_u64_inj [OF C])
  have R': "finite R" using t' R(2) card.infinite by fastforce
  have "(\<Sum>r\<in>R. the (final_share r st) * lagrange_coeff ?x R r) =
      (\<Sum>r\<in>R. \<Sum>d\<in>?D. poly_eval (?p d) (?x r) * lagrange_coeff ?x R r)"
    using shares R(1) by (intro sum.cong) (auto simp: sum_distrib_right)
  also have "\<dots> = (\<Sum>d\<in>?D. \<Sum>r\<in>R. poly_eval (?p d) (?x r) * lagrange_coeff ?x R r)"
    by (rule sum.swap)
  also have "\<dots> = (\<Sum>d\<in>?D. rnd d 0)"
  proof (rule sum.cong [OF refl])
    fix d
    have "?p d \<noteq> []" "hd (?p d) = rnd d 0" using t' by (simp_all add: random_poly_def upt_conv_Cons)
    then show "(\<Sum>r\<in>R. poly_eval (?p d) (?x r) * lagrange_coeff ?x R r) = rnd d 0"
      using lagrange_poly [OF R' x, of "?p d"] R(2) by simp
  qed
  finally show "(\<Sum>r\<in>R. the (final_share r st) * lagrange_coeff ?x R r) = (\<Sum>d\<in>?D. rnd d 0)" .
qed

theorem disqualified_dealers_do_not_count_witness:
  "map (\<lambda>r. final_share r (resolved rat_line (\<lambda>d k. if k = 0 then 7 else 2) 2 2 [4, 5]
     (replicate 3 \<lparr>cp_from = 3, cp_against = 5, cp_share = \<lparr>sh_index = 3, sh_value = 0\<rparr>\<rparr>))) [1, 2] =
   [Some 9, Some 11]"
proof -
  let ?rnd = "\<lambda>(d :: u32) (k :: nat). if k = 0 then 7 else 2 :: rat"
  let ?cs = "replicate 3 \<lparr>cp_from = 3 :: u32, cp_against = 5 :: u32, cp_share = \<lparr>sh_index = 3 :: u32, sh_value = 0 :: rat\<rparr>\<rparr>"
  have live: "{d \<in> set [4, 5 :: u32]. complaints_against ?cs d \<le> unat (2 :: u32)} = {4}"
    by (auto simp: complaints_against_def)
  have p: "random_poly (?rnd d) 2 = [7, 2]" for d by (simp add: random_poly_def upt_rec)
  have "length ?cs < 2 ^ 32" "{1, 2} \<subseteq> {1..2 :: u32}" "unat (2 :: u32) \<le> card {1, 2 :: u32}" by auto
  from disqualified_dealers_do_not_count [OF rat_line_scalar_laws _ this(1) _ this(2,3), of "[4, 5]" ?rnd]
  have "\<forall>r\<in>{1..2}. final_share r (resolved rat_line ?rnd 2 2 [4, 5] ?cs) =
      Some (poly_eval [7, 2] (scalar_from_u64 rat_line (ucast r)))"
    unfolding live p by simp
  then show ?thesis by (simp add: poly_eval_Cons)
qed

section \<open>Proofs of knowledge\<close>

text \<open>
  C40: A proof made with the secret verifies. Two proofs with the same nonce that verify under
  challenges which differ, as two hash functions give them, determine the secret: the commitment is
  the base times the quotient of the differences.
\<close>

theorem schnorr_complete_and_extractable:
  fixes C :: "('s::field, 'g1::ab_group_add, 'g2::ab_group_add, 'gt) bls"
  assumes C: "scalar_laws C"
    and v: "schnorr_verify C h base Y \<lparr>sp_R = R, sp_s = s\<rparr>"
    and v': "schnorr_verify C h' base Y \<lparr>sp_R = R, sp_s = s'\<rparr>"
    and ne: "challenge C h base Y R \<noteq> challenge C h' base Y R"
  shows "Y = g2_mul C base ((s - s') / (challenge C h base Y R - challenge C h' base Y R)) \<and>
    (\<forall>r secret. schnorr_verify C h base (fst (schnorr_prove C h r base secret))
       (snd (schnorr_prove C h r base secret)))"
proof
  show "Y = g2_mul C base ((s - s') / (challenge C h base Y R - challenge C h' base Y R))"
    using v v' by (intro schnorr_extract [OF C _ _ ne, of base s R Y s']) (simp_all add: schnorr_verify_def Let_def)
qed (simp add: schnorr_complete [OF C])

theorem schnorr_complete_and_extractable_witness:
  "schnorr_verify rat_line (\<lambda>bs. [1]) 1 (fst (schnorr_prove rat_line (\<lambda>bs. [1]) 5 1 3))
     (snd (schnorr_prove rat_line (\<lambda>bs. [1]) 5 1 3))"
proof -
  have c: "challenge rat_line (\<lambda>bs. h) 1 3 5 = of_nat (be_value (h @ replicate 32 0))" for h
    by (simp add: challenge_def)
  have zeros: "be_value (h @ replicate k 0) = be_value h * 256 ^ k" for h k
    by (induction k) (simp_all add: replicate_append_same [symmetric] append_assoc [symmetric] del: append_assoc)
  have ch: "challenge rat_line (\<lambda>bs. [1]) 1 3 5 = 256 ^ 32" "challenge rat_line (\<lambda>bs. [2]) 1 3 5 = 2 * 256 ^ 32"
    unfolding c zeros by (simp_all add: be_value_def)
  show ?thesis
    using schnorr_complete_and_extractable [OF rat_line_scalar_laws, of "\<lambda>bs. [1]" 1 3 5 "5 + 256 ^ 32 * 3"
        "\<lambda>bs. [2]" "5 + 2 * 256 ^ 32 * 3"]
    by (simp add: schnorr_verify_def ch)
qed

section \<open>Simulated threshold signatures\<close>

text \<open>
  C39: Shares that distinct nodes sign with dealt keys aggregate, from the threshold on, to a
  signature that the group key verifies; fewer are refused. The signature verifies for every
  message with the same first 32 bytes, as the code does not hash the message.
\<close>

theorem frost_signatures_verify:
  fixes C :: "('s::field, 'g1::ab_group_add, 'g2::ab_group_add, 'gt) bls" and msg :: bytes
  assumes C: "scalar_laws C" "pairing_laws C" and t: "0 < t"
    and dealt: "trusted_dealer C rnd t n = Some (pk, keys)"
    and ids: "distinct ids" "set ids \<subseteq> fset (fmdom keys)"
  defines "shares \<equiv> map (\<lambda>i. frost_sign C msg (the (fmlookup keys i))) ids"
  shows "frost_aggregate C shares t =
      Some (if length ids < unat t then Err NOT_ENOUGH_SHARES else Ok (g1_mul C (frost_point C msg) (rnd 0))) \<and>
    verify_group_signature C msg (g1_mul C (frost_point C msg) (rnd 0)) pk \<and>
    (\<forall>tail. 32 \<le> length msg \<longrightarrow>
       verify_group_signature C (msg @ tail) (g1_mul C (frost_point C msg) (rnd 0)) pk)"
proof -
  let ?F = "map rnd [0..<unat t]" let ?H = "frost_point C msg"
  have t': "0 < unat t" using t by (simp add: word_less_nat_alt)
  then have F: "?F \<noteq> []" "length ?F \<le> unat t" "hd ?F = rnd 0"
    by simp_all (simp add: upt_conv_Cons)
  have key: "fk_node_id (the (fmlookup keys i)) = i \<and>
      fk_secret_share (the (fmlookup keys i)) = poly_eval ?F (x_coord C i)" if "i \<in> set ids" for i
  proof -
    have "i |\<in>| fmdom keys" using that ids(2) by blast
    then obtain k where "fmlookup keys i = Some k" by (rule fmdomE)
    with trusted_dealer_keys(3) [OF t dealt this] show ?thesis by simp
  qed
  have nodes: "map ss_node_id shares = ids"
    unfolding shares_def by (rule nth_equalityI) (simp_all add: frost_sign_def key)
  have "frost_aggregate C shares t = Some (Ok (g1_mul C ?H (hd ?F)))" if "unat t \<le> length ids"
  proof (rule frost_aggregate_shares [OF C(1)])
    show "distinct (map ss_node_id (take (unat t) shares))"
      using ids(1) by (simp add: nodes take_map [symmetric] distinct_take)
    show "ss_share s = g1_mul C ?H (poly_eval ?F (x_coord C (ss_node_id s)))" if "s \<in> set (take (unat t) shares)" for s
      using in_set_takeD [OF that] key by (auto simp: shares_def frost_sign_def)
  qed (use F that in \<open>simp_all add: shares_def\<close>)
  moreover have "frost_aggregate C shares t = Some (Err NOT_ENOUGH_SHARES)" if "length ids < unat t"
    using that by (simp add: frost_aggregate_def shares_def)
  moreover have v: "verify_group_signature C m (g1_mul C (frost_point C m) (rnd 0)) pk" for m
    using C(2) trusted_dealer_keys(1) [OF t dealt] by (simp add: verify_group_signature_def pairing_laws_def)
  moreover have "verify_group_signature C (msg @ tail) (g1_mul C (frost_point C msg) (rnd 0)) pk"
    if "32 \<le> length msg" for tail
  proof -
    have "frost_point C (msg @ tail) = frost_point C msg"
      using that by (simp add: frost_point_def Let_def min_def)
    then show ?thesis using v [of "msg @ tail"] by simp
  qed
  ultimately show ?thesis using F(3) by (cases "length ids < unat t") simp_all
qed

theorem frost_signatures_verify_witness:
  "\<exists>pk keys. trusted_dealer rat_line (\<lambda>k. if k = 0 then 3 else 4) 2 4 = Some (pk, keys) \<and>
    frost_aggregate rat_line (map (\<lambda>i. frost_sign rat_line [7] (the (fmlookup keys i))) [3, 1]) 2 =
      Some (Ok (frost_point rat_line [7] * 3))"
proof -
  obtain keys where k: "trusted_dealer rat_line (\<lambda>k. if k = 0 then 3 else 4) 2 4 =
      Some (g2_mul rat_line (g2_generator rat_line) 3, keys)"
    using trusted_dealer_total [of 2 rat_line "\<lambda>k. if k = 0 then 3 else 4" 4] by auto
  have "set (node_range 4) = {0, 1, 2, 3}" by (simp add: node_range_def upt_rec) 
  then have "set [3, 1] \<subseteq> fset (fmdom keys)"
    using trusted_dealer_keys(2) [OF _ k] by simp
  from frost_signatures_verify [OF rat_line_scalar_laws rat_line_pairing_laws _ k _ this, of "[7]"] k
  show ?thesis by fastforce
qed

end
