(* ===== verification/Launch.thy ===== *)
theory Launch
  imports Bootstrap Text
begin

text \<open>
  How the node starts: \<open>NodeConfig::from_env\<close> of \<open>main.rs\<close>, the choice of the log file in
  \<open>PbftState::new\<close>, and the repeated attempts to deliver a share.
  The environment is a map from names to values; the parser of socket addresses is a parameter.
  The lemmas show that printed numbers parse back, what an empty environment configures, which
  peers share an address and when the attempts deliver.
\<close>

section \<open>Unsigned integers\<close>

datatype parse_int_error = Empty | Invalid_Digit | Pos_Overflow

fun parse_digits :: "nat \<Rightarrow> str \<Rightarrow> nat \<Rightarrow> (parse_int_error, nat) result" where
  "parse_digits limit [] result = Ok result"
| "parse_digits limit (c # cs) result =
     (if \<not> (48 \<le> c \<and> c \<le> 57) then Err Invalid_Digit
      else if limit \<le> result * 10 + (unat c - 48) then Err Pos_Overflow
      else parse_digits limit cs (result * 10 + (unat c - 48)))"

text \<open>\<open>str::parse\<close> of an unsigned integer below \<open>limit\<close>: a plus sign may come first.\<close>

definition parse_unsigned :: "nat \<Rightarrow> str \<Rightarrow> (parse_int_error, nat) result" where
  "parse_unsigned limit s =
     (case s of
        [] \<Rightarrow> Err Empty
      | c # cs \<Rightarrow>
          (if (c = 43 \<or> c = 45) \<and> cs = [] then Err Invalid_Digit
           else if c = 43 then parse_digits limit cs 0
           else parse_digits limit s 0))"

section \<open>The configuration\<close>

type_synonym environment = "str \<Rightarrow> str option"

definition env_or :: "environment \<Rightarrow> str \<Rightarrow> str \<Rightarrow> str" where
  "env_or e name fallback = (case e name of None \<Rightarrow> fallback | Some v \<Rightarrow> v)"

datatype config_error = PARSE_INT parse_int_error | PARSE_ADDR

record 'addr node_settings = node_config +
  ns_bind_addr :: 'addr
  ns_peer_map :: "(u32, 'addr) fmap"
  ns_wal_path :: str
  ns_dkg_timeout_secs :: u64

text \<open>The loop over the peers: the port is 16 bits wide and wraps.\<close>

fun peer_map_loop :: "(str \<Rightarrow> 'addr option) \<Rightarrow> u32 list \<Rightarrow> (u32, 'addr) fmap \<Rightarrow>
    (config_error, (u32, 'addr) fmap) result" where
  "peer_map_loop parse_addr [] peers = Ok peers"
| "peer_map_loop parse_addr (i # is) peers =
     (let port = 8000 + (ucast i :: 16 word) in
      case parse_addr (ascii ''127.0.0.1:'' @ dec_string (unat port)) of
        None \<Rightarrow> Err PARSE_ADDR
      | Some addr \<Rightarrow> peer_map_loop parse_addr is (fmupd i addr peers))"

definition from_env :: "(str \<Rightarrow> 'addr option) \<Rightarrow> environment \<Rightarrow>
    (config_error, 'addr node_settings) result" where
  "from_env parse_addr e =
     (case parse_unsigned (2 ^ 32) (env_or e (ascii ''NODE_ID'') (ascii ''0'')) of
        Err x \<Rightarrow> Err (PARSE_INT x)
      | Ok node_id \<Rightarrow>
     (case parse_unsigned (2 ^ 64) (env_or e (ascii ''TOTAL_NODES'') (ascii ''4'')) of
        Err x \<Rightarrow> Err (PARSE_INT x)
      | Ok nodes \<Rightarrow>
     (case parse_unsigned (2 ^ 64) (env_or e (ascii ''THRESHOLD'') (ascii ''3'')) of
        Err x \<Rightarrow> Err (PARSE_INT x)
      | Ok thr \<Rightarrow>
     (case parse_addr (env_or e (ascii ''BIND_ADDR'')
             (ascii ''127.0.0.1:'' @ dec_string (unat (8000 + word_of_nat node_id :: u32)))) of
        None \<Rightarrow> Err PARSE_ADDR
      | Some bind_addr \<Rightarrow>
     (let wal_path = env_or e (ascii ''WAL_PATH'')
            (ascii ''consensus_wal_node_'' @ dec_string node_id @ ascii ''.log'') in
      case parse_unsigned (2 ^ 64) (env_or e (ascii ''DKG_TIMEOUT_SECS'') (ascii ''15'')) of
        Err x \<Rightarrow> Err (PARSE_INT x)
      | Ok dkg_timeout_secs \<Rightarrow>
     (case peer_map_loop parse_addr
             (map word_of_nat [0..<unat (ucast (word_of_nat nodes :: usize) :: u32)]) fmempty of
        Err x \<Rightarrow> Err x
      | Ok peer_map \<Rightarrow>
          Ok \<lparr>nc_node_id = word_of_nat node_id, nc_total_nodes = word_of_nat nodes,
              nc_threshold = word_of_nat thr, ns_bind_addr = bind_addr,
              ns_peer_map = peer_map, ns_wal_path = wal_path,
              ns_dkg_timeout_secs = word_of_nat dkg_timeout_secs\<rparr>))))))"

text \<open>The path that \<open>PbftState::new\<close> gives to the constructor, outside test builds.\<close>

definition pbft_wal_path :: "environment \<Rightarrow> nat \<Rightarrow> str" where
  "pbft_wal_path e pid =
     (case e (ascii ''WAL_PATH'') of
        Some custom_path \<Rightarrow> custom_path
      | None \<Rightarrow> ascii ''consensus_wal_pid_'' @ dec_string pid @ ascii ''.log'')"

section \<open>Sending a share\<close>

text \<open>The task of one share: at most ten attempts. It returns what each attempt wrote.\<close>

fun send_attempts :: "nat \<Rightarrow> send_io list \<Rightarrow> u8 \<Rightarrow> bytes \<Rightarrow> bytes list \<times> bool" where
  "send_attempts attempts [] packet_type payload = ([], False)"
| "send_attempts attempts (io # ios) packet_type payload =
     (if attempts < 10 then
        (case send_framed_message io packet_type payload of
           (Ok _, sent) \<Rightarrow> ([sent], True)
         | (Err _, sent) \<Rightarrow>
             (case send_attempts (attempts + 1) ios packet_type payload of
                (rest, delivered) \<Rightarrow> (sent # rest, delivered)))
      else ([], False))"

section \<open>Lemmas\<close>

lemma parse_digits_append:
  "parse_digits limit (xs @ ys) r =
     (case parse_digits limit xs r of Err e \<Rightarrow> Err e | Ok q \<Rightarrow> parse_digits limit ys q)"
  by (induction xs arbitrary: r) auto

lemma dec_digit:
  assumes "n < 10"
  shows "unat (word_of_nat (48 + n) :: u8) = 48 + n"
  using assms by (simp add: unat_of_nat del: of_nat_add)

lemma parse_dec_string: "n < limit \<Longrightarrow> parse_digits limit (dec_string n) 0 = Ok n"
proof (induction n rule: dec_string.induct)
  case (1 n)
  have d: "48 \<le> (word_of_nat (48 + k) :: u8)" "(word_of_nat (48 + k) :: u8) \<le> 57" if "k < 10" for k
    using dec_digit [OF that] that by (simp_all add: word_le_nat_alt)
  show ?case
  proof (cases "n < 10")
    case True
    then show ?thesis using "1.prems" d dec_digit by (simp add: dec_string.simps [of n] del: of_nat_add)
  next
    case False
    have "n div 10 < limit" using "1.prems" by simp
    then have "parse_digits limit (dec_string (n div 10)) 0 = Ok (n div 10)" by (rule "1.IH" [OF False])
    moreover have "n mod 10 < 10" by simp
    ultimately show ?thesis
      using False "1.prems" d dec_digit [of "n mod 10"]
      by (simp add: dec_string.simps [of n] parse_digits_append del: of_nat_add)
  qed
qed

lemma dec_string_head: "dec_string n = c # cs \<Longrightarrow> 48 \<le> c"
proof (induction n arbitrary: c cs rule: dec_string.induct)
  case (1 n)
  show ?case
  proof (cases "n < 10")
    case True
    then show ?thesis using "1.prems" dec_digit [of n]
      by (auto simp: dec_string.simps [of n] word_le_nat_alt simp del: of_nat_add)
  next
    case False
    obtain c' cs' where e: "dec_string (n div 10) = c' # cs'"
      by (cases "dec_string (n div 10)") (use dec_string.simps [of "n div 10"] in \<open>auto split: if_splits\<close>)
    then show ?thesis using "1.IH" [OF False e] "1.prems" False by (simp add: dec_string.simps [of n])
  qed
qed

lemma parse_unsigned_dec: "n < limit \<Longrightarrow> parse_unsigned limit (dec_string n) = Ok n"
proof -
  assume n: "n < limit"
  obtain c cs where s: "dec_string n = c # cs"
    by (cases "dec_string n") (use dec_string.simps [of n] in \<open>auto split: if_splits\<close>)
  have "c \<noteq> 43" "c \<noteq> 45" using dec_string_head [OF s] by auto
  then show ?thesis using parse_dec_string [OF n] by (simp add: parse_unsigned_def s)
qed

lemma parse_digits_bound: "parse_digits limit s r = Ok n \<Longrightarrow> r < limit \<Longrightarrow> n < limit"
  by (induction limit s r rule: parse_digits.induct) (auto split: if_splits)

lemma parse_unsigned_bound: "parse_unsigned limit s = Ok n \<Longrightarrow> 0 < limit \<Longrightarrow> n < limit"
  by (auto simp: parse_unsigned_def split: list.splits if_splits dest: parse_digits_bound)

text \<open>The peers, under a parser that accepts the loopback addresses.\<close>

definition peer_port :: "u32 \<Rightarrow> 16 word" where
  "peer_port i = 8000 + ucast i"

lemma peer_map_loop_ok:
  assumes "\<And>p. parse_addr (ascii ''127.0.0.1:'' @ dec_string (unat (p :: 16 word))) = Some (loopback p)"
  shows "peer_map_loop parse_addr is m = Ok (fold (\<lambda>i. fmupd i (loopback (peer_port i))) is m)"
  by (induction "is" arbitrary: m) (simp_all add: Let_def assms peer_port_def)

text \<open>Below \<open>2 ^ 16\<close> nodes every peer has a port of its own.\<close>

lemma peer_ports_distinct:
  assumes "unat i < 2 ^ 16" "unat j < 2 ^ 16"
  shows "peer_port i = peer_port j \<longleftrightarrow> i = j"
proof -
  have "unat (ucast k :: 16 word) = unat k" if "unat k < 2 ^ 16" for k :: u32
    using that by (simp add: unsigned_ucast_eq take_bit_nat_eq_self_iff)
  then have "unat (ucast i :: 16 word) = unat (ucast j :: 16 word) \<longleftrightarrow> unat i = unat j"
    using assms by simp
  then have "(ucast i :: 16 word) = ucast j \<longleftrightarrow> unat i = unat j" by (simp only: word_unat_eq_iff)
  then show ?thesis by (simp add: peer_port_def word_unat_eq_iff [of i j])
qed

text \<open>An empty environment configures node 0 of a cluster of four with threshold three.\<close>

lemma from_env_default:
  assumes "\<And>p. parse_addr (ascii ''127.0.0.1:'' @ dec_string (unat (p :: 16 word))) = Some (loopback p)"
  shows "\<exists>cfg. from_env parse_addr (\<lambda>_. None) = Ok cfg \<and> nc_node_id cfg = 0 \<and> nc_total_nodes cfg = 4 \<and>
    nc_threshold cfg = 3 \<and> ns_bind_addr cfg = loopback 8000 \<and> ns_dkg_timeout_secs cfg = 15"
proof -
  have n: "parse_unsigned (2 ^ 32) (ascii ''0'') = Ok 0" "parse_unsigned (2 ^ 64) (ascii ''4'') = Ok 4"
    "parse_unsigned (2 ^ 64) (ascii ''3'') = Ok 3" "parse_unsigned (2 ^ 64) (ascii ''15'') = Ok 15"
    by (simp_all add: parse_unsigned_def ascii_def)
  have "parse_addr (ascii ''127.0.0.1:'' @ dec_string 8000) = Some (loopback 8000)"
    using assms [of 8000] by simp
  then show ?thesis by (simp add: from_env_def env_or_def n [simplified] peer_map_loop_ok [of parse_addr loopback, OF assms])
qed

lemma send_attempts_deliver:
  "snd (send_attempts k ios t payload) \<longleftrightarrow>
     (\<exists>io\<in>set (take (10 - k) ios). fst (send_framed_message io t payload) = Ok ())"
proof (induction ios arbitrary: k)
  case (Cons io ios)
  show ?case
  proof (cases "k < 10")
    case True
    then obtain j where j: "10 - k = Suc j" "10 - (k + 1) = j" by (cases "10 - k") auto
    then show ?thesis using True Cons.IH [of "k + 1"]
      by (cases "send_framed_message io t payload"; cases "fst (send_framed_message io t payload)")
        (auto split: prod.splits)
  qed simp
qed simp

end
