(* ===== verification/Node.thy ===== *)
theory Node
  imports Launch
begin

text \<open>
  \<open>main\<close> of \<open>main.rs\<close> as a process: the configuration from the environment, the listener and the
  broadcaster that run beside it, the pause, the shares it sends, the loop over the channel of
  received shares, and the replica it installs. The events interleave the main task with the
  connections of the listener in any order.
  The lemmas show what a node is in every state it reaches: silent until the replica is installed,
  the result of \<open>bootstrap\<close> on the shares it took from the channel when it is, and stopped otherwise;
  that turns come to rest; and how shares that nobody takes hold every permit of the listener.
\<close>

section \<open>The process\<close>

text \<open>The machine of a node: the curve library and the generator, the environment, the parser of
  addresses, the outcomes of the system calls on each log file, and whether the bind succeeds.\<close>

record ('s, 'g1, 'g2, 'gt, 'addr, 'ip) host =
  ho_curve :: "('s, 'g1, 'g2, 'gt) bls"
  ho_rng :: "nat \<Rightarrow> 's"
  ho_env :: environment
  ho_pid :: nat
  ho_parse_addr :: "str \<Rightarrow> 'addr option"
  ho_ip :: "'addr \<Rightarrow> 'ip"
  ho_files :: "str \<Rightarrow> recovery_io"
  ho_bind_ok :: bool

text \<open>Where the main task is. It has left when it returned an error or panicked; the process ends
  with it.\<close>

datatype ('s, 'g2) main_task =
    Stabilizing
  | Ingesting "('s, 'g2) collection"
  | Serving
  | Exited boot_error

record ('s, 'g1, 'g2, 'addr) process =
  pr_config :: "'addr node_settings"
  pr_env :: environment
  pr_server :: "('s, 'g1, 'g2) server"
  pr_taken :: nat \<comment> \<open>how many shares were taken from the channel\<close>
  pr_dealt :: "(u32 \<times> bytes) list"
  pr_main :: "('s, 'g2) main_task"

abbreviation pr_endpoint :: "('s, 'g1, 'g2, 'addr) process \<Rightarrow> ('s, 'g1, 'g2) endpoint" where
  "pr_endpoint p \<equiv> sv_endpoint (pr_server p)"

definition empty_endpoint :: "('s, 'g1, 'g2) endpoint" where
  "empty_endpoint = \<lparr>e_state = None, e_sk = None, e_tx_pbft = [], e_tx_dkg = []\<rparr>"

definition settings_of :: "'addr node_settings \<Rightarrow> node_config" where
  "settings_of cfg = \<lparr>nc_node_id = nc_node_id cfg, nc_total_nodes = nc_total_nodes cfg,
     nc_threshold = nc_threshold cfg\<rparr>"

text \<open>Up to the pause: a failing bind is logged, and the node goes on without a listener.\<close>

definition process_start ::
  "('s::field, 'g1::ab_group_add, 'g2::ab_group_add, 'gt, 'addr, 'ip) host \<Rightarrow>
    (config_error, ('s, 'g1, 'g2, 'addr) process) result" where
  "process_start H =
     (case from_env (ho_parse_addr H) (ho_env H) of
        Err e \<Rightarrow> Err e
      | Ok config \<Rightarrow>
          Ok \<lparr>pr_config = config,
              pr_env = (ho_env H)(ascii ''WAL_PATH'' := Some (ns_wal_path config)),
              pr_server = start_tcp_listener (ho_curve H) (ho_bind_ok H) (nc_node_id config) (ho_ip H)
                 (ns_peer_map config) [] empty_endpoint,
              pr_taken = 0, pr_dealt = [], pr_main = Stabilizing\<rparr>)"

text \<open>What happens in a process: something at the listener, the end of the pause, a turn of the loop,
  the deadline.\<close>

datatype 'ip node_event =
    Net "'ip listener_event"
  | Stabilized
  | Turn
  | Deadline_Reached

text \<open>After the pause: the session, and the shares it sends.\<close>

definition begin_dkg ::
  "('s::field, 'g1::ab_group_add, 'g2::ab_group_add, 'gt, 'addr, 'ip) host \<Rightarrow>
    ('s, 'g1, 'g2, 'addr) process \<Rightarrow> ('s, 'g1, 'g2, 'addr) process" where
  "begin_dkg H p =
     (let cfg = settings_of (pr_config p);
          ses = dkg_new (ho_rng H) (nc_node_id cfg) (nc_threshold cfg) (nc_total_nodes cfg) in
      case dealer_secret_key ses of
        Err e \<Rightarrow> p\<lparr>pr_main := Exited (DKG_ERR e)\<rparr>
      | Ok dealer_sk \<Rightarrow>
          p\<lparr>pr_dealt := dealer_sends (ho_curve H) cfg ses dealer_sk,
            pr_main := Ingesting \<lparr>co_session = ses, co_peers = fmempty\<rparr>\<rparr>)"

text \<open>The replica and the secret share go into the shared state under both locks.\<close>

definition install ::
  "('s::field, 'g1::ab_group_add, 'g2::ab_group_add, 'gt, 'addr, 'ip) host \<Rightarrow> ('s, 'g2) collection \<Rightarrow>
    ('s, 'g1, 'g2, 'addr) process \<Rightarrow> ('s, 'g1, 'g2, 'addr) process" where
  "install H co p =
     (case conclude (ho_curve H) (ho_files H (pbft_wal_path (pr_env p) (ho_pid H)))
             (settings_of (pr_config p)) co of
        Err e \<Rightarrow> p\<lparr>pr_main := Exited e\<rparr>
      | Ok (my_secret_share, st) \<Rightarrow>
          p\<lparr>pr_server := (pr_server p)\<lparr>sv_endpoint :=
               (pr_endpoint p)\<lparr>e_state := Some st, e_sk := Some my_secret_share\<rparr>\<rparr>,
            pr_main := Serving\<rparr>)"

text \<open>One turn: the loop ends with enough peers, and waits when the channel is empty.\<close>

definition ingest_turn ::
  "('s::field, 'g1::ab_group_add, 'g2::ab_group_add, 'gt, 'addr, 'ip) host \<Rightarrow> ('s, 'g2) collection \<Rightarrow>
    ('s, 'g1, 'g2, 'addr) process \<Rightarrow> ('s, 'g1, 'g2, 'addr) process" where
  "ingest_turn H co p =
     (if unat (nc_total_nodes (pr_config p) - 1) \<le> hm_len (co_peers co) then install H co p
      else if pr_taken p < length (e_tx_dkg (pr_endpoint p)) then
        p\<lparr>pr_taken := Suc (pr_taken p),
          pr_main := Ingesting (collect_share (ho_curve H) (settings_of (pr_config p))
            (e_tx_dkg (pr_endpoint p) ! pr_taken p) co)\<rparr>
      else p)"

text \<open>The deadline ends the loop only where it still waits for peers.\<close>

definition ingest_deadline ::
  "('s, 'g2) collection \<Rightarrow> ('s, 'g1, 'g2, 'addr) process \<Rightarrow> ('s, 'g1, 'g2, 'addr) process" where
  "ingest_deadline co p =
     (if unat (nc_total_nodes (pr_config p) - 1) \<le> hm_len (co_peers co) then p
      else p\<lparr>pr_main := Exited (FATAL_DKG_TIMEOUT (missing_peers (settings_of (pr_config p)) co))\<rparr>)"

text \<open>The listener and its connections, on the endpoint of the process.\<close>

definition listen ::
  "('s::field, 'g1::ab_group_add, 'g2::ab_group_add, 'gt, 'addr, 'ip) host \<Rightarrow> 'ip listener_event \<Rightarrow>
    ('s, 'g1, 'g2, 'addr) process \<Rightarrow> ('s, 'g1, 'g2, 'addr) process" where
  "listen H ev p = p\<lparr>pr_server :=
     listener_step (ho_curve H, nc_node_id (pr_config p), ho_ip H |`| fmran (ns_peer_map (pr_config p)))
       ev (pr_server p)\<rparr>"

definition CHANNEL_CAPACITY :: nat where "CHANNEL_CAPACITY = 256"

text \<open>The share a connection sends on the channel of shares, if its stream carries one.\<close>

definition share_of :: "('s, 'g1, 'g2, 'gt) bls \<Rightarrow> bytes \<Rightarrow> ('s, 'g1, 'g2) dkg_share_message option" where
  "share_of C stream =
     (case parse_frame stream of
        Err _ \<Rightarrow> None
      | Ok (packet_type, payload) \<Rightarrow>
          if packet_type = PACKET_TYPE_DKG
          then (case dkg_from_bytes C payload of Err _ \<Rightarrow> None | Ok m \<Rightarrow> Some m)
          else None)"

text \<open>A connection that sends on the full channel waits, and keeps its permit.\<close>

fun waits ::
  "('s, 'g1, 'g2, 'gt, 'addr, 'ip) host \<Rightarrow> 'ip listener_event \<Rightarrow> ('s, 'g1, 'g2, 'addr) process \<Rightarrow> bool" where
  "waits H (Serve k io) p \<longleftrightarrow> k < length (sv_open (pr_server p)) \<and>
     CHANNEL_CAPACITY \<le> length (e_tx_dkg (pr_endpoint p)) - pr_taken p \<and>
     share_of (ho_curve H) (sv_open (pr_server p) ! k) \<noteq> None"
| "waits H _ p \<longleftrightarrow> False"

definition serve_net ::
  "('s::field, 'g1::ab_group_add, 'g2::ab_group_add, 'gt, 'addr, 'ip) host \<Rightarrow> 'ip listener_event \<Rightarrow>
    ('s, 'g1, 'g2, 'addr) process \<Rightarrow> ('s, 'g1, 'g2, 'addr) process" where
  "serve_net H ev p = (if waits H ev p then p else listen H ev p)"

fun process_step ::
  "('s::field, 'g1::ab_group_add, 'g2::ab_group_add, 'gt, 'addr, 'ip) host \<Rightarrow> 'ip node_event \<Rightarrow>
    ('s, 'g1, 'g2, 'addr) process \<Rightarrow> ('s, 'g1, 'g2, 'addr) process" where
  "process_step H (Net ev) p = (case pr_main p of Exited _ \<Rightarrow> p | _ \<Rightarrow> serve_net H ev p)"
| "process_step H Stabilized p = (case pr_main p of Stabilizing \<Rightarrow> begin_dkg H p | _ \<Rightarrow> p)"
| "process_step H Turn p = (case pr_main p of Ingesting co \<Rightarrow> ingest_turn H co p | _ \<Rightarrow> p)"
| "process_step H Deadline_Reached p = (case pr_main p of Ingesting co \<Rightarrow> ingest_deadline co p | _ \<Rightarrow> p)"

definition process_run ::
  "('s::field, 'g1::ab_group_add, 'g2::ab_group_add, 'gt, 'addr, 'ip) host \<Rightarrow> 'ip node_event list \<Rightarrow>
    (config_error, ('s, 'g1, 'g2, 'addr) process) result" where
  "process_run H events =
     (case process_start H of Err e \<Rightarrow> Err e | Ok p \<Rightarrow> Ok (fold (process_step H) events p))"

section \<open>What a process is\<close>

lemma settings_of_fields [simp]:
  "nc_node_id (settings_of cfg) = nc_node_id cfg" "nc_total_nodes (settings_of cfg) = nc_total_nodes cfg"
  "nc_threshold (settings_of cfg) = nc_threshold cfg"
  by (simp_all add: settings_of_def)

lemma handle_connection_tx_dkg:
  "\<exists>out. length out \<le> 1 \<and> e_tx_dkg (snd (handle_connection C io i bs ep)) = e_tx_dkg ep @ out"
  by (auto simp: handle_connection_def on_pbft_packet_def split: sum.splits option.splits prod.splits)

lemma handle_connection_silent:
  "e_state ep = None \<Longrightarrow> snd (handle_connection C io i bs ep) = ep \<or>
    (\<exists>m. snd (handle_connection C io i bs ep) = ep\<lparr>e_tx_dkg := e_tx_dkg ep @ [m]\<rparr>)"
  by (auto simp: handle_connection_def on_pbft_packet_def split: sum.splits)

text \<open>The session a process begins with, and what its loop has made of the shares it took.\<close>

abbreviation first_session :: "('s, 'g1, 'g2, 'gt, 'addr, 'ip) host \<Rightarrow> node_config \<Rightarrow> ('s, 'g2) dkg_session" where
  "first_session H cfg \<equiv> dkg_new (ho_rng H) (nc_node_id cfg) (nc_threshold cfg) (nc_total_nodes cfg)"

abbreviation pr_shares :: "('s, 'g1, 'g2, 'addr) process \<Rightarrow> ('s, 'g1, 'g2) inbound list" where
  "pr_shares p \<equiv> map Share (take (pr_taken p) (e_tx_dkg (pr_endpoint p)))"

abbreviation pr_settings :: "('s, 'g1, 'g2, 'addr) process \<Rightarrow> node_config" where
  "pr_settings p \<equiv> settings_of (pr_config p)"

abbreviation own_sends :: "('s::field, 'g1::ab_group_add, 'g2::ab_group_add, 'gt, 'addr, 'ip) host \<Rightarrow> node_config \<Rightarrow>
    (u32 \<times> bytes) list" where
  "own_sends H cfg \<equiv> dealer_sends (ho_curve H) cfg (first_session H cfg) (hd (dk_secret_polynomial (first_session H cfg)))"

definition silent :: "('s, 'g1, 'g2) endpoint \<Rightarrow> bool" where
  "silent ep \<longleftrightarrow> e_state ep = None \<and> e_sk ep = None \<and> e_tx_pbft ep = []"

text \<open>What \<open>bootstrap\<close> gives for the shares the process took, on the log file of its configuration.\<close>

abbreviation pr_bootstrap ::
  "('s::field, 'g1::ab_group_add, 'g2::ab_group_add, 'gt, 'addr, 'ip) host \<Rightarrow>
    ('s, 'g1, 'g2, 'addr) process \<Rightarrow> ('s, 'g1, 'g2) inbound list \<Rightarrow>
    (boot_error, 's \<times> ('g1, 'g2) pbft_state) result" where
  "pr_bootstrap H p rest \<equiv> bootstrap (ho_curve H) (ho_files H (ns_wal_path (pr_config p))) (pr_settings p)
     (ho_rng H) (pr_shares p @ rest)"

definition main_inv ::
  "('s::field, 'g1::ab_group_add, 'g2::ab_group_add, 'gt, 'addr, 'ip) host \<Rightarrow>
    ('s, 'g1, 'g2, 'addr) process \<Rightarrow> bool" where
  "main_inv H p \<longleftrightarrow>
     (case pr_main p of
        Stabilizing \<Rightarrow> silent (pr_endpoint p) \<and> pr_taken p = 0 \<and> pr_dealt p = []
      | Ingesting co \<Rightarrow> silent (pr_endpoint p) \<and> pr_dealt p = own_sends H (pr_settings p) \<and>
          dealer_secret_key (first_session H (pr_settings p)) =
            Ok (hd (dk_secret_polynomial (first_session H (pr_settings p)))) \<and>
          co = fold (collect_share (ho_curve H) (pr_settings p)) (take (pr_taken p) (e_tx_dkg (pr_endpoint p)))
            \<lparr>co_session = first_session H (pr_settings p), co_peers = fmempty\<rparr> \<and>
          (\<forall>rest. collect_loop (ho_curve H) (pr_settings p) (pr_shares p @ rest)
             \<lparr>co_session = first_session H (pr_settings p), co_peers = fmempty\<rparr> =
           collect_loop (ho_curve H) (pr_settings p) rest co)
      | Serving \<Rightarrow> pr_dealt p = own_sends H (pr_settings p) \<and> (\<exists>share st served ep. silent ep \<and> pr_taken p \<le> length (e_tx_dkg ep) \<and>
          pr_bootstrap H p [Deadline] = Ok (share, st) \<and>
          pr_endpoint p = serve_all (ho_curve H) (nc_node_id (pr_config p)) served
            (ep\<lparr>e_state := Some st, e_sk := Some share\<rparr>))
      | Exited e \<Rightarrow> silent (pr_endpoint p) \<and> pr_bootstrap H p [Deadline] = Err e \<and>
          (is_ok (dealer_secret_key (first_session H (pr_settings p))) \<longrightarrow> pr_dealt p = own_sends H (pr_settings p)))"

definition process_inv ::
  "('s::field, 'g1::ab_group_add, 'g2::ab_group_add, 'gt, 'addr, 'ip) host \<Rightarrow>
    ('s, 'g1, 'g2, 'addr) process \<Rightarrow> bool" where
  "process_inv H p \<longleftrightarrow> from_env (ho_parse_addr H) (ho_env H) = Ok (pr_config p) \<and>
     pr_env p (ascii ''WAL_PATH'') = Some (ns_wal_path (pr_config p)) \<and>
     length (sv_open (pr_server p)) \<le> MAX_CONNECTIONS \<and>
     pr_taken p \<le> length (e_tx_dkg (pr_endpoint p)) \<and> main_inv H p"

lemma listener_step_endpoint:
  "sv_endpoint (listener_step (C, i, allowed) ev sv) = sv_endpoint sv \<or>
    (\<exists>io bs. sv_endpoint (listener_step (C, i, allowed) ev sv) = snd (handle_connection C io i bs (sv_endpoint sv)))"
  by (cases ev) (auto split: prod.splits admission.splits)

lemma process_inv_start:
  "process_start H = Ok p \<Longrightarrow> process_inv H p"
  by (auto simp: process_start_def process_inv_def main_inv_def silent_def start_tcp_listener_def
      empty_endpoint_def split: sum.splits)

lemma listen_inv:
  assumes inv: "process_inv H p" and p': "p' = listen H ev p" and alive: "\<forall>e. pr_main p \<noteq> Exited e"
  shows "process_inv H p'"
proof -
  let ?C = "ho_curve H" and ?i = "nc_node_id (pr_config p)"
  have open': "length (sv_open (pr_server p')) \<le> MAX_CONNECTIONS"
    using inv by (simp add: p' listen_def process_inv_def listener.step_inv)
  have same: "pr_config p' = pr_config p" "pr_taken p' = pr_taken p" "pr_main p' = pr_main p"
    "pr_env p' = pr_env p" "pr_dealt p' = pr_dealt p"
    by (simp_all add: p' listen_def)
  have ep: "pr_endpoint p' = pr_endpoint p \<or>
      (\<exists>io bs. pr_endpoint p' = snd (handle_connection ?C io ?i bs (pr_endpoint p)))"
    using listener_step_endpoint by (simp add: p' listen_def)
  then have "\<exists>out. e_tx_dkg (pr_endpoint p') = e_tx_dkg (pr_endpoint p) @ out"
    using handle_connection_tx_dkg by (metis append_Nil2)
  then obtain out where tx: "e_tx_dkg (pr_endpoint p') = e_tx_dkg (pr_endpoint p) @ out" ..
  have quiet: "silent (pr_endpoint p')" if "silent (pr_endpoint p)"
    using ep
  proof
    assume "\<exists>io bs. pr_endpoint p' = snd (handle_connection ?C io ?i bs (pr_endpoint p))"
    then obtain io bs where e: "pr_endpoint p' = snd (handle_connection ?C io ?i bs (pr_endpoint p))" by blast
    show ?thesis using handle_connection_silent [of "pr_endpoint p" ?C io ?i bs] that
      by (auto simp: e silent_def)
  qed (simp add: that)
  have le: "pr_taken p \<le> length (e_tx_dkg (pr_endpoint p))" using inv by (simp add: process_inv_def)
  then have shares: "take (pr_taken p) (e_tx_dkg (pr_endpoint p')) = take (pr_taken p) (e_tx_dkg (pr_endpoint p))"
    by (simp add: tx)
  have m: "main_inv H p" using inv by (simp add: process_inv_def)
  have "main_inv H p'"
  proof (cases "pr_main p")
    case Serving
    then obtain share st served ep0 where d: "pr_dealt p = own_sends H (pr_settings p)" and
      s: "silent ep0" "pr_taken p \<le> length (e_tx_dkg ep0)"
      "pr_bootstrap H p [Deadline] = Ok (share, st)"
      "pr_endpoint p = serve_all ?C ?i served (ep0\<lparr>e_state := Some st, e_sk := Some share\<rparr>)"
      using m by (auto simp: main_inv_def)
    have "\<exists>served'. pr_endpoint p' = serve_all ?C ?i served' (ep0\<lparr>e_state := Some st, e_sk := Some share\<rparr>)"
      using ep
    proof
      assume "\<exists>io bs. pr_endpoint p' = snd (handle_connection ?C io ?i bs (pr_endpoint p))"
      then obtain io bs where "pr_endpoint p' = snd (handle_connection ?C io ?i bs (pr_endpoint p))" by blast
      then show ?thesis by (intro exI [of _ "served @ [(io, bs)]"]) (simp add: s(4))
    qed (intro exI [of _ served], simp add: s(4))
    then show ?thesis using d s(1-3) unfolding main_inv_def same shares Serving by simp blast
  next
    case Stabilizing
    then show ?thesis using m quiet by (simp add: main_inv_def same)
  next
    case (Ingesting co)
    then show ?thesis using m quiet unfolding main_inv_def same shares by simp
  qed (use alive in blast)
  then show ?thesis using inv open' by (simp add: process_inv_def same tx)
qed

lemma serve_net_inv:
  assumes "process_inv H p" "p' = serve_net H ev p" "\<forall>e. pr_main p \<noteq> Exited e"
  shows "process_inv H p'"
  using assms listen_inv [OF assms(1) refl assms(3)] by (simp add: serve_net_def)

lemma bootstrap_loop:
  assumes "dealer_secret_key (first_session H cfg) = Ok sk"
    "collect_loop C cfg events \<lparr>co_session = first_session H cfg, co_peers = fmempty\<rparr> =
      collect_loop C cfg rest co"
  shows "bootstrap C io cfg (ho_rng H) events =
    (case collect_loop C cfg rest co of Err e \<Rightarrow> Err e | Ok co \<Rightarrow> conclude C io cfg co)"
  using assms by (simp add: bootstrap_def Let_def)

lemma begin_dkg_inv:
  assumes inv: "process_inv H p" and m: "pr_main p = Stabilizing"
  shows "process_inv H (begin_dkg H p)"
proof (cases "dealer_secret_key (first_session H (pr_settings p))")
  case (Inl e)
  have "silent (pr_endpoint p)" using inv m by (simp add: process_inv_def main_inv_def)
  then show ?thesis using inv Inl by (simp add: process_inv_def main_inv_def begin_dkg_def bootstrap_def Let_def)
next
  case (Inr sk)
  then have "sk = hd (dk_secret_polynomial (first_session H (pr_settings p)))"
    by (auto simp: dealer_secret_key_def split: list.splits)
  then show ?thesis using inv m Inr by (simp add: process_inv_def main_inv_def begin_dkg_def Let_def)
qed

lemma install_enough:
  assumes inv: "process_inv H p" and m: "pr_main p = Ingesting co"
    and enough: "unat (nc_total_nodes (pr_config p) - 1) \<le> hm_len (co_peers co)"
  shows "install H co p =
    (case pr_bootstrap H p [Deadline] of
       Err e \<Rightarrow> p\<lparr>pr_main := Exited e\<rparr>
     | Ok (share, st) \<Rightarrow>
         p\<lparr>pr_server := (pr_server p)\<lparr>sv_endpoint := (pr_endpoint p)\<lparr>e_state := Some st, e_sk := Some share\<rparr>\<rparr>,
           pr_main := Serving\<rparr>)"
    and "pr_bootstrap H p [Deadline] =
      conclude (ho_curve H) (ho_files H (ns_wal_path (pr_config p))) (pr_settings p) co"
proof -
  let ?C = "ho_curve H" and ?cfg = "pr_settings p"
  have sk: "dealer_secret_key (first_session H ?cfg) = Ok (hd (dk_secret_polynomial (first_session H ?cfg)))"
    and loop: "collect_loop ?C ?cfg (pr_shares p @ [Deadline]) \<lparr>co_session = first_session H ?cfg, co_peers = fmempty\<rparr> =
      collect_loop ?C ?cfg [Deadline] co"
    using inv m by (simp_all add: process_inv_def main_inv_def)
  have "collect_loop ?C ?cfg [Deadline] co = Ok co"
    using enough by (simp add: collect_loop.simps [of ?C ?cfg "[Deadline]"])
  then show b: "pr_bootstrap H p [Deadline] =
      conclude ?C (ho_files H (ns_wal_path (pr_config p))) ?cfg co"
    using bootstrap_loop [OF sk loop] by simp
  have "pbft_wal_path (pr_env p) (ho_pid H) = ns_wal_path (pr_config p)"
    using inv by (simp add: process_inv_def pbft_wal_path_def)
  then show "install H co p =
    (case pr_bootstrap H p [Deadline] of
       Err e \<Rightarrow> p\<lparr>pr_main := Exited e\<rparr>
     | Ok (share, st) \<Rightarrow>
         p\<lparr>pr_server := (pr_server p)\<lparr>sv_endpoint := (pr_endpoint p)\<lparr>e_state := Some st, e_sk := Some share\<rparr>\<rparr>,
           pr_main := Serving\<rparr>)"
    unfolding b by (simp add: install_def)
qed

lemma install_inv:
  assumes inv: "process_inv H p" and m: "pr_main p = Ingesting co"
    and enough: "unat (nc_total_nodes (pr_config p) - 1) \<le> hm_len (co_peers co)"
  shows "process_inv H (install H co p)"
proof (cases "pr_bootstrap H p [Deadline]")
  case (Inl e)
  then have i: "install H co p = p\<lparr>pr_main := Exited e\<rparr>" using install_enough(1) [OF inv m enough] by simp
  show ?thesis unfolding i using inv m Inl by (simp add: process_inv_def main_inv_def)
next
  case (Inr r)
  obtain share st where r: "r = (share, st)" by fastforce
  then have i: "install H co p =
      p\<lparr>pr_server := (pr_server p)\<lparr>sv_endpoint := (pr_endpoint p)\<lparr>e_state := Some st, e_sk := Some share\<rparr>\<rparr>,
        pr_main := Serving\<rparr>"
    using install_enough(1) [OF inv m enough] Inr by simp
  have "\<exists>served. (pr_endpoint p)\<lparr>e_state := Some st, e_sk := Some share\<rparr> =
      serve_all (ho_curve H) (nc_node_id (pr_config p)) served ((pr_endpoint p)\<lparr>e_state := Some st, e_sk := Some share\<rparr>)"
    by (rule exI [of _ "[]"]) simp
  then show ?thesis unfolding i using inv m Inr by (auto simp: process_inv_def main_inv_def r)
qed

lemma ingest_turn_inv:
  assumes inv: "process_inv H p" and m: "pr_main p = Ingesting co"
  shows "process_inv H (ingest_turn H co p)"
proof (cases "unat (nc_total_nodes (pr_config p) - 1) \<le> hm_len (co_peers co)")
  case True
  then show ?thesis using install_inv [OF inv m] by (simp add: ingest_turn_def)
next
  case False
  let ?C = "ho_curve H" and ?cfg = "pr_settings p"
  let ?co0 = "\<lparr>co_session = first_session H ?cfg, co_peers = fmempty\<rparr>"
  let ?tx = "e_tx_dkg (pr_endpoint p)"
  have q: "silent (pr_endpoint p)" "pr_dealt p = own_sends H ?cfg" and
    sk: "dealer_secret_key (first_session H ?cfg) = Ok (hd (dk_secret_polynomial (first_session H ?cfg)))" and
    co: "co = fold (collect_share ?C ?cfg) (take (pr_taken p) ?tx) ?co0" and
    loop: "collect_loop ?C ?cfg (pr_shares p @ rest) ?co0 = collect_loop ?C ?cfg rest co" for rest
    using inv m by (simp_all add: process_inv_def main_inv_def)
  show ?thesis
  proof (cases "pr_taken p < length ?tx")
    case True
    have t: "take (Suc (pr_taken p)) ?tx = take (pr_taken p) ?tx @ [?tx ! pr_taken p]"
      by (rule take_Suc_conv_app_nth [OF True])
    define co' where "co' = collect_share ?C ?cfg (?tx ! pr_taken p) co"
    have "collect_loop ?C ?cfg (pr_shares p @ Share (?tx ! pr_taken p) # rest) ?co0 =
        collect_loop ?C ?cfg rest co'" for rest
      using False loop by (simp add: collect_loop.simps [of ?C ?cfg "Share (?tx ! pr_taken p) # rest"] co'_def)
    moreover have "co' = fold (collect_share ?C ?cfg) (take (Suc (pr_taken p)) ?tx) ?co0"
      by (simp add: t co'_def co)
    ultimately have "main_inv H (ingest_turn H co p)"
      using True False q sk by (simp add: ingest_turn_def main_inv_def t flip: co'_def)
    then show ?thesis using inv True False by (simp add: ingest_turn_def process_inv_def)
  next
    case no: False
    then show ?thesis using inv False by (simp add: ingest_turn_def)
  qed
qed

lemma ingest_deadline_inv:
  assumes inv: "process_inv H p" and m: "pr_main p = Ingesting co"
  shows "process_inv H (ingest_deadline co p)"
proof (cases "unat (nc_total_nodes (pr_config p) - 1) \<le> hm_len (co_peers co)")
  case False
  let ?C = "ho_curve H" and ?cfg = "pr_settings p"
  have "collect_loop ?C ?cfg [Deadline] co = Err (FATAL_DKG_TIMEOUT (missing_peers ?cfg co))"
    using False by (simp add: collect_loop.simps [of ?C ?cfg "[Deadline]"])
  moreover have sk: "dealer_secret_key (first_session H ?cfg) = Ok (hd (dk_secret_polynomial (first_session H ?cfg)))"
    and loop: "collect_loop ?C ?cfg (pr_shares p @ [Deadline]) \<lparr>co_session = first_session H ?cfg, co_peers = fmempty\<rparr> =
      collect_loop ?C ?cfg [Deadline] co" and "silent (pr_endpoint p)"
    using inv m by (simp_all add: process_inv_def main_inv_def)
  ultimately have "pr_bootstrap H p [Deadline] = Err (FATAL_DKG_TIMEOUT (missing_peers ?cfg co))"
    "silent (pr_endpoint p)"
    using bootstrap_loop [OF sk loop] by simp_all
  then show ?thesis using inv m False by (simp add: ingest_deadline_def process_inv_def main_inv_def)
qed (use inv in \<open>simp add: ingest_deadline_def\<close>)

interpretation process: step_system process_step process_inv
proof
  fix H :: "('s::field, 'g1::ab_group_add, 'g2::ab_group_add, 'gt, 'addr, 'ip) host" and ev
    and p :: "('s, 'g1, 'g2, 'addr) process"
  assume inv: "process_inv H p"
  show "process_inv H (process_step H ev p)"
    by (cases ev; cases "pr_main p")
      (use inv serve_net_inv [OF inv refl] begin_dkg_inv [OF inv] ingest_turn_inv [OF inv] ingest_deadline_inv [OF inv] in auto)
qed

section \<open>Turns end\<close>

text \<open>A turn changes nothing, or one share less is waiting, or the loop is over.\<close>

definition turns_left :: "('s, 'g1, 'g2, 'addr) process \<Rightarrow> nat" where
  "turns_left p = (case pr_main p of
     Ingesting _ \<Rightarrow> Suc (length (e_tx_dkg (pr_endpoint p)) - pr_taken p) | _ \<Rightarrow> 0)"

lemma turn_progress:
  "process_step H Turn p = p \<or> turns_left (process_step H Turn p) < turns_left p"
  by (auto simp: turns_left_def ingest_turn_def install_def split: main_task.splits sum.splits)

lemma turns_rest:
  "turns_left p \<le> k \<Longrightarrow>
    process_step H Turn (fold (process_step H) (replicate k Turn) p) = fold (process_step H) (replicate k Turn) p"
proof (induction k arbitrary: p)
  case 0
  then show ?case using turn_progress [of H p] by auto
next
  case (Suc k)
  show ?case
  proof (cases "process_step H Turn p = p")
    case True
    then have "fold (process_step H) (replicate j Turn) p = p" for j by (induction j) simp_all
    then show ?thesis using True by metis
  next
    case False
    then have "turns_left (process_step H Turn p) \<le> k" using turn_progress [of H p] Suc.prems by linarith
    from Suc.IH [OF this] show ?thesis by simp
  qed
qed

lemma turn_rests:
  assumes "process_step H Turn p = p" "pr_main p = Ingesting co"
  shows "\<not> unat (nc_total_nodes (pr_config p) - 1) \<le> hm_len (co_peers co)"
    and "length (e_tx_dkg (pr_endpoint p)) \<le> pr_taken p"
proof -
  have e: "ingest_turn H co p = p" using assms by simp
  have "pr_main (install H co p) \<noteq> Ingesting co" by (simp add: install_def split: sum.splits prod.splits)
  then show less: "\<not> unat (nc_total_nodes (pr_config p) - 1) \<le> hm_len (co_peers co)"
    using e assms(2) by (auto simp: ingest_turn_def)
  have "\<not> pr_taken p < length (e_tx_dkg (pr_endpoint p))"
  proof
    assume "pr_taken p < length (e_tx_dkg (pr_endpoint p))"
    then have "pr_taken (ingest_turn H co p) = Suc (pr_taken p)" using less by (simp add: ingest_turn_def)
    then show False by (simp add: e)
  qed
  then show "length (e_tx_dkg (pr_endpoint p)) \<le> pr_taken p" by simp
qed

lemma stabilized_run:
  assumes "Stabilized \<in> set evs"
  shows "pr_main (fold (process_step H) evs p) \<noteq> Stabilizing"
proof -
  have keep: "pr_main q \<noteq> Stabilizing \<Longrightarrow> pr_main (process_step H ev q) \<noteq> Stabilizing" for ev q
    by (cases ev; cases "pr_main q") (auto simp: serve_net_def listen_def ingest_turn_def ingest_deadline_def install_def split: sum.splits)
  have run: "pr_main q \<noteq> Stabilizing \<Longrightarrow> pr_main (fold (process_step H) es q) \<noteq> Stabilizing" for es q
    by (induction es arbitrary: q) (simp_all add: keep)
  have "pr_main (process_step H Stabilized q) \<noteq> Stabilizing" for q
    by (cases "pr_main q") (auto simp: begin_dkg_def Let_def split: sum.splits)
  moreover obtain xs ys where "evs = xs @ Stabilized # ys" using assms by (auto dest!: split_list)
  ultimately show ?thesis using run by simp
qed

section \<open>A full channel of shares\<close>

text \<open>Nothing takes shares from the channel of a serving process. When it is full and every permit is
  held by a connection that waits to send a share, the process handles nothing any more.\<close>

abbreviation share_channel_full :: "('s, 'g1, 'g2, 'addr) process \<Rightarrow> bool" where
  "share_channel_full p \<equiv> CHANNEL_CAPACITY \<le> length (e_tx_dkg (pr_endpoint p)) - pr_taken p"

definition clogging ::
  "('s, 'g1, 'g2, 'gt, 'addr, 'ip) host \<Rightarrow> ('s, 'g1, 'g2, 'addr) process \<Rightarrow> bool" where
  "clogging H p \<longleftrightarrow> pr_main p = Serving \<and> length (sv_open (pr_server p)) \<le> MAX_CONNECTIONS \<and>
     (\<forall>bs\<in>set (sv_open (pr_server p)). share_of (ho_curve H) bs \<noteq> None) \<and>
     (share_channel_full p \<or> sv_open (pr_server p) = [])"

definition clogged ::
  "('s, 'g1, 'g2, 'gt, 'addr, 'ip) host \<Rightarrow> ('s, 'g1, 'g2, 'addr) process \<Rightarrow> bool" where
  "clogged H p \<longleftrightarrow> clogging H p \<and> length (sv_open (pr_server p)) = MAX_CONNECTIONS"

lemma serve_waits:
  assumes "pr_main p = Serving" "share_channel_full p" and op: "\<forall>bs\<in>set (sv_open (pr_server p)). share_of (ho_curve H) bs \<noteq> None"
  shows "process_step H (Net (Serve k io)) p = p"
proof (cases "k < length (sv_open (pr_server p))")
  case True
  then have "share_of (ho_curve H) (sv_open (pr_server p) ! k) \<noteq> None" using op nth_mem by blast
  then show ?thesis using assms(1,2) True by (simp add: serve_net_def)
next
  case False
  then show ?thesis using assms(1) by (simp add: serve_net_def listen_def)
qed

lemma clogged_step:
  assumes c: "clogged H p"
  shows "clogged H (process_step H ev p) \<and> pr_endpoint (process_step H ev p) = pr_endpoint p"
proof -
  have m: "pr_main p = Serving" and op: "length (sv_open (pr_server p)) = MAX_CONNECTIONS"
    "\<forall>bs\<in>set (sv_open (pr_server p)). share_of (ho_curve H) bs \<noteq> None" and f: "share_channel_full p"
    using c by (auto simp: clogged_def clogging_def MAX_CONNECTIONS_def)
  show ?thesis
  proof (cases ev)
    case (Net e)
    show ?thesis
    proof (cases e)
      case (Accept ip bs)
      then have "process_step H ev p = p"
        using m op(1) by (simp add: Net serve_net_def listen_def admit_def)
      then show ?thesis using c by simp
    next
      case Accept_Failed
      then show ?thesis using m c
        by (auto simp: Net serve_net_def listen_def clogged_def clogging_def)
    next
      case (Serve k io)
      then have "process_step H ev p = p" unfolding Net by (simp only: serve_waits [OF m f op(2)])
      then show ?thesis using c by simp
    qed
  qed (use m c in simp_all)
qed

lemma clogged_later:
  "clogged H p \<Longrightarrow> clogged H (fold (process_step H) evs p) \<and>
    pr_endpoint (fold (process_step H) evs p) = pr_endpoint p"
proof (induction evs arbitrary: p)
  case (Cons ev evs)
  then show ?case using clogged_step [OF Cons.prems, of ev] by (simp del: process_step.simps)
qed simp

lemma clogged_waits:
  assumes c: "clogged H p"
  shows "length (sv_open (pr_server p)) = MAX_CONNECTIONS" "k < MAX_CONNECTIONS \<Longrightarrow> waits H (Serve k io) p"
proof -
  have op: "length (sv_open (pr_server p)) = MAX_CONNECTIONS" "share_channel_full p"
    "\<forall>bs\<in>set (sv_open (pr_server p)). share_of (ho_curve H) bs \<noteq> None" "pr_main p = Serving"
    using c by (auto simp: clogged_def clogging_def MAX_CONNECTIONS_def)
  show "length (sv_open (pr_server p)) = MAX_CONNECTIONS" by (rule op(1))
  assume "k < MAX_CONNECTIONS"
  then have "share_of (ho_curve H) (sv_open (pr_server p) ! k) \<noteq> None" using op(1,3) nth_mem by metis
  then show "waits H (Serve k io) p" using op \<open>k < MAX_CONNECTIONS\<close> by simp
qed

text \<open>A share that arrives again and again clogs the process.\<close>

abbreviation flood :: "nat \<Rightarrow> 'ip \<Rightarrow> bytes \<Rightarrow> handler_io \<Rightarrow> 'ip node_event list" where
  "flood n ip s io \<equiv> concat (replicate n [Net (Accept ip s), Net (Serve 0 io)])"

definition room :: "('s, 'g1, 'g2, 'addr) process \<Rightarrow> nat" where
  "room p = (CHANNEL_CAPACITY - (length (e_tx_dkg (pr_endpoint p)) - pr_taken p)) +
     (MAX_CONNECTIONS - length (sv_open (pr_server p)))"

lemma share_of_handled:
  assumes "share_of C bs = Some m"
  shows "handle_connection C io i bs ep = (Ok (), ep\<lparr>e_tx_dkg := e_tx_dkg ep @ [m]\<rparr>)"
  using assms by (auto simp: share_of_def handle_connection_def split: sum.splits if_splits)

lemma flood_step:
  fixes io :: handler_io
  assumes c: "clogging H p" "sv_error (pr_server p) = None" and le: "pr_taken p \<le> length (e_tx_dkg (pr_endpoint p))"
    and ip: "ip |\<in>| ho_ip H |`| fmran (ns_peer_map (pr_config p))" and s: "share_of (ho_curve H) s = Some m"
  defines "q \<equiv> process_step H (Net (Serve 0 io)) (process_step H (Net (Accept ip s)) p)"
  shows "clogging H q \<and> sv_error (pr_server q) = None \<and> pr_taken q \<le> length (e_tx_dkg (pr_endpoint q)) \<and>
    pr_config q = pr_config p \<and> e_state (pr_endpoint q) = e_state (pr_endpoint p) \<and> room q \<le> room p - 1"
proof -
  have m: "pr_main p = Serving" using c by (simp add: clogging_def)
  show ?thesis
  proof (cases "length (sv_open (pr_server p)) = MAX_CONNECTIONS")
    case True
    then have "clogged H p" using c by (simp add: clogged_def)
    then have "share_channel_full p" by (auto simp: clogged_def clogging_def MAX_CONNECTIONS_def)
    moreover have acc: "process_step H (Net (Accept ip s)) p = p"
      using m True by (simp add: serve_net_def listen_def admit_def)
    moreover have "process_step H (Net (Serve 0 io)) p = p"
      by (rule serve_waits [OF m \<open>share_channel_full p\<close>]) (use c(1) in \<open>simp add: clogging_def\<close>)
    ultimately show ?thesis using c le True by (simp add: q_def room_def del: process_step.simps)
  next
    case False
    then have less: "length (sv_open (pr_server p)) < MAX_CONNECTIONS" using c(1) by (simp add: clogging_def)
    let ?p = "p\<lparr>pr_server := (pr_server p)\<lparr>sv_open := sv_open (pr_server p) @ [s]\<rparr>\<rparr>"
    have acc: "process_step H (Net (Accept ip s)) p = ?p"
      using m less c(2) ip by (simp add: serve_net_def listen_def admit_def)
    show ?thesis
    proof (cases "share_channel_full p")
      case True
      have "share_of (ho_curve H) ((sv_open (pr_server p) @ [s]) ! 0) \<noteq> None"
        using c(1) s by (cases "sv_open (pr_server p)") (auto simp: clogging_def)
      then have "process_step H (Net (Serve 0 io)) ?p = ?p"
        using m True by (simp add: serve_net_def)
      then show ?thesis using c le less True s unfolding q_def acc by (auto simp: clogging_def room_def)
    next
      case no: False
      then have op: "sv_open (pr_server p) = []" using c(1) by (simp add: clogging_def)
      let ?q = "p\<lparr>pr_server := (pr_server p)\<lparr>sv_endpoint := (pr_endpoint p)\<lparr>e_tx_dkg := e_tx_dkg (pr_endpoint p) @ [m]\<rparr>\<rparr>\<rparr>"
      have "process_step H (Net (Serve 0 io)) ?p = ?q"
        using m no by (simp add: serve_net_def listen_def op share_of_handled [OF s])
      then show ?thesis using c le no op m unfolding q_def acc by (auto simp: clogging_def room_def)
    qed
  qed
qed

lemma flood_run:
  assumes "clogging H p" "sv_error (pr_server p) = None" "pr_taken p \<le> length (e_tx_dkg (pr_endpoint p))"
    "ip |\<in>| ho_ip H |`| fmran (ns_peer_map (pr_config p))" "share_of (ho_curve H) s = Some m" "room p \<le> n"
  shows "clogged H (fold (process_step H) (flood n ip s io) p) \<and>
    e_state (pr_endpoint (fold (process_step H) (flood n ip s io) p)) = e_state (pr_endpoint p)"
  using assms
proof (induction n arbitrary: p)
  case 0
  then show ?case by (simp add: clogged_def clogging_def room_def)
next
  case (Suc n)
  let ?q = "process_step H (Net (Serve 0 io)) (process_step H (Net (Accept ip s)) p)"
  note st = flood_step [OF Suc.prems(1-5), of io]
  have "room ?q \<le> n" using st Suc.prems(6) by (simp del: process_step.simps) linarith
  then have "clogged H (fold (process_step H) (flood n ip s io) ?q) \<and>
      e_state (pr_endpoint (fold (process_step H) (flood n ip s io) ?q)) = e_state (pr_endpoint ?q)"
    by (intro Suc.IH) (use st Suc.prems(4,5) in \<open>simp_all del: process_step.simps\<close>)
  then show ?case using st by (simp del: process_step.simps)
qed

text \<open>Serving the open connections that can be served leaves none, or only shares that wait.\<close>

lemma drain_run:
  assumes "process_inv H p" "pr_main p = Serving" "sv_error (pr_server p) = None"
  shows "\<exists>ks q. length ks \<le> length (sv_open (pr_server p)) \<and>
    q = fold (process_step H) (map (\<lambda>k. Net (Serve k io)) ks) p \<and>
    clogging H q \<and> process_inv H q \<and> sv_error (pr_server q) = None \<and> pr_config q = pr_config p"
  using assms
proof (induction "length (sv_open (pr_server p))" arbitrary: p rule: less_induct)
  case less
  let ?open = "sv_open (pr_server p)"
  show ?case
  proof (cases "clogging H p")
    case True
    then show ?thesis using less.prems by (intro exI [of _ "[]"]) auto
  next
    case False
    have bound: "length ?open \<le> MAX_CONNECTIONS" using less.prems(1) by (simp add: process_inv_def)
    obtain k where k: "k < length ?open"
      "\<not> (share_channel_full p \<and> share_of (ho_curve H) (?open ! k) \<noteq> None)"
    proof (cases "share_channel_full p")
      case True
      then obtain bs where "bs \<in> set ?open" "share_of (ho_curve H) bs = None"
        using False less.prems(2) bound by (auto simp: clogging_def)
      then show ?thesis using that by (auto simp: in_set_conv_nth)
    next
      case no: False
      then have "?open \<noteq> []" using False less.prems(2) bound by (auto simp: clogging_def)
      then show ?thesis using that [of 0] no by simp
    qed
    let ?q = "process_step H (Net (Serve k io)) p"
    have q: "length (sv_open (pr_server ?q)) < length ?open" "pr_main ?q = Serving"
      "sv_error (pr_server ?q) = None" "pr_config ?q = pr_config p"
      using k less.prems(2,3) by (auto simp: serve_net_def listen_def)
    have "process_inv H ?q" by (rule process.step_inv [OF less.prems(1)])
    from less.hyps [OF q(1) this q(2,3)] obtain ks r where "length ks \<le> length (sv_open (pr_server ?q))"
      "r = fold (process_step H) (map (\<lambda>k. Net (Serve k io)) ks) ?q"
      "clogging H r" "process_inv H r" "sv_error (pr_server r) = None" "pr_config r = pr_config ?q" by blast
    then show ?thesis using q(1,4) by (intro exI [of _ "k # ks"] exI [of _ r]) (simp del: process_step.simps)
  qed
qed

end
