(* ===== verification/Deployment.thy ===== *)
theory Deployment
  imports Bootstrap Cluster Pbft_Round
begin

text \<open>
  Replicas joined by their own transport: the outbound broadcasters of \<open>network.rs\<close> carry what the
  replicas queue, \<open>handle_connection\<close> receives it, and the environment may open connections of its
  own. Sends may fail part way. The theory shows that deliveries of whole batches are runs of this
  network, and that a replica whose live peers are fewer than a quorum never prepares: a replica
  counts the votes it hears, and never hears its own.
\<close>

section \<open>The network\<close>

text \<open>The streams that the broadcasters of the replicas in \<open>L\<close> open to \<open>i\<close> for the messages queued in
  \<open>eps\<close>, when the sends have the outcomes \<open>io\<close> (by sender, message and peer). A send that fails leaves
  a prefix of its frame.\<close>

definition inbox ::
  "('s, 'g1, 'g2, 'gt) bls \<Rightarrow> (u32 \<Rightarrow> nat \<Rightarrow> u32 \<Rightarrow> send_io) \<Rightarrow> (u32, 'addr) fmap \<Rightarrow> u32 set \<Rightarrow>
    (u32 \<Rightarrow> ('s, 'g1, 'g2) endpoint) \<Rightarrow> u32 \<Rightarrow> bytes set" where
  "inbox C io peers L eps i =
     {bs. \<exists>j\<in>L. \<exists>addr res. (i, addr, res, bs) \<in>
        set (spawn_outbound_broadcaster C (io j) j peers (e_tx_pbft (eps j)))}"

text \<open>One step: a replica of \<open>L\<close> handles a connection, opened by a broadcaster or by the environment,
  which may open any of \<open>E\<close>.\<close>

inductive net_step ::
  "('s::field, 'g1::ab_group_add, 'g2, 'gt) bls \<Rightarrow> (u32, 'addr) fmap \<Rightarrow> u32 set \<Rightarrow> bytes set \<Rightarrow>
    (u32 \<Rightarrow> ('s, 'g1, 'g2) endpoint) \<Rightarrow> (u32 \<Rightarrow> ('s, 'g1, 'g2) endpoint) \<Rightarrow> bool"
  for C peers L E where
  packet: "i \<in> L \<Longrightarrow> bs \<in> inbox C io peers L eps i \<union> E \<Longrightarrow>
    net_step C peers L E eps (eps(i := snd (handle_connection C h i bs (eps i))))"

inductive_cases net_stepE: "net_step C peers L E eps eps'"

lemma inbox_iff:
  "bs \<in> inbox C io peers L eps i \<longleftrightarrow> fmlookup peers i \<noteq> None \<and>
    (\<exists>j\<in>L - {i}. \<exists>k<length (e_tx_pbft (eps j)).
       bs = snd (send_framed_message (io j k i) PACKET_TYPE_PBFT (pm_to_bytes C (e_tx_pbft (eps j) ! k))))"
proof -
  have out: "(\<exists>j\<in>L. \<exists>addr res. i \<noteq> j \<and> fmlookup peers i = Some addr \<and> Q j res) \<longleftrightarrow>
      fmlookup peers i \<noteq> None \<and> (\<exists>j\<in>L - {i}. \<exists>res. Q j res)" for Q :: "u32 \<Rightarrow> (send_error, unit) result \<Rightarrow> bool"
    by auto
  have inn: "(\<exists>res. \<exists>k<n. (res, bs) = f k) \<longleftrightarrow> (\<exists>k<n. bs = snd (f k))"
    for n and f :: "nat \<Rightarrow> (send_error, unit) result \<times> bytes"
    by (metis snd_conv surjective_pairing)
  show ?thesis unfolding inbox_def mem_Collect_eq broadcaster_targets out inn by (rule refl)
qed

text \<open>The frame of a message.\<close>

definition vote_frame :: "('s, 'g1, 'g2, 'gt) bls \<Rightarrow> 'g1 pbft_message \<Rightarrow> bytes" where
  "vote_frame C m = frame PACKET_TYPE_PBFT (pm_to_bytes C m)"

abbreviation no_loss :: "u32 \<Rightarrow> nat \<Rightarrow> u32 \<Rightarrow> send_io" where
  "no_loss j k i \<equiv> send_io_ok"

lemma inbox_no_loss:
  "fmlookup peers i \<noteq> None \<Longrightarrow>
    inbox C no_loss peers L eps i = vote_frame C ` (\<Union>j\<in>L - {i}. set (e_tx_pbft (eps j)))"
  by (rule set_eqI) (fastforce simp: inbox_iff vote_frame_def in_set_conv_nth)

lemma finite_inbox: "finite L \<Longrightarrow> fmlookup peers i \<noteq> None \<Longrightarrow> finite (inbox C no_loss peers L eps i)"
  by (simp add: inbox_no_loss)

section \<open>Runs of the network\<close>

text \<open>What a node does with a sequence of connections, and all nodes of \<open>L\<close> with theirs.\<close>

definition receive ::
  "('s::field, 'g1::ab_group_add, 'g2, 'gt) bls \<Rightarrow> u32 \<Rightarrow> bytes list \<Rightarrow>
    ('s, 'g1, 'g2) endpoint \<Rightarrow> ('s, 'g1, 'g2) endpoint" where
  "receive C i frames ep = fold (\<lambda>bs ep. snd (handle_connection C handler_io_ok i bs ep)) frames ep"

definition deliver_all ::
  "('s::field, 'g1::ab_group_add, 'g2, 'gt) bls \<Rightarrow> u32 set \<Rightarrow> (u32 \<Rightarrow> bytes list) \<Rightarrow>
    (u32 \<Rightarrow> ('s, 'g1, 'g2) endpoint) \<Rightarrow> u32 \<Rightarrow> ('s, 'g1, 'g2) endpoint" where
  "deliver_all C L fs eps = (\<lambda>i. if i \<in> L then receive C i (fs i) (eps i) else eps i)"

lemma on_pbft_packet_tx:
  "\<exists>out. e_tx_pbft (snd (on_pbft_packet C io i m ep)) = e_tx_pbft ep @ out"
  by (auto simp: on_pbft_packet_def split: option.splits if_splits prod.splits sum.splits)

lemma handle_connection_tx:
  "\<exists>out. e_tx_pbft (snd (handle_connection C io i bs ep)) = e_tx_pbft ep @ out"
  by (auto simp: handle_connection_def on_pbft_packet_tx split: sum.splits)

lemma inbox_mono:
  assumes "\<And>j. j \<in> L \<Longrightarrow> \<exists>out. e_tx_pbft (eps' j) = e_tx_pbft (eps j) @ out"
  shows "inbox C io peers L eps i \<subseteq> inbox C io peers L eps' i"
proof
  fix bs
  assume "bs \<in> inbox C io peers L eps i"
  then obtain j k where j: "fmlookup peers i \<noteq> None" "j \<in> L - {i}" "k < length (e_tx_pbft (eps j))"
    "bs = snd (send_framed_message (io j k i) PACKET_TYPE_PBFT (pm_to_bytes C (e_tx_pbft (eps j) ! k)))"
    by (auto simp: inbox_iff)
  then have k: "k < length (e_tx_pbft (eps' j))" "e_tx_pbft (eps' j) ! k = e_tx_pbft (eps j) ! k"
    using assms [of j] by (auto simp: nth_append)
  then show "bs \<in> inbox C io peers L eps' i"
    unfolding inbox_iff using j(1,4) by (intro conjI bexI [OF _ j(2)] exI [of _ k]) simp_all
qed

lemma receive_reach:
  assumes i: "i \<in> L"
  shows "set fs \<subseteq> inbox C io peers L eps i \<union> E \<Longrightarrow>
    (net_step C peers L E)\<^sup>*\<^sup>* eps (eps(i := receive C i fs (eps i))) \<and>
    (\<exists>out. e_tx_pbft (receive C i fs (eps i)) = e_tx_pbft (eps i) @ out)"
proof (induction fs arbitrary: eps)
  case Nil
  then show ?case by (simp add: receive_def)
next
  case (Cons b fs)
  let ?ep = "snd (handle_connection C handler_io_ok i b (eps i))"
  let ?eps = "eps(i := ?ep)"
  have step: "net_step C peers L E eps ?eps"
    by (rule net_step.packet [OF i, where io = io]) (use Cons.prems in auto)
  obtain out where out: "e_tx_pbft ?ep = e_tx_pbft (eps i) @ out"
    using handle_connection_tx [of C handler_io_ok i b "eps i"] by blast
  have "inbox C io peers L eps i \<subseteq> inbox C io peers L ?eps i"
    by (rule inbox_mono) (use out in auto)
  then have "set fs \<subseteq> inbox C io peers L ?eps i \<union> E" using Cons.prems by auto
  note IH = Cons.IH [OF this]
  have rec: "receive C i (b # fs) (eps i) = receive C i fs (?eps i)" by (simp add: receive_def)
  have eq: "?eps(i := receive C i fs (?eps i)) = eps(i := receive C i (b # fs) (eps i))"
    by (simp only: rec fun_upd_upd)
  have "(net_step C peers L E)\<^sup>*\<^sup>* eps (eps(i := receive C i (b # fs) (eps i)))"
    by (rule converse_rtranclp_into_rtranclp [of "net_step C peers L E", OF step IH [THEN conjunct1, unfolded eq]])
  moreover have "\<exists>out. e_tx_pbft (receive C i (b # fs) (eps i)) = e_tx_pbft (eps i) @ out"
    using IH [THEN conjunct2] out unfolding rec by auto
  ultimately show ?case ..
qed

lemma deliver_all_reach:
  assumes J: "finite J" "J \<subseteq> L" and fs: "\<And>i. i \<in> J \<Longrightarrow> set (fs i) \<subseteq> inbox C io peers L eps i \<union> E"
  shows "(net_step C peers L E)\<^sup>*\<^sup>* eps (deliver_all C J fs eps) \<and>
    (\<forall>j. \<exists>out. e_tx_pbft (deliver_all C J fs eps j) = e_tx_pbft (eps j) @ out)"
  using J fs
proof (induction J rule: finite_induct)
  case empty
  then show ?case by (simp add: deliver_all_def)
next
  case (insert i J)
  let ?eps = "deliver_all C J fs eps"
  have IH: "(net_step C peers L E)\<^sup>*\<^sup>* eps ?eps" "\<forall>j. \<exists>out. e_tx_pbft (?eps j) = e_tx_pbft (eps j) @ out"
    using insert by auto
  have same: "?eps i = eps i" using insert.hyps by (simp add: deliver_all_def)
  have "set (fs i) \<subseteq> inbox C io peers L ?eps i \<union> E"
    using insert.prems(2) [of i] inbox_mono [of L ?eps eps C io peers i] IH(2) by auto
  then have r: "(net_step C peers L E)\<^sup>*\<^sup>* ?eps (?eps(i := receive C i (fs i) (?eps i)))"
    "\<exists>out. e_tx_pbft (receive C i (fs i) (?eps i)) = e_tx_pbft (?eps i) @ out"
    using receive_reach [of i L "fs i" C io peers ?eps E] insert.prems(1) by auto
  have "?eps(i := receive C i (fs i) (?eps i)) = deliver_all C (insert i J) fs eps"
    using insert.hyps by (auto simp: deliver_all_def)
  then show ?case using IH r same rtranclp_trans [OF IH(1) r(1)] by (metis fun_upd_apply)
qed

section \<open>Replicas that hear too few others\<close>

definition env_silent :: "('s, 'g1, 'g2, 'gt) bls \<Rightarrow> bytes set \<Rightarrow> bool" where
  "env_silent C E \<longleftrightarrow> (\<forall>bs\<in>E. \<forall>payload m. parse_frame bs = Ok (PACKET_TYPE_PBFT, payload) \<longrightarrow>
     pm_from_bytes C payload = Ok m \<longrightarrow> pm_phase m \<noteq> Prepare)"

text \<open>A replica that has heard prepare votes of others in \<open>L\<close> only, and has no certificate.\<close>

definition unprepared :: "u32 set \<Rightarrow> u32 \<Rightarrow> 'g1 pbft_core \<Rightarrow> bool" where
  "unprepared L i core \<longleftrightarrow> prepared_certificates core = fmempty \<and> committed_digest core = fmempty \<and>
     (\<forall>k. signers (hm_entry (prepare_votes core) k) \<subseteq> L - {i})"

definition idle_endpoint :: "'g2 pbft_config \<Rightarrow> u32 set \<Rightarrow> u32 \<Rightarrow> ('s, 'g1, 'g2) endpoint \<Rightarrow> bool" where
  "idle_endpoint cfg L i ep \<longleftrightarrow>
     (\<exists>st. e_state ep = Some st \<and> st_config st = cfg \<and> unprepared L i (st_core st)) \<and>
     (\<forall>m\<in>set (e_tx_pbft ep). pm_sender_id m = i \<and> pm_wf m)"

lemma unprepared_certificate: "unprepared L i core \<Longrightarrow> \<not> has_certificate C cfg P s d core"
  by (simp add: unprepared_def has_certificate_def)

lemma signers_empty [simp]: "signers fmempty = {}"
  by (simp add: signers_def)

lemma signers_upd [simp]: "signers (fmupd i x m) = insert i (signers m)"
  by (auto simp: signers_def)

lemma retain_after_certificates:
  "prepared_certificates (retain_after n st) = fmfilter (\<lambda>(_, s). n < s) (prepared_certificates st)"
  "committed_digest (retain_after n st) = fmfilter (\<lambda>(_, s). n < s) (committed_digest st)"
  by (simp_all add: retain_after_def)

lemma unprepared_retain:
  assumes "unprepared L i core"
  shows "unprepared L i (retain_after n core)"
proof -
  have "signers (hm_entry (fmfilter P (prepare_votes core)) k) \<subseteq> L - {i}" for P k
    using assms unfolding unprepared_def hm_entry_filter by (cases "P k") (simp_all only: if_True if_False signers_empty, blast+)
  moreover have "prepared_certificates core = fmempty" "committed_digest core = fmempty"
    using assms by (simp_all add: unprepared_def)
  ultimately show ?thesis by (simp add: unprepared_def retain_after_tables retain_after_certificates cong del: fmfilter_cong)
qed

lemma on_prepare_unprepared:
  assumes u: "unprepared L i core" and L: "finite L" "card (L - {i}) < unat (quorum_size cfg)"
    and s: "pm_sender_id msg \<in> L - {i}" and ok: "on_prepare C cfg msg core = (Ok r, core')"
  shows "unprepared L i core'"
proof -
  let ?sigs = "fmupd (pm_sender_id msg) (pm_signature msg) (hm_entry (prepare_votes core) (proposal_key msg))"
  have all: "\<And>k. signers (hm_entry (prepare_votes core) k) \<subseteq> L - {i}" using u unfolding unprepared_def by blast
  then have sub: "signers ?sigs \<subseteq> L - {i}" using s unfolding signers_upd by blast
  from sub have "card (signers ?sigs) \<le> card (L - {i})" by (rule card_mono [rotated]) (simp add: L)
  then have "\<not> unat (quorum_size cfg) \<le> hm_len ?sigs" using L(2) by (simp only: card_signers)
  then have "core' = core\<lparr>prepare_votes := fmupd (proposal_key msg) ?sigs (prepare_votes core)\<rparr>"
    using ok by (simp add: on_prepare_def Let_def del: hm_len_upd split: if_splits)
  then show ?thesis using u sub by (simp add: unprepared_def)
qed

lemma dispatch_unprepared:
  assumes u: "unprepared L i core" and L: "finite L" "card (L - {i}) < unat (quorum_size cfg)"
    and s: "pm_phase msg = Prepare \<Longrightarrow> pm_sender_id msg \<in> L - {i}"
    and ok: "dispatch C cfg msg core = (Ok r, core')"
  shows "unprepared L i core'"
proof (cases "pm_phase msg")
  case PrePrepare
  then show ?thesis using ok u
    by (auto simp: dispatch_def on_pre_prepare_Ok record_proposal_def raise_to_def unprepared_def)
next
  case Prepare
  then show ?thesis using on_prepare_unprepared [OF u L s] ok by (simp add: dispatch_def)
next
  case Commit
  then show ?thesis using ok on_commit_Ok(3) unprepared_certificate [OF u] by (fastforce simp: dispatch_def)
next
  case ViewChange
  then have v: "on_view_change C cfg msg core = (Ok r, core')" using ok by (simp add: dispatch_def)
  show ?thesis using on_view_change_Ok(3) [OF v] u
    by (auto simp: unprepared_def record_new_view_def raise_to_def record_view_change_def split: if_splits)
next
  case Checkpoint
  then have v: "on_checkpoint cfg msg core = (Ok r, core')" using ok by (simp add: dispatch_def)
  have keep: "unprepared L i (record_checkpoint k j sig core)" for k j sig
    using u by (simp add: unprepared_def record_checkpoint_def)
  have drop: "unprepared L i (retain_after n (c\<lparr>last_stable_checkpoint := n\<rparr>))" if "unprepared L i c" for n c
    using that by (intro unprepared_retain) (simp add: unprepared_def)
  show ?thesis using on_checkpoint_Ok(3) [OF v] keep drop [OF keep] by (simp split: if_splits)
qed

lemma outgoing_sender:
  "outgoing C sk i msg st = Some out \<Longrightarrow> pm_sender_id out = i"
  "outgoing C sk i msg st = Some out \<Longrightarrow> pm_wf msg \<Longrightarrow> pm_wf out"
  by (auto simp: outgoing_def own_vote_def pm_wf_def split: phase.splits if_splits)

lemma on_pbft_packet_idle:
  assumes idle: "idle_endpoint cfg L i ep" and L: "finite L" "card (L - {i}) < unat (quorum_size cfg)"
    and s: "pm_phase msg = Prepare \<Longrightarrow> pm_sender_id msg \<in> L - {i}" and wf: "pm_wf msg"
    and p: "on_pbft_packet C io i msg ep = (res, ep')"
  shows "idle_endpoint cfg L i ep'"
proof -
  obtain st where st: "e_state ep = Some st" "st_config st = cfg" "unprepared L i (st_core st)"
    and tx: "\<forall>m\<in>set (e_tx_pbft ep). pm_sender_id m = i \<and> pm_wf m"
    using idle by (auto simp: idle_endpoint_def)
  obtain res' st' where h: "handle_message C io msg st = (res', st')" by fastforce
  have core: "st_config st' = cfg" "unprepared L i (st_core st')"
    using handle_message_core [OF h] st dispatch_unprepared [OF st(3) L s] by auto
  show ?thesis
    using p st tx h core wf unfolding on_pbft_packet_def idle_endpoint_def
    by (auto split: option.splits if_splits sum.splits simp: outgoing_sender)
qed

lemma handle_connection_idle:
  assumes idle: "idle_endpoint cfg L i ep" and L: "finite L" "card (L - {i}) < unat (quorum_size cfg)"
    and s: "\<And>payload m. parse_frame bs = Ok (PACKET_TYPE_PBFT, payload) \<Longrightarrow>
      pm_from_bytes C payload = Ok m \<Longrightarrow> pm_phase m = Prepare \<Longrightarrow> pm_sender_id m \<in> L - {i}"
  shows "idle_endpoint cfg L i (snd (handle_connection C io i bs ep))"
proof (cases "\<exists>payload m. parse_frame bs = Ok (PACKET_TYPE_PBFT, payload) \<and> pm_from_bytes C payload = Ok m")
  case True
  then obtain payload m where m: "parse_frame bs = Ok (PACKET_TYPE_PBFT, payload)" "pm_from_bytes C payload = Ok m"
    by blast
  have "idle_endpoint cfg L i (snd (on_pbft_packet C io i m ep))"
    using on_pbft_packet_idle [OF idle L s [OF m] pm_from_bytes_wf [OF m(2)], of C io] surjective_pairing by blast
  then show ?thesis using m by (simp add: handle_connection_def PACKET_TYPE_DKG_def PACKET_TYPE_PBFT_def)
next
  case False
  then show ?thesis using idle
    by (auto simp: handle_connection_def idle_endpoint_def split: sum.splits)
qed

lemma net_step_idle:
  assumes C: "g1_codec_laws C" and E: "env_silent C E"
    and L: "finite L" "card L \<le> unat (quorum_size cfg)"
    and step: "net_step C peers L E eps eps'" and idle: "\<forall>i\<in>L. idle_endpoint cfg L i (eps i)"
  shows "\<forall>i\<in>L. idle_endpoint cfg L i (eps' i)"
proof -
  from step obtain i bs io h where i: "i \<in> L" "bs \<in> inbox C io peers L eps i \<union> E"
    "eps' = eps(i := snd (handle_connection C h i bs (eps i)))"
    by cases blast
  have "pm_sender_id m \<in> L - {i}" if m: "parse_frame bs = Ok (PACKET_TYPE_PBFT, payload)"
    "pm_from_bytes C payload = Ok m" "pm_phase m = Prepare" for payload m
  proof (cases "bs \<in> E")
    case True
    then show ?thesis using E m by (auto simp: env_silent_def)
  next
    case False
    then obtain j k n where j: "j \<in> L - {i}" "k < length (e_tx_pbft (eps j))"
      "bs = take n (frame PACKET_TYPE_PBFT (pm_to_bytes C (e_tx_pbft (eps j) ! k)))"
      using i(2) send_framed_message_bytes(2) by (auto simp: inbox_iff) metis
    define m' where "m' = e_tx_pbft (eps j) ! k"
    have "m' \<in> set (e_tx_pbft (eps j))" using j(2) by (simp add: m'_def)
    then have m': "pm_sender_id m' = j" "pm_wf m'" using idle j(1) by (auto simp: idle_endpoint_def)
    have ok: "pm_sendable C m'" by (rule pm_sendableI [OF C m'(2)])
    have "payload = pm_to_bytes C m'"
      using parse_frame_prefix [of "pm_to_bytes C m'" n PACKET_TYPE_PBFT] m(1) length_sendable [OF ok]
      by (simp add: j(3) m'_def)
    then have "m = m'" using m(2) decode_sendable [OF ok, of "[]"] by simp
    then show ?thesis using m' j by simp
  qed
  moreover have "card (L - {i}) < unat (quorum_size cfg)"
    using L i(1) card_Diff1_less [OF L(1) i(1)] by linarith
  ultimately show ?thesis
    using idle i(1,3) handle_connection_idle [of cfg L i "eps i" bs C h, OF _ L(1)] by simp
qed

lemma net_run_idle:
  assumes run: "(net_step C peers L E)\<^sup>*\<^sup>* eps eps'" and C: "g1_codec_laws C" and E: "env_silent C E"
    and L: "finite L" "card L \<le> unat (quorum_size cfg)"
    and idle: "\<forall>i\<in>L. idle_endpoint cfg L i (eps i)"
  shows "\<forall>i\<in>L. idle_endpoint cfg L i (eps' i)"
  using run by induction (use idle net_step_idle [OF C E L] in blast)+

end
