(* ===== verification/Cluster_Round.thy ===== *)
theory Cluster_Round
  imports Deployment
begin

text \<open>
  A round of a whole cluster over its transport, from the bootstrap of every node to the commit at
  every node. The lemmas go from one vote at one replica in the round (\<open>in_round_prepare\<close>,
  \<open>in_round_commit\<close>) to a batch of frames (\<open>receive_votes\<close>), to the round of all replicas
  (\<open>cluster_round\<close>), to the round of the nodes that \<open>bootstrap\<close> returns (\<open>genesis_round\<close>).
\<close>

section \<open>Votes of a round\<close>

text \<open>The vote of replica \<open>i\<close> on a proposal.\<close>

definition vote_on ::
  "('s, 'g1, 'g2, 'gt) bls \<Rightarrow> proposal \<Rightarrow> u32 \<Rightarrow> 's \<Rightarrow> phase \<Rightarrow> 'g1 pbft_message" where
  "vote_on C k i sk ph =
     \<lparr>pm_phase = ph, pm_view = fst k, pm_seq = fst (snd k), pm_digest = snd (snd k), pm_sender_id = i,
      pm_signature = sign_bls_message C (canonical_msg (phase_u8 ph) (fst k) (fst (snd k)) (snd (snd k))) sk\<rparr>"

lemma own_vote_on: "own_vote C sk i ph msg = vote_on C (proposal_key msg) i sk ph"
  by (simp add: own_vote_def vote_on_def proposal_key_def)

lemma vote_on_fields [simp]:
  "pm_phase (vote_on C k i sk ph) = ph" "proposal_key (vote_on C k i sk ph) = k"
  "pm_sender_id (vote_on C k i sk ph) = i"
  by (simp_all add: vote_on_def proposal_key_def)

lemma vote_on_authentic:
  assumes "pairing_laws C" "i |\<in>| registered_nodes cfg"
    "fmlookup (public_keys cfg) i = Some (g2_mul C (g2_generator C) sk)"
  shows "authentic C cfg (vote_on C k i sk ph)"
  using assms by (simp add: vote_auth_def vote_on_def pm_canonical_def sign_verify)

lemma outgoing_vote:
  "outgoing C sk i msg st =
     (if pm_phase msg = PrePrepare then Some (vote_on C (proposal_key msg) i sk Prepare)
      else if pm_phase msg = Prepare \<and>
        hm_contains (prepared_certificates (st_core st)) (pm_view msg, pm_seq msg)
      then Some (vote_on C (proposal_key msg) i sk Commit) else None)"
  by (cases "pm_phase msg") (simp_all add: outgoing_def own_vote_on)

lemma on_pbft_packet_accepts:
  assumes ep: "e_state ep = Some st" "e_sk ep = Some sk" and auth: "authentic C (st_config st) msg"
    and h: "handle_message C io msg st = (Ok r, st')"
  shows "on_pbft_packet C io i msg ep = (Ok (), ep\<lparr>e_state := Some st',
    e_tx_pbft := e_tx_pbft ep @ (case outgoing C sk i msg st' of None \<Rightarrow> [] | Some out \<Rightarrow> [out])\<rparr>)"
  using auth by (auto simp: on_pbft_packet_def ep h vote_auth_def)

definition prepare_signers :: "proposal \<Rightarrow> ('s, 'g1, 'g2) endpoint \<Rightarrow> u32 set" where
  "prepare_signers k ep = signers (hm_entry (prepare_votes (st_core (the (e_state ep)))) k)"

definition commit_signers :: "proposal \<Rightarrow> ('s, 'g1, 'g2) endpoint \<Rightarrow> u32 set" where
  "commit_signers k ep = signers (hm_entry (commit_votes (st_core (the (e_state ep)))) k)"

text \<open>A replica in the round of \<open>k\<close>: it has queued its prepare vote, and, once it has heard a quorum
  of prepare votes, its commit vote.\<close>

definition in_round ::
  "('s::field, 'g1::ab_group_add, 'g2, 'gt) bls \<Rightarrow> 'g2 pbft_config \<Rightarrow> proposal \<Rightarrow> u32 \<Rightarrow> 's \<Rightarrow>
    ('s, 'g1, 'g2) endpoint \<Rightarrow> bool" where
  "in_round C cfg k i sk ep \<longleftrightarrow>
     (\<exists>st. e_state ep = Some st \<and> voting C cfg k st) \<and> e_sk ep = Some sk \<and>
     vote_on C k i sk Prepare \<in> set (e_tx_pbft ep) \<and>
     set (e_tx_pbft ep) \<subseteq> {vote_on C k i sk Prepare, vote_on C k i sk Commit} \<and>
     (unat (quorum_size cfg) \<le> card (prepare_signers k ep) \<longrightarrow>
        vote_on C k i sk Commit \<in> set (e_tx_pbft ep))"

lemma in_round_prepare:
  assumes C: "scalar_laws C" "pairing_laws C" and keys: "keys_from_poly C cfg F"
    and r: "in_round C cfg k i sk ep" and auth: "authentic C cfg msg"
    and msg: "pm_phase msg = Prepare" "proposal_key msg = k"
  shows "\<exists>ep'. on_pbft_packet C handler_io_ok i msg ep = (Ok (), ep') \<and> in_round C cfg k i sk ep' \<and>
    prepare_signers k ep' = insert (pm_sender_id msg) (prepare_signers k ep) \<and>
    commit_signers k ep' = commit_signers k ep"
proof -
  obtain st where st: "e_state ep = Some st" "voting C cfg k st" "e_sk ep = Some sk"
    using r by (auto simp: in_round_def)
  obtain res st' where h: "handle_message C handler_io_ok msg st = (Ok res, st')" "voting C cfg k st'"
    "prepare_votes (st_core st') = add_vote k (pm_sender_id msg) (pm_signature msg) (prepare_votes (st_core st))"
    "commit_votes (st_core st') = commit_votes (st_core st)"
    by (rule prepare_accepted [OF C keys st(2) auth msg])
  define out where "out = (case outgoing C sk i msg st' of None \<Rightarrow> [] | Some out \<Rightarrow> [out])"
  let ?ep = "ep\<lparr>e_state := Some st', e_tx_pbft := e_tx_pbft ep @ out\<rparr>"
  have p: "on_pbft_packet C handler_io_ok i msg ep = (Ok (), ?ep)" unfolding out_def
    by (rule on_pbft_packet_accepts [OF st(1,3) _ h(1)]) (use auth votingD(3) [OF st(2)] in simp)
  have s: "prepare_signers k ?ep = insert (pm_sender_id msg) (prepare_signers k ep)"
    "commit_signers k ?ep = commit_signers k ep"
    by (simp_all add: prepare_signers_def commit_signers_def st h)
  obtain v s d where kk: "k = (v, s, d)" by (cases k)
  have "out = [vote_on C k i sk Commit]" if "unat (quorum_size cfg) \<le> card (prepare_signers k ?ep)"
    using voting_prepared [of C cfg v s d st'] h(2) that msg
    by (auto simp: out_def kk prepare_signers_def card_signers outgoing_vote proposal_key_def)
  moreover have "set out \<subseteq> {vote_on C k i sk Commit}" by (simp add: out_def outgoing_vote msg)
  ultimately have "in_round C cfg k i sk ?ep" using r h(2) unfolding in_round_def endpoint.simps set_append
    by auto
  then show ?thesis using p s by blast
qed

lemma in_round_commit:
  assumes C: "scalar_laws C" "pairing_laws C" and keys: "keys_from_poly C cfg F"
    and r: "in_round C cfg k i sk ep" and auth: "authentic C cfg msg"
    and q: "unat (quorum_size cfg) \<le> card (prepare_signers k ep)"
    and msg: "pm_phase msg = Commit" "proposal_key msg = k"
  shows "\<exists>ep'. on_pbft_packet C handler_io_ok i msg ep = (Ok (), ep') \<and> in_round C cfg k i sk ep' \<and>
    prepare_signers k ep' = prepare_signers k ep \<and>
    commit_signers k ep' = insert (pm_sender_id msg) (commit_signers k ep)"
proof -
  obtain st where st: "e_state ep = Some st" "voting C cfg k st" "e_sk ep = Some sk"
    using r by (auto simp: in_round_def)
  have "unat (quorum_size cfg) \<le> hm_len (hm_entry (prepare_votes (st_core st)) k)"
    using q by (simp add: prepare_signers_def st card_signers)
  from commit_accepted [OF C keys st(2) auth this msg]
  obtain res st' where h: "handle_message C handler_io_ok msg st = (Ok res, st')" "voting C cfg k st'"
    "commit_votes (st_core st') = add_vote k (pm_sender_id msg) (pm_signature msg) (commit_votes (st_core st))"
    "prepare_votes (st_core st') = prepare_votes (st_core st)" by metis
  let ?ep = "ep\<lparr>e_state := Some st'\<rparr>"
  have p: "on_pbft_packet C handler_io_ok i msg ep = (Ok (), ?ep)"
    by (subst on_pbft_packet_accepts [OF st(1,3) _ h(1)])
      (use auth votingD(3) [OF st(2)] msg in \<open>simp_all add: outgoing_vote\<close>)
  have s: "prepare_signers k ?ep = prepare_signers k ep"
    "commit_signers k ?ep = insert (pm_sender_id msg) (commit_signers k ep)"
    by (simp_all add: prepare_signers_def commit_signers_def st h)
  have "in_round C cfg k i sk ?ep" using r h(2) s by (simp add: in_round_def)
  then show ?thesis using p s by blast
qed

text \<open>A vote or proposal of the round that the transport can carry.\<close>

definition round_vote ::
  "('s, 'g1, 'g2, 'gt) bls \<Rightarrow> 'g2 pbft_config \<Rightarrow> proposal \<Rightarrow> 'g1 pbft_message \<Rightarrow> bool" where
  "round_vote C cfg k m \<longleftrightarrow> proposal_key m = k \<and> authentic C cfg m \<and> pm_sendable C m"

lemma receive_votes:
  assumes C: "scalar_laws C" "pairing_laws C" and keys: "keys_from_poly C cfg F"
  shows "in_round C cfg k i sk ep \<Longrightarrow>
    \<forall>m\<in>set ms. round_vote C cfg k m \<and> (pm_phase m = Prepare \<or>
      pm_phase m = Commit \<and> unat (quorum_size cfg) \<le> card (prepare_signers k ep)) \<Longrightarrow>
    in_round C cfg k i sk (receive C i (map (vote_frame C) ms) ep) \<and>
    prepare_signers k (receive C i (map (vote_frame C) ms) ep) =
      prepare_signers k ep \<union> pm_sender_id ` {m \<in> set ms. pm_phase m = Prepare} \<and>
    commit_signers k (receive C i (map (vote_frame C) ms) ep) =
      commit_signers k ep \<union> pm_sender_id ` {m \<in> set ms. pm_phase m = Commit}"
proof (induction ms arbitrary: ep)
  case Nil
  then show ?case by (simp add: receive_def)
next
  case (Cons m ms)
  have m: "proposal_key m = k" "authentic C cfg m" "pm_sendable C m"
    using Cons.prems(2) by (simp_all add: round_vote_def)
  have "\<exists>ep'. on_pbft_packet C handler_io_ok i m ep = (Ok (), ep') \<and> in_round C cfg k i sk ep' \<and>
    prepare_signers k ep' = prepare_signers k ep \<union> (if pm_phase m = Prepare then {pm_sender_id m} else {}) \<and>
    commit_signers k ep' = commit_signers k ep \<union> (if pm_phase m = Commit then {pm_sender_id m} else {})"
  proof (cases "pm_phase m = Prepare")
    case True
    then show ?thesis using in_round_prepare [OF C keys Cons.prems(1) m(2) True m(1)] by auto
  next
    case False
    then have "pm_phase m = Commit" "unat (quorum_size cfg) \<le> card (prepare_signers k ep)"
      using Cons.prems(2) by auto
    then show ?thesis using in_round_commit [OF C keys Cons.prems(1) m(2) _ _ m(1)] by auto
  qed
  then obtain ep' where ep': "on_pbft_packet C handler_io_ok i m ep = (Ok (), ep')" "in_round C cfg k i sk ep'"
    "prepare_signers k ep' = prepare_signers k ep \<union> (if pm_phase m = Prepare then {pm_sender_id m} else {})"
    "commit_signers k ep' = commit_signers k ep \<union> (if pm_phase m = Commit then {pm_sender_id m} else {})"
    by blast
  have fin: "finite (prepare_signers k ep')" 
    by (simp add: prepare_signers_def signers_def flip: fmlookup_dom_iff)
  have "card (prepare_signers k ep) \<le> card (prepare_signers k ep')"
    using ep'(3) by (intro card_mono fin) simp
  then have "\<forall>m\<in>set ms. round_vote C cfg k m \<and> (pm_phase m = Prepare \<or>
      pm_phase m = Commit \<and> unat (quorum_size cfg) \<le> card (prepare_signers k ep'))"
    using Cons.prems(2) by fastforce
  note IH = Cons.IH [OF ep'(2) this]
  have step: "receive C i (map (vote_frame C) (m # ms)) ep = receive C i (map (vote_frame C) ms) ep'"
    using ep'(1) handle_connection_sendable [OF m(3)] by (simp add: receive_def vote_frame_def)
  show ?case unfolding step using IH ep'(3,4) by auto
qed

section \<open>The round of all replicas\<close>

text \<open>A replica with its key share, before the slot of \<open>k\<close> has a proposal.\<close>

definition ready ::
  "('s::field, 'g1::ab_group_add, 'g2, 'gt) bls \<Rightarrow> 'g2 pbft_config \<Rightarrow> proposal \<Rightarrow> 's \<Rightarrow>
    ('s, 'g1, 'g2) endpoint \<Rightarrow> bool" where
  "ready C cfg k sk ep \<longleftrightarrow> e_sk ep = Some sk \<and> e_tx_pbft ep = [] \<and>
     (\<exists>st. e_state ep = Some st \<and> node_inv C st \<and> st_config st = cfg \<and> \<not> wal_failed st \<and>
        current_view (st_core st) = fst k \<and>
        (\<forall>d. (fst k, fst (snd k), d) |\<notin>| pre_prepared_proposals (st_core st)))"

definition leader_proposal ::
  "('s, 'g1, 'g2, 'gt) bls \<Rightarrow> 'g2 pbft_config \<Rightarrow> proposal \<Rightarrow> 'g1 pbft_message \<Rightarrow> bool" where
  "leader_proposal C cfg k pp \<longleftrightarrow> round_vote C cfg k pp \<and> pm_phase pp = PrePrepare \<and>
     pm_sender_id pp = get_expected_leader cfg (fst k)"

lemma receive_proposal:
  assumes r: "ready C cfg k sk ep" and pp: "leader_proposal C cfg k pp"
  shows "in_round C cfg k i sk (receive C i [vote_frame C pp] ep) \<and>
    e_tx_pbft (receive C i [vote_frame C pp] ep) = [vote_on C k i sk Prepare]"
proof -
  obtain v s d where kk: "k = (v, s, d)" by (cases k)
  obtain st where st: "e_state ep = Some st" "node_inv C st" "st_config st = cfg" "\<not> wal_failed st"
    "current_view (st_core st) = fst k" "\<forall>d. (fst k, fst (snd k), d) |\<notin>| pre_prepared_proposals (st_core st)"
    and sk: "e_sk ep = Some sk" "e_tx_pbft ep = []"
    using r by (auto simp: ready_def)
  have p: "pm_phase pp = PrePrepare" "pm_sender_id pp = get_expected_leader cfg (fst k)"
    "proposal_key pp = k" "authentic C cfg pp" "pm_sendable C pp"
    using pp by (auto simp: leader_proposal_def round_vote_def)
  obtain st' where h: "handle_message C handler_io_ok pp st = (Ok INBOUND_OK_PREPREPARE, st')" "voting C cfg k st'"
    "prepare_votes (st_core st') = prepare_votes (st_core st)"
    by (rule proposal_accepted [OF st(2-6) p(1-4)])
  have I: "core_inv C cfg (st_core st)" "config_ok cfg" using st(2,3) by (auto simp: node_inv_def)
  then have "voted (pre_prepared_proposals (st_core st)) (prepare_votes (st_core st))"
    by (simp add: core_inv_parts)
  then have none: "hm_entry (prepare_votes (st_core st)) k = fmempty"
    using st(6) unfolding voted_def kk by auto
  let ?ep = "ep\<lparr>e_state := Some st', e_tx_pbft := [vote_on C k i sk Prepare]\<rparr>"
  have "on_pbft_packet C handler_io_ok i pp ep = (Ok (), ?ep)"
    by (subst on_pbft_packet_accepts [OF st(1) sk(1) _ h(1)]) (use p st(3) sk(2) in \<open>simp_all add: outgoing_vote\<close>)
  then have rec: "receive C i [vote_frame C pp] ep = ?ep"
    by (simp add: receive_def vote_frame_def handle_connection_sendable [OF p(5)])
  have "in_round C cfg k i sk ?ep"
    using h I(2) by (simp add: in_round_def sk prepare_signers_def none config_ok_def)
  then show ?thesis by (simp add: rec)
qed

lemma vote_frame_inj:
  fixes m m' :: "'b pbft_message"
  assumes "pm_sendable C m" "pm_sendable C m'" "vote_frame C m = vote_frame C m'"
  shows "m = m'"
proof -
  have "parse_frame (vote_frame C m) = parse_frame (vote_frame C m')" by (simp only: assms(3))
  then have "pm_to_bytes C m = pm_to_bytes C m'"
    by (simp only: vote_frame_def parse_sendable [OF assms(1)] parse_sendable [OF assms(2)] sum.inject prod.inject)
  then have "Ok m = (Ok m' :: (decode_error, 'b pbft_message) result)"
    using decode_sendable [OF assms(1), of "[]"] decode_sendable [OF assms(2), of "[]"] by metis
  then show ?thesis by simp
qed

lemma frames_of_messages:
  assumes S: "\<forall>m\<in>S. pm_sendable C m" and fs: "set fs = vote_frame C ` S"
  obtains ms where "fs = map (vote_frame C) ms" "set ms = S"
proof
  have inj: "inj_on (vote_frame C) S" using S vote_frame_inj by (meson inj_onI)
  show "fs = map (vote_frame C) (map (inv_into S (vote_frame C)) fs)"
    unfolding map_map by (rule map_idI [symmetric]) (simp add: fs [symmetric] f_inv_into_f)
  show "set (map (inv_into S (vote_frame C)) fs) = S" using inj by (simp add: fs image_image)
qed

lemma inbox_votes:
  assumes peers: "fmlookup peers i \<noteq> None"
    and tx: "\<forall>j\<in>R. set (e_tx_pbft (eps j)) = vote_on C k j (sk j) ` phases"
  shows "inbox C no_loss peers R eps i = vote_frame C ` (\<Union>j\<in>R - {i}. vote_on C k j (sk j) ` phases)"
proof -
  have "(\<Union>j\<in>R - {i}. set (e_tx_pbft (eps j))) = (\<Union>j\<in>R - {i}. vote_on C k j (sk j) ` phases)"
    using tx by (intro SUP_cong) auto
  then show ?thesis by (simp only: inbox_no_loss [OF peers])
qed

lemma voters:
  assumes "ph \<in> phases"
  shows "J \<subseteq> pm_sender_id ` {m \<in> (\<Union>j\<in>J. vote_on C k j (sk j) ` phases). pm_phase m = ph}"
  using assms by (intro subsetI, rule_tac x = "vote_on C k x (sk x) ph" in image_eqI) auto

text \<open>A round of \<open>k\<close>: the environment hands the proposal to every replica; then each receives what
  the others have queued, twice, in any order and with repetitions.\<close>

lemma cluster_round:
  fixes C :: "('s::field, 'g1::ab_group_add, 'g2::ab_group_add, 'gt) bls"
  assumes C: "scalar_laws C" "pairing_laws C" and keys: "keys_from_poly C cfg F"
  defines "R \<equiv> fset (registered_nodes cfg)" and "sk \<equiv> \<lambda>i. poly_eval F (x_coord C i)"
  assumes quorum: "unat (quorum_size cfg) < card R"
    and wire: "\<forall>i\<in>R. \<forall>ph. pm_sendable C (vote_on C (v, s, d) i (sk i) ph)"
    and peers: "\<forall>i\<in>R. fmlookup peers i \<noteq> None"
    and start: "\<forall>i\<in>R. ready C cfg (v, s, d) (sk i) (eps0 i)"
    and pp: "leader_proposal C cfg (v, s, d) pp"
    and r1: "eps1 = deliver_all C R (\<lambda>_. [vote_frame C pp]) eps0"
    and r2: "\<forall>i\<in>R. set (ps i) = inbox C no_loss peers R eps1 i" "eps2 = deliver_all C R ps eps1"
    and r3: "\<forall>i\<in>R. set (cs i) = inbox C no_loss peers R eps2 i" "eps3 = deliver_all C R cs eps2"
  shows "(net_step C peers R {vote_frame C pp})\<^sup>*\<^sup>* eps0 eps3"
    and "i \<in> R \<Longrightarrow> \<exists>st. e_state (eps3 i) = Some st \<and> fmlookup (committed_digest (st_core st)) (v, s) = Some d"
proof -
  let ?k = "(v, s, d)" and ?q = "unat (quorum_size cfg)"
  let ?votes = "\<lambda>i phases. \<Union>j\<in>R - {i}. vote_on C (v, s, d) j (sk j) ` phases"
  have fin: "finite R" by (simp add: R_def)
  have reach: "(net_step C peers R {vote_frame C pp})\<^sup>*\<^sup>* eps (deliver_all C R fs eps)"
    if "\<And>i. i \<in> R \<Longrightarrow> set (fs i) \<subseteq> inbox C no_loss peers R eps i \<union> {vote_frame C pp}" for fs eps
    using deliver_all_reach [OF fin order_refl, of fs C no_loss peers eps "{vote_frame C pp}"] that by blast
  have "(net_step C peers R {vote_frame C pp})\<^sup>*\<^sup>* eps0 eps1" unfolding r1 by (rule reach) simp
  also have "(net_step C peers R {vote_frame C pp})\<^sup>*\<^sup>* eps1 eps2" unfolding r2(2) by (rule reach) (use r2(1) in blast)
  also have "(net_step C peers R {vote_frame C pp})\<^sup>*\<^sup>* eps2 eps3" unfolding r3(2) by (rule reach) (use r3(1) in blast)
  finally show "(net_step C peers R {vote_frame C pp})\<^sup>*\<^sup>* eps0 eps3" .
  have others: "?q \<le> card (R - {i})" if "i \<in> R" for i using quorum that fin by simp
  have auth: "authentic C cfg (vote_on C ?k j (sk j) ph)" if "j \<in> R" for j ph
    using that keys by (intro vote_on_authentic [OF C(2)]) (auto simp: R_def sk_def keys_from_poly_def)
  have ok: "\<forall>m\<in>?votes i phases. round_vote C cfg ?k m" "\<forall>m\<in>?votes i phases. pm_sendable C m" for i phases
    using auth wire by (auto simp: round_vote_def)
  have s1: "in_round C cfg ?k i (sk i) (eps1 i)" "e_tx_pbft (eps1 i) = [vote_on C ?k i (sk i) Prepare]"
    if "i \<in> R" for i
    using receive_proposal [OF start [rule_format, OF that] pp, of i] that by (simp_all add: r1 deliver_all_def)
  have t1: "\<forall>j\<in>R. set (e_tx_pbft (eps1 j)) = vote_on C ?k j (sk j) ` {Prepare}" using s1(2) by simp
  have s2: "in_round C cfg ?k i (sk i) (eps2 i) \<and> ?q \<le> card (prepare_signers ?k (eps2 i))" if i: "i \<in> R" for i
  proof -
    have fs: "set (ps i) = vote_frame C ` ?votes i {Prepare}"
      using r2(1) i inbox_votes [OF peers [rule_format, OF i] t1] by simp
    obtain ms where ms: "ps i = map (vote_frame C) ms" "set ms = ?votes i {Prepare}"
      by (rule frames_of_messages [OF ok(2) fs])
    have all: "\<forall>m\<in>set ms. round_vote C cfg ?k m \<and> (pm_phase m = Prepare \<or>
        pm_phase m = Commit \<and> ?q \<le> card (prepare_signers ?k (eps1 i)))"
      unfolding ms(2) using ok(1) by fastforce
    have e2: "eps2 i = receive C i (map (vote_frame C) ms) (eps1 i)" using i ms(1) by (simp add: r2(2) deliver_all_def)
    note heard = receive_votes [OF C keys s1(1) [OF i] all, folded e2]
    have "R - {i} \<subseteq> pm_sender_id ` {m \<in> set ms. pm_phase m = Prepare}"
      unfolding ms(2) by (rule voters) simp
    then have "R - {i} \<subseteq> prepare_signers ?k (eps2 i)"
      unfolding heard [THEN conjunct2, THEN conjunct1] by (rule le_supI2)
    moreover have "finite (prepare_signers ?k (eps2 i))"
      by (simp add: prepare_signers_def signers_def flip: fmlookup_dom_iff)
    ultimately have "card (R - {i}) \<le> card (prepare_signers ?k (eps2 i))" by (rule card_mono [rotated])
    then show ?thesis using heard [THEN conjunct1] others [OF i] by simp
  qed
  have t2: "\<forall>j\<in>R. set (e_tx_pbft (eps2 j)) = vote_on C ?k j (sk j) ` {Prepare, Commit}"
    using s2 by (auto simp: in_round_def)
  assume i: "i \<in> R"
  have fs: "set (cs i) = vote_frame C ` ?votes i {Prepare, Commit}"
    using r3(1) i inbox_votes [OF peers [rule_format, OF i] t2] by simp
  obtain ms where ms: "cs i = map (vote_frame C) ms" "set ms = ?votes i {Prepare, Commit}"
    by (rule frames_of_messages [OF ok(2) fs])
  have all: "\<forall>m\<in>set ms. round_vote C cfg ?k m \<and> (pm_phase m = Prepare \<or>
      pm_phase m = Commit \<and> ?q \<le> card (prepare_signers ?k (eps2 i)))"
    unfolding ms(2) using ok(1) s2 [OF i] by fastforce
  have e3: "eps3 i = receive C i (map (vote_frame C) ms) (eps2 i)" using i ms(1) by (simp add: r3(2) deliver_all_def)
  note heard = receive_votes [OF C keys s2 [OF i, THEN conjunct1] all, folded e3]
  have "R - {i} \<subseteq> pm_sender_id ` {m \<in> set ms. pm_phase m = Commit}"
    unfolding ms(2) by (rule voters) simp
  then have "R - {i} \<subseteq> commit_signers ?k (eps3 i)"
    unfolding heard [THEN conjunct2, THEN conjunct2] by (rule le_supI2)
  moreover have "finite (commit_signers ?k (eps3 i))"
    by (simp add: commit_signers_def signers_def flip: fmlookup_dom_iff)
  ultimately have "card (R - {i}) \<le> card (commit_signers ?k (eps3 i))" by (rule card_mono [rotated])
  then have q3: "?q \<le> card (commit_signers ?k (eps3 i))" using others [OF i] by linarith
  obtain st where st: "e_state (eps3 i) = Some st" "voting C cfg ?k st"
    using heard by (auto simp: in_round_def)
  have "fmlookup (committed_digest (st_core st)) (v, s) = Some d"
    by (rule voting_commits [OF st(2)]) (use q3 st(1) in \<open>simp add: commit_signers_def card_signers\<close>)
  then show "\<exists>st. e_state (eps3 i) = Some st \<and> fmlookup (committed_digest (st_core st)) (v, s) = Some d"
    using st(1) by blast
qed

section \<open>From the bootstrap to the first commit\<close>

text \<open>The node that starts with a configuration of \<open>n\<close> nodes and threshold \<open>t\<close>, over an empty log.\<close>

abbreviation genesis_node :: "usize \<Rightarrow> usize \<Rightarrow> u32 \<Rightarrow> node_config" where
  "genesis_node n t i \<equiv> \<lparr>nc_node_id = i, nc_total_nodes = n, nc_threshold = t\<rparr>"

definition empty_log :: "recovery_io \<Rightarrow> bool" where
  "empty_log io \<longleftrightarrow> o_open io \<and> o_reopen io \<and> no_fault (o_reads io) \<and> o_disk io = []"

definition live_endpoint :: "'s \<Rightarrow> ('g1, 'g2) pbft_state \<Rightarrow> ('s, 'g1, 'g2) endpoint" where
  "live_endpoint sk st = \<lparr>e_state = Some st, e_sk = Some sk, e_tx_pbft = [], e_tx_dkg = []\<rparr>"

lemma peer_ids_genesis: "peer_ids (genesis_node n t i) = peer_ids (genesis_node n t j)"
  by (simp add: peer_ids_def)

lemma bootstrap_ready:
  fixes C :: "('s::field, 'g1::ab_group_add, 'g2::ab_group_add, 'gt) bls"
  assumes C: "scalar_laws C" "g2_generator_faithful C"
    and n: "unat n < 2 ^ 32" "n \<noteq> 0" and io: "empty_log io"
    and own: "P i = map rng [0..<unat t]" and dealers: "\<forall>ev\<in>set events. honest_inbound C P ev"
    and ok: "bootstrap C io (genesis_node n t i) rng events = Ok (share, st)"
  defines "ids \<equiv> peer_ids (genesis_node n t 0)"
  defines "F \<equiv> joint_poly P (set ids) (unat t)"
  shows "share = poly_eval F (x_coord C i)"
    and "make_config n (joint_registry C F ids) (g2_mul C (g2_generator C) (hd F)) = Ok (st_config st)"
    and "st = \<lparr>st_config = st_config st, st_core = empty_core, st_wal = wal_open [], wal_failed = False\<rparr>"
    and "F \<noteq> []" "length F = unat t"
proof -
  have ids: "peer_ids (genesis_node n t i) = ids" unfolding ids_def by (rule peer_ids_genesis)
  note B = bootstrap_config [OF C _ _ _ dealers ok, unfolded node_config.simps, OF n own, unfolded ids, folded F_def]
  show "share = poly_eval F (x_coord C i)" "F \<noteq> []" "length F = unat t" by (fact B)+
  show cfg: "make_config n (joint_registry C F ids) (g2_mul C (g2_generator C) (hd F)) = Ok (st_config st)"
    using new_with_wal_path_Ok [OF B(4)] by metis
  show "st = \<lparr>st_config = st_config st, st_core = empty_core, st_wal = wal_open [], wal_failed = False\<rparr>"
    using new_with_wal_path_empty [OF cfg, of io C] B(4) io by (simp add: empty_log_def)
qed

text \<open>An endpoint that holds a replica and a key and has sent no vote.\<close>

definition live :: "'s \<Rightarrow> ('g1, 'g2) pbft_state \<Rightarrow> ('s, 'g1, 'g2) endpoint \<Rightarrow> bool" where
  "live sk st ep \<longleftrightarrow> e_state ep = Some st \<and> e_sk ep = Some sk \<and> e_tx_pbft ep = []"

lemma live_endpoint [simp]: "live sk st (live_endpoint sk st)"
  by (simp add: live_def live_endpoint_def)

lemma ready_empty:
  assumes "config_ok cfg" "live sk \<lparr>st_config = cfg, st_core = empty_core, st_wal = w, wal_failed = False\<rparr> ep"
  shows "ready C cfg (0, s, d) sk ep"
  using assms by (simp add: ready_def live_def node_inv_def empty_core_inv) (simp add: empty_core_def)

lemma genesis_round:
  fixes C :: "('s::field, 'g1::ab_group_add, 'g2::ab_group_add, 'gt) bls"
  assumes C: "scalar_laws C" "pairing_laws C" "g2_generator_faithful C"
    and n: "unat n < 2 ^ 32" "unat n = 3 * f + 1" "0 < f" "unat t \<le> 2 * f + 1"
  defines "R \<equiv> {i :: u32. unat i < unat n}"
  assumes boot: "\<forall>i\<in>R. empty_log (io i) \<and> P i = map (rng i) [0..<unat t] \<and>
        (\<forall>ev\<in>set (events i). honest_inbound C P ev) \<and>
        bootstrap C (io i) (genesis_node n t i) (rng i) (events i) = Ok (share i, st i)"
    and wire: "length d = 32" "\<forall>i\<in>R. \<forall>m. g1_encodable C (sign_bls_message C m (share i))"
    and pp: "pp = vote_on C (0, s, d) 0 (share 0) PrePrepare"
    and peers: "\<forall>i\<in>R. fmlookup peers i \<noteq> None"
    and start: "\<forall>i\<in>R. live (share i) (st i) (eps0 i)"
    and r1: "eps1 = deliver_all C R (\<lambda>_. [vote_frame C pp]) eps0"
    and r2: "\<forall>i\<in>R. set (ps i) = inbox C no_loss peers R eps1 i" "eps2 = deliver_all C R ps eps1"
    and r3: "\<forall>i\<in>R. set (cs i) = inbox C no_loss peers R eps2 i" "eps3 = deliver_all C R cs eps2"
  shows "(net_step C peers R {vote_frame C pp})\<^sup>*\<^sup>* eps0 eps3"
    and "\<forall>i\<in>R. \<exists>st'. e_state (eps3 i) = Some st' \<and> fmlookup (committed_digest (st_core st')) (0, s) = Some d"
proof -
  define ids where "ids = peer_ids (genesis_node n t 0)"
  define F where "F = joint_poly P (set ids) (unat t)"
  have n0: "n \<noteq> 0" using n by auto
  have B: "share i = poly_eval F (x_coord C i)"
    "make_config n (joint_registry C F ids) (g2_mul C (g2_generator C) (hd F)) = Ok (st_config (st i))"
    "st i = \<lparr>st_config = st_config (st i), st_core = empty_core, st_wal = wal_open [], wal_failed = False\<rparr>"
    "F \<noteq> []" "length F = unat t" if "i \<in> R" for i
    using bootstrap_ready [OF C(1,3) n(1) n0, of "io i" P i "rng i" t "events i" "share i" "st i"] boot that
    by (simp_all add: ids_def F_def)
  have z: "0 \<in> R" using n by (simp add: R_def)
  define cfg where "cfg = st_config (st 0)"
  have cfg: "st_config (st i) = cfg" if "i \<in> R" for i using B(2) [OF that] B(2) [OF z] by (simp add: cfg_def)
  note M = make_config_Ok [OF B(2) [OF z], folded cfg_def]
  have top: "topology_ok cfg" by (rule M(2) [OF n0])
  have nn: "unat (ucast n :: u32) = unat n"
    using n(1) by (simp add: unsigned_ucast_eq take_bit_nat_eq_self_iff)
  have R: "fset (registered_nodes cfg) = R" by (auto simp: M(6) R_def nn)
  have q: "unat (quorum_size cfg) = 2 * f + 1" using top M(3) n(2) by (simp add: topology_ok_def)
  have cardR: "card R = 3 * f + 1" unfolding R_def using card_ids_below [of "unat n"] n(1,2) by simp
  have keys: "keys_from_poly C cfg F"
    unfolding keys_from_poly_def using B(4,5) [OF z] q n(4) M(4-6)
    by (auto simp: joint_registry_lookup ids_def peer_ids_iff)
  have leader: "get_expected_leader cfg 0 = 0" by (simp add: get_expected_leader_def)
  have regd: "0 |\<in>| registered_nodes cfg" using R z by auto
  have sendable: "\<forall>i\<in>R. \<forall>ph. pm_sendable C (vote_on C (0, s, d) i (share i) ph)"
    using wire by (simp add: pm_sendable_def pm_wf_def vote_on_def)
  have lead: "leader_proposal C cfg (0, s, d) pp"
    unfolding leader_proposal_def round_vote_def pp
    using vote_on_authentic [OF C(2) regd] keys regd sendable z B(1) [OF z]
    by (auto simp: leader keys_from_poly_def)
  have rdy: "\<forall>i\<in>R. ready C cfg (0, s, d) (poly_eval F (x_coord C i)) (eps0 i)"
    using ready_empty [OF M(1)] B(1,3) cfg start by metis
  have wire': "\<forall>i\<in>R. \<forall>ph. pm_sendable C (vote_on C (0, s, d) i (poly_eval F (x_coord C i)) ph)"
    using sendable B(1) by simp
  note round = cluster_round [OF C(1,2) keys, unfolded R, OF _ wire' peers rdy lead r1 r2 r3]
  show "(net_step C peers R {vote_frame C pp})\<^sup>*\<^sup>* eps0 eps3"
    using round(1) q cardR n(3) by simp
  show "\<forall>i\<in>R. \<exists>st'. e_state (eps3 i) = Some st' \<and> fmlookup (committed_digest (st_core st')) (0, s) = Some d"
    using round(2) q cardR n(3) by simp
qed

end
