(* ===== verification/Started_Cluster.thy ===== *)
theory Started_Cluster
  imports Node Cluster_Round
begin

text \<open>
  Processes that deal their shares to each other. A node is at rest when its connections are served
  and its main task waits; at rest, with the shares of all other dealers delivered, it serves. The
  last lemma composes this with the round of a cluster: from the start of the processes to the commit.
\<close>

section \<open>A node among honest dealers\<close>

text \<open>A machine configured as node \<open>i\<close> of \<open>n\<close>, whose listener is bound and whose log is empty.\<close>

definition genesis_host ::
  "('s, 'g1, 'g2, 'gt) bls \<Rightarrow> usize \<Rightarrow> usize \<Rightarrow> u32 \<Rightarrow> ('s, 'g1, 'g2, 'gt, 'addr, 'ip) host \<Rightarrow>
    'addr node_settings \<Rightarrow> bool" where
  "genesis_host C n t i H cfg \<longleftrightarrow> ho_curve H = C \<and> ho_bind_ok H \<and>
     from_env (ho_parse_addr H) (ho_env H) = Ok cfg \<and> settings_of cfg = genesis_node n t i \<and>
     empty_log (ho_files H (ns_wal_path cfg))"

definition net_events :: "'ip node_event list \<Rightarrow> 'ip listener_event list" where
  "net_events evs = concat (map (\<lambda>ev. case ev of Net e \<Rightarrow> [e] | _ \<Rightarrow> []) evs)"

text \<open>The streams from allowed addresses among the events.\<close>

abbreviation arrived ::
  "('s, 'g1, 'g2, 'gt, 'addr, 'ip) host \<Rightarrow> 'addr node_settings \<Rightarrow> 'ip node_event list \<Rightarrow> bytes list" where
  "arrived H cfg evs \<equiv> admissible_streams (ho_ip H |`| fmran (ns_peer_map cfg)) (net_events evs)"

lemma admissible_append:
  "admissible_streams allowed (xs @ ys) = admissible_streams allowed xs @ admissible_streams allowed ys"
  by (induction allowed xs rule: admissible_streams.induct) simp_all

lemma arrived_snoc:
  "arrived H cfg (evs @ [ev]) = arrived H cfg evs @
    (case ev of Net (Accept ip bs) \<Rightarrow> if ip |\<in>| ho_ip H |`| fmran (ns_peer_map cfg) then [bs] else [] | _ \<Rightarrow> [])"
  by (cases ev) (auto simp: net_events_def admissible_append split: listener_event.splits)

abbreviation share_for ::
  "('s::field, 'g1::ab_group_add, 'g2::ab_group_add, 'gt) bls \<Rightarrow> (u32 \<Rightarrow> ('s, 'g2) dkg_session) \<Rightarrow> u32 \<Rightarrow> u32 \<Rightarrow>
    ('s, 'g1, 'g2) dkg_share_message" where
  "share_for C D i j \<equiv> dealer_message C 0 (D j) (hd (dk_secret_polynomial (D j))) i"

abbreviation share_frame :: "('s, 'g1, 'g2, 'gt) bls \<Rightarrow> ('s, 'g1, 'g2) dkg_share_message \<Rightarrow> bytes" where
  "share_frame C m \<equiv> frame PACKET_TYPE_DKG (dkg_to_bytes C m)"

text \<open>The dealers other than \<open>i\<close>, and the shares they deal to it.\<close>

definition honest_dealers ::
  "('s::field, 'g1::ab_group_add, 'g2::ab_group_add, 'gt) bls \<Rightarrow> usize \<Rightarrow> usize \<Rightarrow> u32 \<Rightarrow>
    (u32 \<Rightarrow> ('s, 'g2) dkg_session) \<Rightarrow> bool" where
  "honest_dealers C n t i D \<longleftrightarrow> (\<forall>j. unat j < unat n \<longrightarrow> j \<noteq> i \<longrightarrow>
     dk_node_id (D j) = j \<and> length (dk_secret_polynomial (D j)) = unat t \<and> dkg_encodable C (share_for C D i j))"

abbreviation others :: "usize \<Rightarrow> u32 \<Rightarrow> u32 set" where
  "others n i \<equiv> {j. unat j < unat n} - {i}"

definition deal_inv ::
  "('s::field, 'g1::ab_group_add, 'g2::ab_group_add, 'gt, 'addr, 'ip) host \<Rightarrow> usize \<Rightarrow> u32 \<Rightarrow>
    (u32 \<Rightarrow> ('s, 'g2) dkg_session) \<Rightarrow> bytes set \<Rightarrow> nat \<Rightarrow> ('s, 'g1, 'g2, 'addr) process \<Rightarrow> bool" where
  "deal_inv H n i D A len p \<longleftrightarrow>
     sv_error (pr_server p) = None \<and>
     length (sv_open (pr_server p)) + length (e_tx_dkg (pr_endpoint p)) \<le> len \<and> set (sv_open (pr_server p)) \<subseteq> A \<and>
     set (e_tx_dkg (pr_endpoint p)) \<subseteq> share_for (ho_curve H) D i ` others n i \<and>
     (\<forall>j\<in>others n i. share_frame (ho_curve H) (share_for (ho_curve H) D i j) \<in> A \<longrightarrow>
        share_frame (ho_curve H) (share_for (ho_curve H) D i j) \<in> set (sv_open (pr_server p)) \<or>
        share_for (ho_curve H) D i j \<in> set (e_tx_dkg (pr_endpoint p))) \<and>
     (\<forall>e. pr_main p \<noteq> Exited e) \<and>
     (pr_main p = Serving \<longrightarrow> (\<exists>share st. live share st (pr_endpoint p) \<and>
        pr_bootstrap H p [Deadline] = Ok (share, st)))"

text \<open>With enough shares of honest dealers the replica comes to life.\<close>

lemma honest_collection:
  fixes H :: "('s::field, 'g1::ab_group_add, 'g2::ab_group_add, 'gt, 'addr, 'ip) host"
  assumes C: "scalar_laws C" "pairing_laws C" "g2_generator_faithful C"
    and n: "unat n < 2 ^ 32" "n \<noteq> 0" "t \<noteq> 0" "unat i < unat n"
    and H: "genesis_host C n t i H (pr_config p)" and D: "honest_dealers C n t i D"
    and inv: "process_inv H p" and m: "pr_main p = Ingesting co"
    and tx: "set (e_tx_dkg (pr_endpoint p)) \<subseteq> share_for C D i ` others n i"
  shows "fset (fmdom (co_peers co)) =
      ds_from_node ` set (take (pr_taken p) (e_tx_dkg (pr_endpoint p)))"
    and "fset (fmdom (co_peers co)) \<subseteq> others n i"
proof -
  let ?ms = "take (pr_taken p) (e_tx_dkg (pr_endpoint p))"
  let ?co0 = "\<lparr>co_session = first_session H (pr_settings p), co_peers = fmempty :: (u32, 'g2 list) fmap\<rparr>"
  have cfg: "pr_settings p = genesis_node n t i" and CH: "ho_curve H = C" using H by (simp_all add: genesis_host_def)
  have "main_inv H p" using inv by (simp add: process_inv_def)
  then have "co = fold (collect_share (ho_curve H) (pr_settings p)) ?ms ?co0"
    unfolding main_inv_def m main_task.case by (elim conjE)
  then have co: "co = fold (collect_share C (genesis_node n t i)) ?ms ?co0" unfolding CH cfg .
  have fields: "dk_threshold (co_session ?co0) = t" "dk_node_id (co_session ?co0) = nc_node_id (genesis_node n t i)"
    unfolding cfg by (simp_all add: dkg_new_def)
  have sub: "set ?ms \<subseteq> share_for C D i ` others n i" by (rule subset_trans [OF set_take_subset tx])
  have poly: "dk_secret_polynomial (D j) \<noteq> [] \<and> length (dk_secret_polynomial (D j)) = unat t" if "j \<in> others n i" for j
    using D that n(3) by (auto simp: honest_dealers_def unat_eq_zero)
  have "\<forall>m\<in>set ?ms. honest_message C (dk_threshold (co_session ?co0)) m"
    unfolding fields using sub poly by blast
  from collect_honest [OF C(1,2) this fields(2)] have dom: "fset (fmdom (co_peers co)) =
      ds_from_node ` {m \<in> set ?ms. ds_to_node m = i}"
    unfolding co by simp
  have "{m \<in> set ?ms. ds_to_node m = i} = set ?ms" using sub by auto
  then show dom: "fset (fmdom (co_peers co)) = ds_from_node ` set ?ms" using dom by simp
  have "ds_from_node ` set ?ms \<subseteq> ds_from_node ` share_for C D i ` others n i" by (rule image_mono [OF sub])
  also have "\<dots> \<subseteq> others n i" using D by (auto simp: honest_dealers_def)
  finally show "fset (fmdom (co_peers co)) \<subseteq> others n i" unfolding dom .
qed

lemma card_others:
  assumes "unat n < 2 ^ 32" "n \<noteq> 0" "unat i < unat n"
  shows "card (others n i) = unat (n - 1)"
  using assms card_ids_below [of "unat n"] by (simp add: unat_minus_one)

text \<open>With enough shares of honest dealers the replica comes to life.\<close>

lemma honest_conclude:
  fixes H :: "('s::field, 'g1::ab_group_add, 'g2::ab_group_add, 'gt, 'addr, 'ip) host"
  assumes C: "scalar_laws C" "pairing_laws C" "g2_generator_faithful C"
    and n: "unat n < 2 ^ 32" "n \<noteq> 0" "t \<noteq> 0" "unat i < unat n" "n = 3 * ((n - 1) div 3) + 1"
    and H: "genesis_host C n t i H (pr_config p)" and D: "honest_dealers C n t i D"
    and inv: "process_inv H p" and m: "pr_main p = Ingesting co"
    and tx: "set (e_tx_dkg (pr_endpoint p)) \<subseteq> share_for C D i ` others n i"
    and enough: "unat (n - 1) \<le> hm_len (co_peers co)"
  shows "\<exists>share st. pr_bootstrap H p [Deadline] = Ok (share, st)"
proof -
  let ?cfg = "genesis_node n t i"
  let ?co0 = "\<lparr>co_session = first_session H ?cfg, co_peers = fmempty :: (u32, 'g2 list) fmap\<rparr>"
  define P where "P j = (if j = i then map (ho_rng H) [0..<unat t] else dk_secret_polynomial (D j))" for j
  have cfg: "pr_settings p = ?cfg" "nc_total_nodes (pr_config p) = n" and CH: "ho_curve H = C"
    and io: "empty_log (ho_files H (ns_wal_path (pr_config p)))"
    using H by (auto simp: genesis_host_def settings_of_def)
  note dom = honest_collection [OF C n(1-4) H D inv m tx]
  have "card (others n i) \<le> card (fset (fmdom (co_peers co)))"
    using enough card_others [OF n(1,2,4)] by (simp add: hm_len_def fcard.rep_eq)
  then have all: "fset (fmdom (co_peers co)) = others n i" by (rule card_seteq [OF _ dom(2), rotated]) simp
  have nn: "unat (ucast n :: u32) = unat n" using n(1) by (simp add: unsigned_ucast_eq take_bit_nat_eq_self_iff)
  have ids: "set (peer_ids ?cfg) = {j. unat j < unat n}" by (auto simp: peer_ids_iff nn)
  have sub: "set (take (pr_taken p) (e_tx_dkg (pr_endpoint p))) \<subseteq> share_for C D i ` others n i"
    by (rule subset_trans [OF set_take_subset tx])
  have "honest_inbound C P (Share m)" if m: "m \<in> set (take (pr_taken p) (e_tx_dkg (pr_endpoint p)))" for m
  proof -
    obtain j where j: "j \<in> others n i" "m = share_for C D i j" using sub m by blast
    then show ?thesis using D by (simp add: honest_inbound_def P_def generate_commitments_def honest_dealers_def)
  qed
  then have hon: "\<forall>ev\<in>set (pr_shares p @ [Deadline]). honest_inbound C P ev"
    by (auto simp: honest_inbound_def [of C P Deadline])
  have enough': "unat (nc_total_nodes (pr_config p) - 1) \<le> hm_len (co_peers co)" using enough by (simp add: cfg(2))
  have "main_inv H p" using inv by (simp add: process_inv_def)
  then have loop: "collect_loop C ?cfg (pr_shares p @ [Deadline]) ?co0 = collect_loop C ?cfg [Deadline] co"
    unfolding main_inv_def m main_task.case CH cfg(1) by (elim conjE allE)
  have "collect_loop C ?cfg [Deadline] co = Ok co"
    using enough by (simp add: collect_loop.simps [of C ?cfg "[Deadline]"])
  with loop have ok: "collect_loop C ?cfg (pr_shares p @ [Deadline]) ?co0 = Ok co" by simp
  have "collection_inv C ?cfg P ?co0" by (simp add: collection_inv_def dkg_new_def P_def)
  from collect_loop_inv [OF C(1,3) this hon ok] have cinv: "collection_inv C ?cfg P co" by blast
  have "\<exists>share st. conclude C (ho_files H (ns_wal_path (pr_config p))) ?cfg co = Ok (share, st)"
    by (rule conclude_honest [OF C(1) cinv])
      (use n all io in \<open>simp_all add: ids P_def empty_log_def unat_gt_0\<close>)
  then show ?thesis using install_enough(2) [OF inv m enough'] unfolding CH cfg(1) by simp
qed

text \<open>The listener hands on what it admitted.\<close>

lemma serve_share:
  assumes D: "honest_dealers C n t i D" "unat t \<le> 84"
    and bs: "bs = take k (share_frame C (share_for C D i j))" "j \<in> others n i"
  shows "(snd (handle_connection C io i bs ep) = ep \<or>
      snd (handle_connection C io i bs ep) = ep\<lparr>e_tx_dkg := e_tx_dkg ep @ [share_for C D i j]\<rparr>) \<and>
    (\<forall>j'\<in>others n i. bs = share_frame C (share_for C D i j') \<longrightarrow>
      share_for C D i j' \<in> set (e_tx_dkg (snd (handle_connection C io i bs ep))))"
proof -
  have ok: "dkg_encodable C (share_for C D i j) \<and> length (ds_commitments (share_for C D i j)) \<le> 84"
    if "j \<in> others n i" for j
    using D that by (simp add: honest_dealers_def generate_commitments_def)
  have "share_for C D i j' \<in> set (e_tx_dkg (snd (handle_connection C io i bs ep)))"
    if "j' \<in> others n i" "bs = share_frame C (share_for C D i j')" for j'
    using handle_connection_dkg [of C "share_for C D i j'"] ok [OF that(1)] that(2) by simp
  then show ?thesis
    using handle_connection_dkg_prefix [of C "share_for C D i j"] ok [OF bs(2)] bs(1) by blast
qed

lemma deal_inv_listen:
  fixes H :: "('s::field, 'g1::ab_group_add, 'g2::ab_group_add, 'gt, 'addr, 'ip) host"
  assumes H: "genesis_host C n t i H (pr_config p)" and D: "honest_dealers C n t i D" "unat t \<le> 84"
    and inv: "process_inv H p" and J: "deal_inv H n i D (set A) (length A) p"
    and A': "A' = A @ (case ev of Accept ip bs \<Rightarrow>
        if ip |\<in>| ho_ip H |`| fmran (ns_peer_map (pr_config p)) then [bs] else [] | _ \<Rightarrow> [])"
    and ok: "ev \<noteq> Accept_Failed" "length A' \<le> MAX_CONNECTIONS"
      "\<forall>bs\<in>set A'. \<exists>j\<in>others n i. \<exists>k. bs = take k (share_frame C (share_for C D i j))"
  shows "deal_inv H n i D (set A') (length A') (listen H ev p)"
proof -
  have CH: "ho_curve H = C" and self: "nc_node_id (pr_config p) = i"
    using H by (auto simp: genesis_host_def settings_of_def)
  let ?allowed = "ho_ip H |`| fmran (ns_peer_map (pr_config p))"
  have main: "pr_main (listen H ev p) = pr_main p" "pr_config (listen H ev p) = pr_config p"
    "pr_taken (listen H ev p) = pr_taken p" by (simp_all add: listen_def)
  have alive: "\<forall>e. pr_main p \<noteq> Exited e" and
    le: "pr_taken p \<le> length (e_tx_dkg (pr_endpoint p))"
    using J inv by (simp_all add: deal_inv_def process_inv_def)
  show ?thesis
  proof (cases ev)
    case (Accept ip bs)
    show ?thesis
    proof (cases "ip |\<in>| ?allowed")
      case True
      then have "length (sv_open (pr_server p)) < MAX_CONNECTIONS"
        using J ok(2) by (simp add: A' Accept deal_inv_def)
      then have "pr_server (listen H ev p) = (pr_server p)\<lparr>sv_open := sv_open (pr_server p) @ [bs]\<rparr>"
        using True J by (simp add: listen_def Accept admit_def deal_inv_def)
      then show ?thesis using J True unfolding deal_inv_def main by (auto simp: A' Accept)
    next
      case False
      then have "pr_server (listen H ev p) = pr_server p" by (simp add: listen_def Accept admit_def)
      then show ?thesis using J False unfolding deal_inv_def main by (simp add: A' Accept)
    qed
  next
    case (Serve k io)
    then have A: "A' = A" by (simp add: A')
    show ?thesis
    proof (cases "k < length (sv_open (pr_server p))")
      case True
      let ?bs = "sv_open (pr_server p) ! k" and ?p = "listen H ev p"
      have mem: "?bs \<in> set (sv_open (pr_server p))" using True by simp
      then have "?bs \<in> set A'" using J A by (auto simp: deal_inv_def)
      then obtain j m where bs: "?bs = take m (share_frame C (share_for C D i j))" "j \<in> others n i" using ok(3) by blast
      have ep: "pr_endpoint ?p = snd (handle_connection C io i ?bs (pr_endpoint p))"
        and op: "sv_open (pr_server ?p) = take k (sv_open (pr_server p)) @ drop (Suc k) (sv_open (pr_server p))"
        and err: "sv_error (pr_server ?p) = sv_error (pr_server p)"
        using True by (simp_all add: listen_def Serve CH self)
      note s = serve_share [OF D bs, of io "pr_endpoint p", folded ep]
      have split: "set (sv_open (pr_server p)) = insert ?bs (set (sv_open (pr_server ?p)))"
        using mset_remove_nth [OF True, folded op, THEN arg_cong [where f = set_mset]] by simp
      have "Suc (length (sv_open (pr_server ?p))) = length (sv_open (pr_server p))" using True by (simp add: op)
      then have len: "length (sv_open (pr_server ?p)) + length (e_tx_dkg (pr_endpoint ?p)) \<le>
          length (sv_open (pr_server p)) + length (e_tx_dkg (pr_endpoint p))"
        using s [THEN conjunct1] by auto
      have tx: "set (e_tx_dkg (pr_endpoint p)) \<subseteq> set (e_tx_dkg (pr_endpoint ?p))"
        "set (e_tx_dkg (pr_endpoint ?p)) \<subseteq> insert (share_for C D i j) (set (e_tx_dkg (pr_endpoint p)))"
        using s [THEN conjunct1] by auto
      have shares: "take (pr_taken p) (e_tx_dkg (pr_endpoint ?p)) = take (pr_taken p) (e_tx_dkg (pr_endpoint p))"
        using s [THEN conjunct1] le by auto
      have lv: "live share st (pr_endpoint ?p)" if "live share st (pr_endpoint p)" for share st
        using s [THEN conjunct1] that by (auto simp: live_def)
      have J1: "set (e_tx_dkg (pr_endpoint p)) \<subseteq> share_for C D i ` others n i"
        and J2: "\<forall>j\<in>others n i. share_frame C (share_for C D i j) \<in> set A \<longrightarrow>
          share_frame C (share_for C D i j) \<in> set (sv_open (pr_server p)) \<or>
          share_for C D i j \<in> set (e_tx_dkg (pr_endpoint p))"
        and J3: "pr_main p = Serving \<longrightarrow> (\<exists>share st. live share st (pr_endpoint p) \<and>
          pr_bootstrap H p [Deadline] = Ok (share, st))"
        using J unfolding deal_inv_def CH by - (elim conjE, assumption)+
      have g: "share_frame C (share_for C D i j') \<in> set (sv_open (pr_server ?p)) \<or>
          share_for C D i j' \<in> set (e_tx_dkg (pr_endpoint ?p))"
        if j': "j' \<in> others n i" "share_frame C (share_for C D i j') \<in> set A" for j'
      proof -
        have "share_frame C (share_for C D i j') \<in> set (sv_open (pr_server p)) \<or>
            share_for C D i j' \<in> set (e_tx_dkg (pr_endpoint p))"
          by (rule J2 [rule_format, OF j'])
        then consider "share_frame C (share_for C D i j') = ?bs"
          | "share_frame C (share_for C D i j') \<in> set (sv_open (pr_server ?p))"
          | "share_for C D i j' \<in> set (e_tx_dkg (pr_endpoint p))"
          unfolding split insert_iff by (elim disjE)
        then show ?thesis
        proof cases
          case 1
          show ?thesis by (rule disjI2, rule s [THEN conjunct2, rule_format, OF j'(1) 1 [symmetric]])
        next
          case 3
          show ?thesis by (rule disjI2, rule subsetD [OF tx(1) 3])
        qed (rule disjI1)
      qed
      have "set (e_tx_dkg (pr_endpoint ?p)) \<subseteq> share_for C D i ` others n i"
        by (rule subset_trans [OF tx(2)]) (use J1 bs(2) in simp)
      moreover have "pr_main p = Serving \<longrightarrow> (\<exists>share st. live share st (pr_endpoint ?p) \<and> pr_bootstrap H p [Deadline] = Ok (share, st))"
        using J3 by (elim imp_forward ex_forward conj_forward lv)
      moreover have "set (sv_open (pr_server ?p)) \<subseteq> set A" "length (sv_open (pr_server ?p)) + length (e_tx_dkg (pr_endpoint ?p)) \<le> length A"
        "sv_error (pr_server ?p) = None"
        using J len split by (auto simp: deal_inv_def err)
      ultimately show ?thesis using alive g unfolding deal_inv_def main A CH shares by (intro conjI ballI impI allI) simp_all
    next
      case False
      then have "pr_server (listen H ev p) = pr_server p" by (simp add: listen_def Serve)
      then show ?thesis using J unfolding deal_inv_def main A by simp
    qed
  qed (use ok in simp)
qed

lemma deal_inv_net:
  assumes "deal_inv H n i D A len p" "len \<le> MAX_CONNECTIONS"
  shows "serve_net H ev p = listen H ev p"
proof -
  have "length (e_tx_dkg (pr_endpoint p)) < CHANNEL_CAPACITY"
    using assms by (simp add: deal_inv_def MAX_CONNECTIONS_def CHANNEL_CAPACITY_def)
  then have "\<not> waits H ev p" by (cases ev) auto
  then show ?thesis by (simp add: serve_net_def)
qed

lemma deal_inv_main:
  fixes H :: "('s::field, 'g1::ab_group_add, 'g2::ab_group_add, 'gt, 'addr, 'ip) host"
  assumes C: "scalar_laws C" "pairing_laws C" "g2_generator_faithful C"
    and n: "unat n < 2 ^ 32" "n \<noteq> 0" "t \<noteq> 0" "unat i < unat n" "n = 3 * ((n - 1) div 3) + 1"
    and H: "genesis_host C n t i H (pr_config p)" and D: "honest_dealers C n t i D"
    and inv: "process_inv H p" and J: "deal_inv H n i D A len p"
    and ev: "ev = Stabilized \<or> ev = Turn"
  shows "deal_inv H n i D A len (process_step H ev p)"
proof (cases "process_step H ev p = p")
  case False
  have CH: "ho_curve H = C" and cfg: "pr_settings p = genesis_node n t i" "nc_total_nodes (pr_config p) = n"
    using H by (auto simp: genesis_host_def settings_of_def)
  from False ev consider "ev = Stabilized" "pr_main p = Stabilizing" | co where "ev = Turn" "pr_main p = Ingesting co"
    by (cases "pr_main p") auto
  then show ?thesis
  proof cases
    case 1
    obtain m where "unat t = Suc m" using n(3) unat_gt_0 [of t] by (cases "unat t") auto
    then have "dealer_secret_key (first_session H (genesis_node n t i)) = Ok (ho_rng H 0)"
      by (simp add: dealer_secret_key_def dkg_new_def upt_rec)
    then have "\<exists>co d. process_step H ev p = p\<lparr>pr_dealt := d, pr_main := Ingesting co\<rparr>"
      unfolding 1(1) process_step.simps 1(2) main_task.case begin_dkg_def Let_def cfg(1) by auto
    then show ?thesis using J by (auto simp: deal_inv_def)
  next
    case (2 co)
    have tx: "set (e_tx_dkg (pr_endpoint p)) \<subseteq> share_for C D i ` others n i"
      using J unfolding deal_inv_def CH by (elim conjE)
    show ?thesis
    proof (cases "unat (n - 1) \<le> hm_len (co_peers co)")
      case True
      obtain share st where ok: "pr_bootstrap H p [Deadline] = Ok (share, st)"
        using honest_conclude [OF C n H D inv 2(2) tx True] by blast
      let ?p = "p\<lparr>pr_server := (pr_server p)\<lparr>sv_endpoint := (pr_endpoint p)\<lparr>e_state := Some st, e_sk := Some share\<rparr>\<rparr>,
          pr_main := Serving\<rparr>"
      have e: "process_step H ev p = ?p"
        using install_enough(1) [OF inv 2(2)] True ok by (simp add: 2 ingest_turn_def cfg(2))
      have "live share st (pr_endpoint ?p)"
        using inv 2(2) by (simp add: process_inv_def main_inv_def silent_def live_def)
      moreover have "pr_bootstrap H ?p [Deadline] = Ok (share, st)" using ok by simp
      ultimately have "\<exists>share st. live share st (pr_endpoint ?p) \<and> pr_bootstrap H ?p [Deadline] = Ok (share, st)" by blast
      then show ?thesis using J unfolding e deal_inv_def by simp
    next
      case no: False
      then have "\<exists>k co'. process_step H ev p = p\<lparr>pr_taken := k, pr_main := Ingesting co'\<rparr>"
        using False by (simp add: 2 ingest_turn_def cfg(2) split: if_splits) blast
      then show ?thesis using J by (auto simp: deal_inv_def)
    qed
  qed
qed (use J in simp)

lemma deal_inv_run:
  fixes H :: "('s::field, 'g1::ab_group_add, 'g2::ab_group_add, 'gt, 'addr, 'ip) host"
  assumes C: "scalar_laws C" "pairing_laws C" "g2_generator_faithful C"
    and n: "unat n < 2 ^ 32" "n \<noteq> 0" "t \<noteq> 0" "unat i < unat n" "n = 3 * ((n - 1) div 3) + 1"
    and H: "genesis_host C n t i H cfg" and D: "honest_dealers C n t i D" "unat t \<le> 84"
    and start: "process_start H = Ok p"
  shows "Deadline_Reached \<notin> set evs \<Longrightarrow> Net Accept_Failed \<notin> set evs \<Longrightarrow>
    length (arrived H cfg evs) \<le> MAX_CONNECTIONS \<Longrightarrow>
    \<forall>bs\<in>set (arrived H cfg evs). \<exists>j\<in>others n i. \<exists>k. bs = take k (share_frame C (share_for C D i j)) \<Longrightarrow>
    deal_inv H n i D (set (arrived H cfg evs)) (length (arrived H cfg evs)) (fold (process_step H) evs p)"
proof (induction evs rule: rev_induct)
  case Nil
  have "from_env (ho_parse_addr H) (ho_env H) = Ok cfg" "ho_bind_ok H" using H by (simp_all add: genesis_host_def)
  then show ?case using start
    by (auto simp: process_start_def deal_inv_def start_tcp_listener_def empty_endpoint_def net_events_def)
next
  case (snoc ev evs)
  let ?p = "fold (process_step H) evs p"
  have J: "deal_inv H n i D (set (arrived H cfg evs)) (length (arrived H cfg evs)) ?p"
    using snoc by (auto simp: arrived_snoc)
  have inv: "process_inv H ?p" by (rule process.run_inv [OF process_inv_start [OF start]])
  then have cfg: "pr_config ?p = cfg" using H by (simp add: process_inv_def genesis_host_def)
  have H': "genesis_host C n t i H (pr_config ?p)" using H by (simp add: cfg)
  show ?case
  proof (cases ev)
    case (Net e)
    have "length (arrived H cfg evs) \<le> MAX_CONNECTIONS" using snoc.prems(3) by (simp add: arrived_snoc)
    then have "process_step H (Net e) ?p = listen H e ?p"
      using J deal_inv_net [OF J] unfolding deal_inv_def by (auto split: main_task.split)
    moreover have "deal_inv H n i D (set (arrived H cfg (evs @ [ev]))) (length (arrived H cfg (evs @ [ev]))) (listen H e ?p)"
      by (rule deal_inv_listen [OF H' D inv J]) (use snoc.prems in \<open>auto simp: arrived_snoc Net cfg split: listener_event.splits\<close>)
    ultimately show ?thesis by (simp add: Net)
  next
    case Stabilized
    then show ?thesis using deal_inv_main [OF C n H' D(1) inv J, of ev] by (simp add: arrived_snoc)
  next
    case Turn
    then show ?thesis using deal_inv_main [OF C n H' D(1) inv J, of ev] by (simp add: arrived_snoc)
  qed (use snoc.prems in simp)
qed

text \<open>A node at rest: every connection is served and the main task has nothing to take. Then the replica
  is installed.\<close>

lemma rested_node_is_live:
  fixes H :: "('s::field, 'g1::ab_group_add, 'g2::ab_group_add, 'gt, 'addr, 'ip) host"
  assumes C: "scalar_laws C" "pairing_laws C" "g2_generator_faithful C"
    and n: "unat n < 2 ^ 32" "n \<noteq> 0" "t \<noteq> 0" "unat i < unat n" "n = 3 * ((n - 1) div 3) + 1"
    and H: "genesis_host C n t i H cfg" and D: "honest_dealers C n t i D" "unat t \<le> 84"
    and run: "process_run H evs = Ok p" "Stabilized \<in> set evs" "Deadline_Reached \<notin> set evs" "Net Accept_Failed \<notin> set evs"
    and few: "length (arrived H cfg evs) \<le> MAX_CONNECTIONS"
    and honest: "\<forall>bs\<in>set (arrived H cfg evs). \<exists>j\<in>others n i. \<exists>k. bs = take k (share_frame C (share_for C D i j))"
    and complete: "\<forall>j\<in>others n i. share_frame C (share_for C D i j) \<in> set (arrived H cfg evs)"
    and rest: "process_step H Turn p = p" "sv_open (pr_server p) = []"
  shows "pr_main p = Serving \<and> (\<exists>share st. live share st (pr_endpoint p) \<and>
    pr_bootstrap H p [Deadline] = Ok (share, st)) \<and> set (e_tx_dkg (pr_endpoint p)) \<subseteq> share_for C D i ` others n i \<and>
    sv_error (pr_server p) = None"
proof -
  obtain p0 where p: "process_start H = Ok p0" "p = fold (process_step H) evs p0"
    using run(1) by (auto simp: process_run_def split: sum.splits)
  have inv: "process_inv H p" unfolding p(2) by (rule process.run_inv [OF process_inv_start [OF p(1)]])
  then have cfg: "pr_config p = cfg" using H by (simp add: process_inv_def genesis_host_def)
  have H': "genesis_host C n t i H (pr_config p)" and CH: "ho_curve H = C"
    using H by (simp_all add: cfg) (simp add: genesis_host_def)
  note J = deal_inv_run [OF C n H D p(1) run(3,4) few honest, folded p(2)]
  have tx: "set (e_tx_dkg (pr_endpoint p)) \<subseteq> share_for C D i ` others n i"
    and err: "sv_error (pr_server p) = None" and alive: "\<forall>e. pr_main p \<noteq> Exited e"
    and all: "\<forall>j\<in>others n i. share_frame C (share_for C D i j) \<in> set (arrived H cfg evs) \<longrightarrow>
        share_frame C (share_for C D i j) \<in> set (sv_open (pr_server p)) \<or>
        share_for C D i j \<in> set (e_tx_dkg (pr_endpoint p))"
    and live: "pr_main p = Serving \<longrightarrow> (\<exists>share st. live share st (pr_endpoint p) \<and>
        pr_bootstrap H p [Deadline] = Ok (share, st))"
    using J unfolding deal_inv_def CH by - (elim conjE, assumption)+
  have "pr_main p \<noteq> Stabilizing" unfolding p(2) by (rule stabilized_run [OF run(2)])
  moreover have "pr_main p \<noteq> Ingesting co" for co
  proof
    assume m: "pr_main p = Ingesting co"
    note dom = honest_collection [OF C n(1-4) H' D(1) inv m tx]
    have total: "nc_total_nodes (pr_config p) = n" using H' by (auto simp: genesis_host_def settings_of_def)
    have full: "pr_taken p = length (e_tx_dkg (pr_endpoint p))" and short: "\<not> unat (n - 1) \<le> hm_len (co_peers co)"
      using turn_rests [OF rest(1) m] inv by (simp_all add: process_inv_def total)
    have "others n i \<subseteq> fset (fmdom (co_peers co))"
    proof
      fix j
      assume j: "j \<in> others n i"
      then have "share_for C D i j \<in> set (e_tx_dkg (pr_endpoint p))" using all complete rest(2) by auto
      then have "ds_from_node (share_for C D i j) \<in> fset (fmdom (co_peers co))"
        unfolding dom(1) full take_all [OF order_refl] by (rule imageI)
      then show "j \<in> fset (fmdom (co_peers co))" using D(1) j by (simp add: honest_dealers_def)
    qed
    then have "card (others n i) \<le> card (fset (fmdom (co_peers co)))" by (rule card_mono [rotated]) simp
    then show False using short card_others [OF n(1,2,4)] by (simp add: hm_len_def fcard.rep_eq)
  qed
  ultimately show ?thesis using alive live tx err by (cases "pr_main p") auto
qed

section \<open>Runs that end at rest\<close>

text \<open>Any streams from an allowed address can be delivered by a run that ends at rest.\<close>

lemma accept_run:
  assumes "ip |\<in>| ho_ip H |`| fmran (ns_peer_map (pr_config p))" "\<forall>e. pr_main p \<noteq> Exited e" "sv_error (pr_server p) = None"
  shows "length (sv_open (pr_server p)) + length ss \<le> MAX_CONNECTIONS \<Longrightarrow>
    fold (process_step H) (map (\<lambda>s. Net (Accept ip s)) ss) p =
      p\<lparr>pr_server := (pr_server p)\<lparr>sv_open := sv_open (pr_server p) @ ss\<rparr>\<rparr>"
  using assms
proof (induction ss arbitrary: p)
  case (Cons s ss)
  let ?p = "p\<lparr>pr_server := (pr_server p)\<lparr>sv_open := sv_open (pr_server p) @ [s]\<rparr>\<rparr>"
  have "process_step H (Net (Accept ip s)) p = ?p"
    using Cons.prems by (simp add: serve_net_def listen_def admit_def split: main_task.split)
  moreover have "fold (process_step H) (map (\<lambda>s. Net (Accept ip s)) ss) ?p =
      ?p\<lparr>pr_server := (pr_server ?p)\<lparr>sv_open := sv_open (pr_server ?p) @ ss\<rparr>\<rparr>"
    using Cons.prems by (intro Cons.IH) simp_all
  ultimately show ?case by (simp del: process_step.simps)
qed simp

lemma serve_run:
  "\<forall>e. pr_main p \<noteq> Exited e \<Longrightarrow> length (sv_open (pr_server p)) = k \<Longrightarrow>
    length (e_tx_dkg (pr_endpoint p)) + k \<le> CHANNEL_CAPACITY \<Longrightarrow>
    sv_open (pr_server (fold (process_step H) (replicate k (Net (Serve 0 io))) p)) = [] \<and>
    pr_config (fold (process_step H) (replicate k (Net (Serve 0 io))) p) = pr_config p"
proof (induction k arbitrary: p)
  case (Suc k)
  let ?p = "listen H (Serve 0 io) p"
  have "\<not> CHANNEL_CAPACITY \<le> length (e_tx_dkg (pr_endpoint p)) - pr_taken p" using Suc.prems(3) by linarith
  then have e: "process_step H (Net (Serve 0 io)) p = ?p"
    using Suc.prems by (simp add: serve_net_def split: main_task.split)
  have op: "length (sv_open (pr_server ?p)) = k" "pr_main ?p = pr_main p" "pr_config ?p = pr_config p"
    using Suc.prems(2) by (simp_all add: listen_def)
  have "pr_endpoint ?p = snd (handle_connection (ho_curve H) io (nc_node_id (pr_config p))
      (sv_open (pr_server p) ! 0) (pr_endpoint p))"
    using Suc.prems(2) by (simp add: listen_def)
  then have "length (e_tx_dkg (pr_endpoint ?p)) \<le> Suc (length (e_tx_dkg (pr_endpoint p)))"
    using handle_connection_tx_dkg [of "ho_curve H" io "nc_node_id (pr_config p)" "sv_open (pr_server p) ! 0" "pr_endpoint p"]
    by auto
  then show ?case using Suc.IH [of ?p] Suc.prems by (simp add: e op del: process_step.simps fold_replicate)
qed simp

lemma turn_open:
  "sv_open (pr_server (process_step H Turn p)) = sv_open (pr_server p)"
  "pr_config (process_step H Turn p) = pr_config p"
  by (auto simp: ingest_turn_def install_def split: main_task.splits sum.splits prod.splits)

lemma rested_run_exists:
  fixes H :: "('s::field, 'g1::ab_group_add, 'g2::ab_group_add, 'gt, 'addr, 'ip) host"
  assumes H: "genesis_host C n t i H cfg" and t: "t \<noteq> 0"
    and ss: "length ss \<le> MAX_CONNECTIONS" "ip |\<in>| ho_ip H |`| fmran (ns_peer_map cfg)"
  shows "\<exists>evs p. process_run H evs = Ok p \<and> pr_config p = cfg \<and> Stabilized \<in> set evs \<and>
    Deadline_Reached \<notin> set evs \<and> Net Accept_Failed \<notin> set evs \<and> process_step H Turn p = p \<and>
    sv_open (pr_server p) = [] \<and> arrived H cfg evs = ss"
proof -
  obtain p0 where p0: "process_start H = Ok p0" "pr_config p0 = cfg" "pr_main p0 = Stabilizing"
    "sv_open (pr_server p0) = []" "sv_error (pr_server p0) = None" "e_tx_dkg (pr_endpoint p0) = []"
  proof
    have e: "from_env (ho_parse_addr H) (ho_env H) = Ok cfg" and b: "ho_bind_ok H"
      using H by (simp_all add: genesis_host_def)
    show "process_start H = Ok \<lparr>pr_config = cfg, pr_env = (ho_env H)(ascii ''WAL_PATH'' := Some (ns_wal_path cfg)),
        pr_server = \<lparr>sv_endpoint = empty_endpoint, sv_open = [], sv_error = None\<rparr>,
        pr_taken = 0, pr_dealt = [], pr_main = Stabilizing\<rparr>"
      unfolding process_start_def e by (simp add: start_tcp_listener_def b)
  qed (simp_all add: empty_endpoint_def)
  have thr: "nc_threshold cfg = t" using H by (auto simp: genesis_host_def settings_of_def)
  obtain k where "unat t = Suc k" using t unat_gt_0 [of t] by (cases "unat t") auto
  then have sk: "dealer_secret_key (first_session H (settings_of cfg)) =
      Ok (hd (dk_secret_polynomial (first_session H (settings_of cfg) :: ('s, 'g2) dkg_session)))"
    by (simp add: dealer_secret_key_def dkg_new_def thr upt_rec)
  define co where "co = \<lparr>co_session = first_session H (settings_of cfg), co_peers = fmempty :: (u32, 'g2 list) fmap\<rparr>"
  have p1: "process_step H Stabilized p0 = p0\<lparr>pr_dealt := own_sends H (settings_of cfg), pr_main := Ingesting co\<rparr>"
    unfolding process_step.simps p0(2,3) main_task.case begin_dkg_def Let_def sk sum.case co_def ..
  let ?p1 = "process_step H Stabilized p0"
  define q where "q = fold (process_step H) (map (\<lambda>s. Net (Accept ip s)) ss) ?p1"
  define p2 where "p2 = fold (process_step H) (replicate (length ss) (Net (Serve 0 handler_io_ok))) q"
  have q: "q = p0\<lparr>pr_dealt := own_sends H (settings_of cfg), pr_main := Ingesting co,
      pr_server := (pr_server p0)\<lparr>sv_open := ss\<rparr>\<rparr>"
    unfolding q_def p1 by (subst accept_run) (use ss in \<open>simp_all add: p0\<close>)
  have p2: "sv_open (pr_server p2) = [] \<and> pr_config p2 = cfg"
    using serve_run [of q "length ss" H handler_io_ok] ss(1) p0(2,6)
    by (simp add: p2_def q MAX_CONNECTIONS_def CHANNEL_CAPACITY_def del: fold_replicate)
  define p3 where "p3 = fold (process_step H) (replicate (turns_left p2) Turn) p2"
  have turns: "sv_open (pr_server (fold (process_step H) (replicate m Turn) q)) = sv_open (pr_server q) \<and>
      pr_config (fold (process_step H) (replicate m Turn) q) = pr_config q" for m q
    by (induction m arbitrary: q)
      (auto simp: turn_open simp del: process_step.simps fold_replicate)
  let ?evs = "Stabilized # map (\<lambda>s. Net (Accept ip s)) ss @ replicate (length ss) (Net (Serve 0 handler_io_ok)) @
    replicate (turns_left p2) Turn"
  have run: "process_run H ?evs = Ok p3"
    by (simp add: process_run_def p0(1) p3_def p2_def q_def del: process_step.simps map_append fold_replicate)
  have rest: "process_step H Turn p3 = p3" unfolding p3_def by (rule turns_rest) simp
  have "sv_open (pr_server p3) = []" "pr_config p3 = cfg"
    using turns p2 by (simp_all add: p3_def del: fold_replicate process_step.simps)
  moreover have "arrived H cfg ?evs = ss"
  proof -
    have "net_events ?evs = map (Accept ip) ss @ replicate (length ss) (Serve 0 handler_io_ok)"
      by (simp add: net_events_def comp_def)
    moreover have "admissible_streams allowed (map (Accept ip) ss) = (if ip |\<in>| allowed then ss else [])" for allowed
      by (induction ss) simp_all
    moreover have "admissible_streams allowed (replicate m (Serve 0 handler_io_ok)) = []" for allowed :: "'ip fset" and m
      by (induction m) simp_all
    ultimately show ?thesis using ss(2) by (simp add: admissible_append)
  qed
  ultimately show ?thesis using run rest by (intro exI [of _ ?evs] exI [of _ p3]) auto
qed

section \<open>From the processes to the commit\<close>

lemma peer_map_loop_dom:
  "peer_map_loop parse_addr ids m = Ok m' \<Longrightarrow> fmlookup m' i \<noteq> None \<longleftrightarrow> i \<in> set ids \<or> fmlookup m i \<noteq> None"
  by (induction parse_addr ids m rule: peer_map_loop.induct) (auto simp: Let_def split: option.splits if_splits)

lemma from_env_peers:
  assumes "from_env parse_addr e = Ok cfg"
  shows "fmlookup (ns_peer_map cfg) i \<noteq> None \<longleftrightarrow> i \<in> set (peer_ids (settings_of cfg))"
proof -
  have "peer_map_loop parse_addr (peer_ids (settings_of cfg)) fmempty = Ok (ns_peer_map cfg)"
    using assms unfolding from_env_def
    by (auto simp: Let_def peer_ids_def settings_of_def split: sum.splits option.splits)
  from peer_map_loop_dom [OF this] show ?thesis by simp
qed

lemma topology_word:
  assumes "unat (n :: usize) = 3 * f + 1"
  shows "n = 3 * ((n - 1) div 3) + 1"
proof -
  have "n \<noteq> 0" using assms by auto
  then have "unat (n - 1) = 3 * f" using assms by (simp add: unat_minus_one)
  then have d: "unat ((n - 1) div 3) = f" by (simp add: unat_div)
  have "unat n < 2 ^ 64" using unsigned_less [of n, where ?'a = nat] by simp
  then have "3 * f + 1 < 2 ^ 64" by (simp only: assms)
  then have "unat (3 * ((n - 1) div 3) + 1) = 3 * f + 1" using d by (simp add: unat_word_ariths)
  then show ?thesis using assms by (simp add: word_unat_eq_iff)
qed

lemma own_sends_iff:
  assumes "unat (nc_total_nodes cfg) < 2 ^ 32" "unat i < unat (nc_total_nodes cfg)" "i \<noteq> nc_node_id cfg"
  shows "(i, bs) \<in> set (own_sends H cfg) \<longleftrightarrow>
    bs = share_frame (ho_curve H) (share_for (ho_curve H) (\<lambda>_. first_session H cfg) i (nc_node_id cfg))"
proof -
  have "unat (ucast (nc_total_nodes cfg) :: u32) = unat (nc_total_nodes cfg)"
    using assms(1) by (simp add: unsigned_ucast_eq take_bit_nat_eq_self_iff)
  then show ?thesis using assms(2,3) by (auto simp: dealer_sends_def peer_ids_iff)
qed

text \<open>The shares a process deals, once it has begun.\<close>

lemma dealt_shares:
  assumes run: "process_run H evs = Ok p" "Stabilized \<in> set evs" and t: "nc_threshold (pr_config p) \<noteq> 0"
  shows "pr_dealt p = own_sends H (pr_settings p)"
proof -
  obtain p0 where p: "process_start H = Ok p0" "p = fold (process_step H) evs p0"
    using run(1) by (auto simp: process_run_def split: sum.splits)
  have "process_inv H p" unfolding p(2) by (rule process.run_inv [OF process_inv_start [OF p(1)]])
  then have m: "main_inv H p" by (simp add: process_inv_def)
  obtain k where "unat (nc_threshold (pr_config p)) = Suc k"
    using t unat_gt_0 [of "nc_threshold (pr_config p)"] by (cases "unat (nc_threshold (pr_config p))") auto
  then have "is_ok (dealer_secret_key (first_session H (pr_settings p)))"
    by (simp add: dealer_secret_key_def dkg_new_def upt_rec)
  moreover have "pr_main p \<noteq> Stabilizing" unfolding p(2) by (rule stabilized_run [OF run(2)])
  ultimately show ?thesis using m unfolding main_inv_def by (cases "pr_main p") simp_all
qed

lemma dealt_frame:
  fixes H :: "('s::field, 'g1::ab_group_add, 'g2::ab_group_add, 'gt, 'addr, 'ip) host"
  assumes H: "genesis_host C n t j H (pr_config p)" and n: "unat n < 2 ^ 32" "unat i < unat n" "i \<noteq> j" "t \<noteq> 0"
    and run: "process_run H evs = Ok p" "Stabilized \<in> set evs"
  shows "(i, bs) \<in> set (pr_dealt p) \<longleftrightarrow>
    bs = share_frame C (dealer_message C 0 (dkg_new (ho_rng H) j t n) (hd (map (ho_rng H) [0..<unat t])) i)"
proof -
  have cfg: "pr_settings p = genesis_node n t j" "nc_threshold (pr_config p) = t" and CH: "ho_curve H = C"
    using H by (auto simp: genesis_host_def settings_of_def)
  have d: "pr_dealt p = own_sends H (genesis_node n t j)"
    using dealt_shares [OF run] n(4) by (simp only: cfg simp_thms not_False_eq_True)
  have poly: "dk_secret_polynomial (dkg_new (ho_rng H) j t n :: ('s, 'g2) dkg_session) = map (ho_rng H) [0..<unat t]"
    by (simp add: dkg_new_def)
  show ?thesis
    unfolding d CH node_config.simps poly
    by (rule own_sends_iff [of "genesis_node n t j" i bs H, unfolded node_config.simps CH poly, OF n(1-3)])
qed

text \<open>The processes of a topology at rest, each with the shares the others dealt, possibly broken-off
  copies of them too: all serve, with keys on one polynomial, and the leader's proposal commits.\<close>

lemma started_round:
  fixes C :: "('s::field, 'g1::ab_group_add, 'g2::ab_group_add, 'gt) bls"
    and H :: "u32 \<Rightarrow> ('s, 'g1, 'g2, 'gt, 'addr, 'ip) host"
  assumes C: "scalar_laws C" "pairing_laws C" "g2_generator_faithful C"
    and n: "unat n < 2 ^ 32" "unat n = 3 * f + 1" "0 < f" "t \<noteq> 0" "unat t \<le> 2 * f + 1" "unat t \<le> 84"
  defines "R \<equiv> {i :: u32. unat i < unat n}"
    and "F \<equiv> joint_poly (\<lambda>j. map (ho_rng (H j)) [0..<unat t]) {i :: u32. unat i < unat n} (unat t)"
  assumes hosts: "\<forall>i\<in>R. genesis_host C n t i (H i) (pr_config (p i)) \<and> ns_peer_map (pr_config (p i)) = peers"
    and run: "\<forall>i\<in>R. process_run (H i) (evs i) = Ok (p i) \<and> Stabilized \<in> set (evs i) \<and>
      Deadline_Reached \<notin> set (evs i) \<and> Net Accept_Failed \<notin> set (evs i)"
    and rest: "\<forall>i\<in>R. process_step (H i) Turn (p i) = p i \<and> sv_open (pr_server (p i)) = []"
    and few: "\<forall>i\<in>R. length (arrived (H i) (pr_config (p i)) (evs i)) \<le> MAX_CONNECTIONS"
    and sent: "\<forall>i\<in>R. \<forall>bs\<in>set (arrived (H i) (pr_config (p i)) (evs i)).
      \<exists>j\<in>R - {i}. \<exists>whole k. (i, whole) \<in> set (pr_dealt (p j)) \<and> bs = take k whole"
    and complete: "\<forall>i\<in>R. \<forall>j\<in>R - {i}. \<forall>bs. (i, bs) \<in> set (pr_dealt (p j)) \<longrightarrow>
      bs \<in> set (arrived (H i) (pr_config (p i)) (evs i))"
    and wire: "\<forall>i\<in>R. \<forall>j\<in>R - {i}. dkg_encodable C (share_for C (\<lambda>j. dkg_new (ho_rng (H j)) j t n) i j)"
      "length d = 32" "\<forall>i\<in>R. \<forall>m. g1_encodable C (sign_bls_message C m (poly_eval F (x_coord C i)))"
    and pp: "pp = vote_on C (0, s, d) 0 (poly_eval F (x_coord C 0)) PrePrepare"
    and r1: "eps1 = deliver_all C R (\<lambda>_. [vote_frame C pp]) (\<lambda>i. pr_endpoint (p i))"
    and r2: "\<forall>i\<in>R. set (ps i) = inbox C no_loss peers R eps1 i" "eps2 = deliver_all C R ps eps1"
    and r3: "\<forall>i\<in>R. set (cs i) = inbox C no_loss peers R eps2 i" "eps3 = deliver_all C R cs eps2"
  shows "\<forall>i\<in>R. pr_main (p i) = Serving \<and> e_sk (pr_endpoint (p i)) = Some (poly_eval F (x_coord C i))"
    and "(net_step C peers R {vote_frame C pp})\<^sup>*\<^sup>* (\<lambda>i. pr_endpoint (p i)) eps3"
    and "\<forall>i\<in>R. \<exists>st'. e_state (eps3 i) = Some st' \<and> fmlookup (committed_digest (st_core st')) (0, s) = Some d"
proof -
  define D :: "u32 \<Rightarrow> ('s, 'g2) dkg_session" where "D j = dkg_new (ho_rng (H j)) j t n" for j
  define P where "P j = dk_secret_polynomial (D j)" for j
  have P: "P j = map (ho_rng (H j)) [0..<unat t]" for j by (simp add: P_def D_def dkg_new_def)
  have cfg: "pr_settings (p i) = genesis_node n t i" "nc_threshold (pr_config (p i)) = t" "ho_curve (H i) = C"
    if "i \<in> R" for i
    using hosts that by (auto simp: genesis_host_def settings_of_def)
  have frame: "(i, bs) \<in> set (pr_dealt (p j)) \<longleftrightarrow> bs = share_frame C (share_for C D i j)"
    if i: "i \<in> R" and j: "j \<in> R - {i}" for i j bs
    using dealt_frame [of C n t j "H j" "p j" i "evs j" bs] hosts run n(1,4) i j
    by (auto simp: R_def D_def dkg_new_def)
  have oth: "others n i = R - {i}" for i by (simp add: R_def)
  have words: "n \<noteq> 0" "n = 3 * ((n - 1) div 3) + 1" using n(2) topology_word [OF n(2)] by auto
  have L: "pr_main (p i) = Serving \<and> (\<exists>share st. live share st (pr_endpoint (p i)) \<and>
      pr_bootstrap (H i) (p i) [Deadline] = Ok (share, st)) \<and>
      set (e_tx_dkg (pr_endpoint (p i))) \<subseteq> share_for C D i ` others n i \<and> sv_error (pr_server (p i)) = None" if i: "i \<in> R" for i
  proof (rule rested_node_is_live [OF C n(1) words(1) n(4) _ words(2) _ _ n(6), where evs = "evs i" and cfg = "pr_config (p i)"])
    show "honest_dealers C n t i D"
      using wire(1) i by (simp add: honest_dealers_def D_def dkg_new_def R_def)
    show "\<forall>bs\<in>set (arrived (H i) (pr_config (p i)) (evs i)).
        \<exists>j\<in>others n i. \<exists>k. bs = take k (share_frame C (share_for C D i j))"
    proof
      fix bs
      assume "bs \<in> set (arrived (H i) (pr_config (p i)) (evs i))"
      then obtain j whole k where j: "j \<in> R - {i}" "(i, whole) \<in> set (pr_dealt (p j))" "bs = take k whole"
        using sent [rule_format, OF i] by blast
      show "\<exists>j\<in>others n i. \<exists>k. bs = take k (share_frame C (share_for C D i j))"
        unfolding oth j(3) frame [OF i j(1), THEN iffD1, OF j(2)] by (rule bexI [OF _ j(1)], rule exI, rule refl)
    qed
    show "\<forall>j\<in>others n i. share_frame C (share_for C D i j) \<in> set (arrived (H i) (pr_config (p i)) (evs i))"
      unfolding oth using complete [rule_format, OF i] frame [OF i, THEN iffD2, OF _ refl] by simp
  qed (use i hosts run rest few in \<open>simp_all add: R_def\<close>)
  define share st where "share i = the (e_sk (pr_endpoint (p i)))" and "st i = the (e_state (pr_endpoint (p i)))" for i
  have live: "live (share i) (st i) (pr_endpoint (p i))"
    and boot: "pr_bootstrap (H i) (p i) [Deadline] = Ok (share i, st i)" if "i \<in> R" for i
    using L [OF that] by (auto simp: live_def share_def st_def)
  have hon: "\<forall>ev\<in>set (pr_shares (p i) @ [Deadline]). honest_inbound C P ev" if i: "i \<in> R" for i
  proof -
    have "honest_inbound C P (Share m)" if "m \<in> set (e_tx_dkg (pr_endpoint (p i)))" for m
    proof -
      obtain j where "m = share_for C D i j" "j \<in> others n i" using L [OF i] \<open>m \<in> _\<close> by blast
      then show ?thesis by (simp add: honest_inbound_def P_def generate_commitments_def) (simp add: D_def dkg_new_def)
    qed
    then show ?thesis by (auto simp: honest_inbound_def [of C P Deadline] dest: in_set_takeD)
  qed
  have b: "\<forall>i\<in>R. empty_log (ho_files (H i) (ns_wal_path (pr_config (p i)))) \<and> P i = map (ho_rng (H i)) [0..<unat t] \<and>
      (\<forall>ev\<in>set (pr_shares (p i) @ [Deadline]). honest_inbound C P ev) \<and>
      bootstrap C (ho_files (H i) (ns_wal_path (pr_config (p i)))) (genesis_node n t i) (ho_rng (H i))
        (pr_shares (p i) @ [Deadline]) = Ok (share i, st i)"
    using hosts hon P boot cfg by (simp add: genesis_host_def)
  have nn: "unat (ucast n :: u32) = unat n" using n(1) by (simp add: unsigned_ucast_eq take_bit_nat_eq_self_iff)
  have ids: "set (peer_ids (genesis_node n t 0)) = R" by (auto simp: peer_ids_iff R_def nn)
  have sh: "share i = poly_eval F (x_coord C i)" if i: "i \<in> R" for i
    using bootstrap_ready(1) [OF C(1,3) n(1) words(1), of _ P i, OF _ P _ b [rule_format, OF i, THEN conjunct2, THEN conjunct2, THEN conjunct2]]
      b [rule_format, OF i] unfolding ids P by (simp add: F_def R_def)
  show "\<forall>i\<in>R. pr_main (p i) = Serving \<and> e_sk (pr_endpoint (p i)) = Some (poly_eval F (x_coord C i))"
    using L live sh by (metis live_def)
  have zero: "0 \<in> R" using n(2) by (simp add: R_def)
  have wire': "\<forall>i\<in>R. \<forall>m. g1_encodable C (sign_bls_message C m (share i))" using wire(3) sh by simp
  have pp': "pp = vote_on C (0, s, d) 0 (share 0) PrePrepare" using pp sh [OF zero] by simp
  have peers: "\<forall>i\<in>R. fmlookup peers i \<noteq> None"
  proof
    fix i assume i: "i \<in> R"
    have "from_env (ho_parse_addr (H i)) (ho_env (H i)) = Ok (pr_config (p i))" using hosts i by (simp add: genesis_host_def)
    from from_env_peers [OF this, of i] show "fmlookup peers i \<noteq> None"
      using hosts i cfg(1) [OF i] by (simp add: peer_ids_iff nn) (simp add: R_def)
  qed
  note round = genesis_round [OF C n(1-3,5), folded R_def, OF b wire(2) wire' pp' peers _ r1 r2 r3]
  show "(net_step C peers R {vote_frame C pp})\<^sup>*\<^sup>* (\<lambda>i. pr_endpoint (p i)) eps3" using round(1) live by blast
  show "\<forall>i\<in>R. \<exists>st'. e_state (eps3 i) = Some st' \<and> fmlookup (committed_digest (st_core st')) (0, s) = Some d"
    using round(2) live by blast
qed

end
