(* ===== verification/Deployment_Guarantees.thy ===== *)
theory Deployment_Guarantees
  imports Samples Started_Cluster
begin

text \<open>
  The properties of whole processes and of replicas joined by their own transport: started processes
  generate their keys and commit a proposal, a process installs what the bootstrap returns, repeated
  shares stop it, silent replicas block progress, and the listener serves what it admits.
\<close>

section \<open>Four machines\<close>

definition four_ids :: "u32 set" where "four_ids = {0, 1, 2, 3}"

lemma four_ids: "{i :: u32. unat i < unat (4 :: usize)} = four_ids"
  using below_four by (simp add: four_ids_def)

definition loopback :: "16 word \<Rightarrow> str" where
  "loopback port = ascii ''127.0.0.1:'' @ dec_string (unat port)"

text \<open>Machines on which only the identifier is set: the defaults are four nodes and threshold three.
  An address is its text, the part before the colon the host. Every coefficient is 1.\<close>

definition four_host :: "u32 \<Rightarrow> (rat, rat, rat, rat, str, str) host" where
  "four_host i = \<lparr>ho_curve = short_line, ho_rng = (\<lambda>_. 1),
     ho_env = (\<lambda>_. None)(ascii ''NODE_ID'' := Some (dec_string (unat i))), ho_pid = 0,
     ho_parse_addr = Some, ho_ip = take 9, ho_files = (\<lambda>_. empty_disk), ho_bind_ok = True\<rparr>"

definition four_peers :: "(u32, str) fmap" where
  "four_peers = fold (\<lambda>i. fmupd i (loopback (peer_port i))) (peer_ids (genesis_node 4 3 0)) fmempty"

lemma four_settings:
  "\<exists>cfg. genesis_host short_line 4 3 i (four_host i) cfg \<and> ns_peer_map cfg = four_peers"
proof -
  have n: "parse_unsigned (2 ^ 64) (ascii ''4'') = Ok 4" "parse_unsigned (2 ^ 64) (ascii ''3'') = Ok 3"
    "parse_unsigned (2 ^ 64) (ascii ''15'') = Ok 15"
    by (simp_all add: parse_unsigned_def ascii_def)
  have "unat i < 2 ^ 32" using unsigned_less [of i, where ?'a = nat] by simp
  then have id: "parse_unsigned (2 ^ 32) (dec_string (unat i)) = Ok (unat i)" by (rule parse_unsigned_dec)
  have keys: "ascii ''TOTAL_NODES'' \<noteq> ascii ''NODE_ID''" "ascii ''THRESHOLD'' \<noteq> ascii ''NODE_ID''"
    "ascii ''BIND_ADDR'' \<noteq> ascii ''NODE_ID''" "ascii ''DKG_TIMEOUT_SECS'' \<noteq> ascii ''NODE_ID''"
    by (simp_all add: ascii_def)
  have "empty_log empty_disk" by (simp add: empty_log_def empty_disk_def no_fault_def)
  moreover have "peer_map_loop Some (map word_of_nat [0..<4]) fmempty = Ok four_peers"
    using peer_map_loop_ok [of Some loopback "map word_of_nat [0..<4]" fmempty]
    by (simp add: loopback_def four_peers_def peer_ids_def)
  ultimately show ?thesis
    by (simp add: genesis_host_def four_host_def from_env_def env_or_def keys id [simplified] n [simplified]
        settings_of_def Let_def)
qed

lemma four_address: "ascii ''127.0.0.1'' |\<in>| take 9 |`| fmran four_peers"
proof -
  have "0 \<in> set (peer_ids (genesis_node 4 3 0))" by (simp add: peer_ids_iff)
  then have "fmlookup four_peers 0 = Some (loopback (peer_port 0))" by (simp add: four_peers_def fold_fmupd_lookup)
  then have "loopback (peer_port 0) |\<in>| fmran four_peers" by (rule fmranI)
  moreover have "ascii ''127.0.0.1'' = take 9 (loopback (peer_port 0))" by (simp add: loopback_def ascii_def)
  ultimately show ?thesis by (rule rev_fimage_eqI)
qed

abbreviation four_dealer :: "u32 \<Rightarrow> (rat, rat) dkg_session" where
  "four_dealer j \<equiv> dkg_new (\<lambda>_. 1) j 3 4"

lemma four_coord: "i \<in> four_ids \<Longrightarrow> \<exists>k\<le>4. x_coord short_line i = of_nat k"
proof -
  assume "i \<in> four_ids"
  then have "unat (ucast (i + 1) :: u64) \<le> 4" by (auto simp: four_ids_def)
  then show ?thesis
    by (intro exI [of _ "unat (ucast (i + 1) :: u64)"]) (simp add: x_coord_def short_line_def del: of_nat_unat)
qed

lemma four_share:
  assumes i: "i \<in> four_ids"
  shows "dkg_encodable short_line (share_for short_line four_dealer i j)"
proof -
  obtain k where k: "k \<le> 4" "x_coord short_line i = of_nat k" using four_coord [OF i] by blast
  have poly: "dk_secret_polynomial (four_dealer j) = [1, 1, 1]" by (simp add: dkg_new_def upt_rec)
  have "k * k \<le> 16" using mult_le_mono [OF k(1) k(1)] by simp
  have "evaluate_share_for short_line (four_dealer j) i = of_nat (1 + k + k * k)"
    by (simp add: evaluate_share_poly poly poly_eval_Cons k(2) algebra_simps)
  then have "scalar_encodable short_line (evaluate_share_for short_line (four_dealer j) i)"
    using short_line_encodable(3) [of "1 + k + k * k"] k(1) \<open>k * k \<le> 16\<close> by (simp del: of_nat_add of_nat_mult)
  moreover have "g2_encodable short_line (g2_mul short_line (g2_generator short_line) 1)"
    using short_line_encodable(2) [of 1] by (simp add: short_line_def)
  moreover have "g1_encodable short_line (ds_signature (share_for short_line four_dealer i j))"
    using short_line_signature [of 1] by (simp add: dealer_message_def Let_def poly)
  ultimately show ?thesis by (simp add: dkg_encodable_def generate_commitments_def poly)
qed

text \<open>Runs of the four machines that end at rest, with one share from each of the others.\<close>

definition four_frames :: "u32 \<Rightarrow> bytes list" where
  "four_frames i = map (\<lambda>j. share_frame short_line (share_for short_line four_dealer i j))
     (filter (\<lambda>j. j \<noteq> i) [0, 1, 2, 3])"

lemma set_four_frames:
  "set (four_frames i) = (\<lambda>j. share_frame short_line (share_for short_line four_dealer i j)) ` (four_ids - {i})"
  by (auto simp: four_frames_def four_ids_def)

lemma length_four_frames: "length (four_frames i) \<le> MAX_CONNECTIONS"
  unfolding four_frames_def length_map
  by (rule order_trans [OF length_filter_le]) (simp add: MAX_CONNECTIONS_def)

definition four_rest :: "u32 \<Rightarrow> str node_event list \<Rightarrow> (rat, rat, rat, str) process \<Rightarrow> bool" where
  "four_rest i evs p \<longleftrightarrow> process_run (four_host i) evs = Ok p \<and>
     genesis_host short_line 4 3 i (four_host i) (pr_config p) \<and> ns_peer_map (pr_config p) = four_peers \<and>
     Stabilized \<in> set evs \<and> Deadline_Reached \<notin> set evs \<and> Net Accept_Failed \<notin> set evs \<and>
     process_step (four_host i) Turn p = p \<and> sv_open (pr_server p) = [] \<and>
     arrived (four_host i) (pr_config p) evs = four_frames i"

lemma four_rest_exists: "\<exists>evs p. four_rest i evs p"
proof -
  obtain cfg where cfg: "genesis_host short_line 4 3 i (four_host i) cfg" "ns_peer_map cfg = four_peers"
    using four_settings by blast
  have "ascii ''127.0.0.1'' |\<in>| ho_ip (four_host i) |`| fmran (ns_peer_map cfg)"
    using four_address by (simp add: four_host_def cfg(2))
  from rested_run_exists [OF cfg(1) _ length_four_frames [of i] this]
  obtain evs p where "process_run (four_host i) evs = Ok p" "pr_config p = cfg" "Stabilized \<in> set evs"
    "Deadline_Reached \<notin> set evs" "Net Accept_Failed \<notin> set evs" "process_step (four_host i) Turn p = p"
    "sv_open (pr_server p) = []" "arrived (four_host i) cfg evs = four_frames i"
    by (auto simp del: process_step.simps)
  then have "four_rest i evs p" unfolding four_rest_def using cfg by (simp del: process_step.simps)
  then show ?thesis by blast
qed

lemma four_serves:
  assumes i: "i \<in> four_ids" and r: "four_rest i evs p"
  shows "pr_main p = Serving \<and> sv_error (pr_server p) = None \<and> e_state (pr_endpoint p) \<noteq> None"
proof -
  note R = r [unfolded four_rest_def]
  have arr: "arrived (four_host i) (pr_config p) evs = four_frames i" using R by (elim conjE)
  have D: "honest_dealers short_line 4 3 i four_dealer"
    using four_share [OF i] by (simp add: honest_dealers_def dkg_new_def)
  have i': "unat i < unat (4 :: usize)" using i unfolding four_ids [symmetric] by simp
  have sent: "\<forall>bs\<in>set (arrived (four_host i) (pr_config p) evs). \<exists>j\<in>four_ids - {i}. \<exists>k.
      bs = take k (share_frame short_line (share_for short_line four_dealer i j))"
  proof
    fix bs
    assume "bs \<in> set (arrived (four_host i) (pr_config p) evs)"
    then obtain j where j: "j \<in> four_ids - {i}" "bs = share_frame short_line (share_for short_line four_dealer i j)"
      unfolding arr set_four_frames by blast
    show "\<exists>j\<in>four_ids - {i}. \<exists>k. bs = take k (share_frame short_line (share_for short_line four_dealer i j))"
      unfolding j(2) by (rule bexI [OF _ j(1)], rule exI, rule take_all [symmetric], rule order_refl)
  qed
  have complete: "\<forall>j\<in>four_ids - {i}. share_frame short_line (share_for short_line four_dealer i j) \<in>
      set (arrived (four_host i) (pr_config p) evs)"
    unfolding arr set_four_frames by blast
  have few: "length (arrived (four_host i) (pr_config p) evs) \<le> MAX_CONNECTIONS"
    unfolding arr by (rule length_four_frames)
  have "pr_main p = Serving \<and> (\<exists>share st. live share st (pr_endpoint p) \<and>
      pr_bootstrap (four_host i) p [Deadline] = Ok (share, st)) \<and>
      set (e_tx_dkg (pr_endpoint p)) \<subseteq> share_for short_line four_dealer i ` (four_ids - {i}) \<and>
      sv_error (pr_server p) = None"
    by (rule rested_node_is_live [OF short_line_laws, of 4 3 i "four_host i" "pr_config p" four_dealer evs p,
          unfolded four_ids, OF _ _ _ i' _ _ D _ _ _ _ _ few sent complete])
      (use R in simp_all)
  then show ?thesis by (auto simp: live_def)
qed

section \<open>From the start of the processes to the commit\<close>

text \<open>
  C5: A whole cluster. Processes of a topology of \<open>3f+1\<close>, \<open>f > 0\<close>, with a threshold of at most the
  quorum and of 84, start on empty logs. Each receives, in any order and among broken-off or repeated
  copies, the shares that the others sent it, and is at rest before its deadline. Then every node
  serves, and its key is its value of the sum of the polynomials. The leader's signed proposal is
  handed to every node; each handles what the broadcasters of the others send it, and once more, in
  any order and with repetitions. This is a run of the network, at whose end every node has committed
  the proposal.
\<close>

theorem started_cluster_commits:
  fixes C :: "('s::field, 'g1::ab_group_add, 'g2::ab_group_add, 'gt) bls"
    and H :: "u32 \<Rightarrow> ('s, 'g1, 'g2, 'gt, 'addr, 'ip) host"
  assumes C: "scalar_laws C" "pairing_laws C" "g2_generator_faithful C"
    and n: "unat n < 2 ^ 32" "unat n = 3 * f + 1" "0 < f" "t \<noteq> 0" "unat t \<le> 2 * f + 1" "unat t \<le> 84"
  defines "R \<equiv> {i :: u32. unat i < unat n}"
    and "F \<equiv> joint_poly (\<lambda>j. map (ho_rng (H j)) [0..<unat t]) {i :: u32. unat i < unat n} (unat t)"
  assumes hosts: "\<forall>i\<in>R. genesis_host C n t i (H i) (pr_config (p i)) \<and> ns_peer_map (pr_config (p i)) = peers"
    and run: "\<forall>i\<in>R. process_run (H i) (evs i) = Ok (p i) \<and> Stabilized \<in> set (evs i) \<and>
      Deadline_Reached \<notin> set (evs i) \<and> Net Accept_Failed \<notin> set (evs i)"
    and rest: "\<forall>i\<in>R. process_step (H i) Turn (p i) = p i \<and> sv_open (pr_server (p i)) = []"
    and few: "\<forall>i\<in>R. length (arrived (H i) (pr_config (p i)) (evs i)) \<le> MAX_CONNECTIONS"
    and sent: "\<forall>i\<in>R. \<forall>bs\<in>set (arrived (H i) (pr_config (p i)) (evs i)).
      \<exists>j\<in>R - {i}. \<exists>whole k. (i, whole) \<in> set (pr_dealt (p j)) \<and> bs = take k whole"
    and complete: "\<forall>i\<in>R. \<forall>j\<in>R - {i}. \<forall>bs. (i, bs) \<in> set (pr_dealt (p j)) \<longrightarrow>
      bs \<in> set (arrived (H i) (pr_config (p i)) (evs i))"
    and wire: "\<forall>i\<in>R. \<forall>j\<in>R - {i}. dkg_encodable C (share_for C (\<lambda>j. dkg_new (ho_rng (H j)) j t n) i j)"
      "length d = 32" "\<forall>i\<in>R. \<forall>m. g1_encodable C (sign_bls_message C m (poly_eval F (x_coord C i)))"
    and pp: "pp = vote_on C (0, s, d) 0 (poly_eval F (x_coord C 0)) PrePrepare"
    and r1: "eps1 = deliver_all C R (\<lambda>_. [vote_frame C pp]) (\<lambda>i. pr_endpoint (p i))"
    and r2: "\<forall>i\<in>R. set (ps i) = inbox C no_loss peers R eps1 i" "eps2 = deliver_all C R ps eps1"
    and r3: "\<forall>i\<in>R. set (cs i) = inbox C no_loss peers R eps2 i" "eps3 = deliver_all C R cs eps2"
  shows "(\<forall>i\<in>R. pr_main (p i) = Serving \<and> e_sk (pr_endpoint (p i)) = Some (poly_eval F (x_coord C i))) \<and>
    (net_step C peers R {vote_frame C pp})\<^sup>*\<^sup>* (\<lambda>i. pr_endpoint (p i)) eps3 \<and>
    (\<forall>i\<in>R. \<exists>st'. e_state (eps3 i) = Some st' \<and> fmlookup (committed_digest (st_core st')) (0, s) = Some d)"
  using started_round [OF C n hosts [unfolded R_def] run [unfolded R_def] rest [unfolded R_def] few [unfolded R_def]
      sent [unfolded R_def] complete [unfolded R_def] wire(1) [unfolded R_def] wire(2) wire(3) [unfolded R_def F_def]
      pp [unfolded F_def] r1 [unfolded R_def] r2 [unfolded R_def] r3 [unfolded R_def], folded R_def F_def]
  by blast

theorem started_cluster_commits_witness:
  "\<exists>p evs (pp :: rat pbft_message) eps.
    (\<forall>i\<in>four_ids. process_run (four_host i) (evs i) = Ok (p i) \<and> pr_main (p i) = Serving) \<and>
    (net_step short_line four_peers four_ids {vote_frame short_line pp})\<^sup>*\<^sup>* (\<lambda>i. pr_endpoint (p i)) eps \<and>
    (\<forall>i\<in>four_ids. \<exists>st'. e_state (eps i) = Some st' \<and>
       fmlookup (committed_digest (st_core st')) (0, 1) = Some (replicate 32 9))"
proof -
  let ?C = short_line
  obtain evs p where rest: "\<And>i. four_rest i (evs i) (p i)" using four_rest_exists by metis
  note P = rest [unfolded four_rest_def]
  have rng: "ho_rng (four_host j) = (\<lambda>_. 1)" for j by (simp add: four_host_def)
  have dealt: "(i, bs) \<in> set (pr_dealt (p j)) \<longleftrightarrow> bs = share_frame ?C (share_for ?C four_dealer i j)"
    if "i \<in> four_ids" "j \<in> four_ids - {i}" for i j bs
  proof -
    have "i \<noteq> j" "unat i < unat (4 :: usize)" using that unfolding four_ids [symmetric] by auto
    from dealt_frame [of ?C 4 3 j "four_host j" "p j", OF _ _ this(2,1), of "evs j" bs] P [of j]
    show ?thesis unfolding rng by (simp add: dkg_new_def del: process_step.simps)
  qed
  have arr_ss: "arrived (four_host i) (pr_config (p i)) (evs i) = four_frames i" for i using P [of i] by (elim conjE)
  have arr: "set (arrived (four_host i) (pr_config (p i)) (evs i)) =
      (\<lambda>j. share_frame ?C (share_for ?C four_dealer i j)) ` (four_ids - {i})" for i
    unfolding arr_ss set_four_frames ..
  let ?F = "joint_poly (\<lambda>j. map (ho_rng (four_host j)) [0..<unat (3 :: usize)]) four_ids (unat (3 :: usize))"
  have F: "?F = [4, 4, 4]" by (simp add: joint_poly_def rng upt_rec four_ids_def)
  have wire: "g1_encodable ?C (sign_bls_message ?C m (poly_eval ?F (x_coord ?C i)))" if i: "i \<in> four_ids" for i m
  proof -
    obtain k where k: "k \<le> 4" "x_coord ?C i = of_nat k" using four_coord [OF i] by blast
    have "k * k \<le> 16" using mult_le_mono [OF k(1) k(1)] by simp
    then have "4 + 4 * k + 4 * (k * k) < 2 ^ 16" using k(1) by simp
    moreover have "poly_eval ?F (x_coord ?C i) = of_nat (4 + 4 * k + 4 * (k * k))"
      unfolding F k(2) by (simp add: poly_eval_Cons algebra_simps)
    ultimately show ?thesis using short_line_signature by metis
  qed
  let ?pp = "vote_on ?C (0, 1, replicate 32 9) 0 (poly_eval ?F (x_coord ?C 0)) PrePrepare"
  have peers: "fmlookup four_peers i \<noteq> None" if "i \<in> four_ids" for i
    using that unfolding four_ids [symmetric] by (simp add: four_peers_def fold_fmupd_lookup peer_ids_iff)
  have list: "set (sorted_list_of_set (inbox ?C no_loss four_peers four_ids eps i)) = inbox ?C no_loss four_peers four_ids eps i"
    if "i \<in> four_ids" for eps i
    by (rule set_sorted_list_of_set [OF finite_inbox [OF _ peers [OF that]]]) (simp add: four_ids_def)
  define eps1 where "eps1 = deliver_all ?C four_ids (\<lambda>_. [vote_frame ?C ?pp]) (\<lambda>i. pr_endpoint (p i))"
  define ps where "ps i = sorted_list_of_set (inbox ?C no_loss four_peers four_ids eps1 i)" for i
  define eps2 where "eps2 = deliver_all ?C four_ids ps eps1"
  define cs where "cs i = sorted_list_of_set (inbox ?C no_loss four_peers four_ids eps2 i)" for i
  define eps3 where "eps3 = deliver_all ?C four_ids cs eps2"
  have "(\<forall>i\<in>four_ids. pr_main (p i) = Serving \<and> e_sk (pr_endpoint (p i)) = Some (poly_eval ?F (x_coord ?C i))) \<and>
    (net_step ?C four_peers four_ids {vote_frame ?C ?pp})\<^sup>*\<^sup>* (\<lambda>i. pr_endpoint (p i)) eps3 \<and>
    (\<forall>i\<in>four_ids. \<exists>st'. e_state (eps3 i) = Some st' \<and>
       fmlookup (committed_digest (st_core st')) (0, 1) = Some (replicate 32 9))"
  proof (rule started_cluster_commits [OF short_line_laws, of 4 1 3 four_host p four_peers evs, unfolded four_ids,
        OF _ _ _ _ _ _ _ _ _ _ _ _ _ _ _ refl eps1_def _ eps2_def _ eps3_def])
    show "\<forall>i\<in>four_ids. \<forall>bs\<in>set (arrived (four_host i) (pr_config (p i)) (evs i)).
        \<exists>j\<in>four_ids - {i}. \<exists>whole k. (i, whole) \<in> set (pr_dealt (p j)) \<and> bs = take k whole"
    proof (intro ballI)
      fix i bs
      assume i: "i \<in> four_ids" and "bs \<in> set (arrived (four_host i) (pr_config (p i)) (evs i))"
      then obtain j where j: "j \<in> four_ids - {i}" "bs = share_frame ?C (share_for ?C four_dealer i j)"
        unfolding arr by blast
      show "\<exists>j\<in>four_ids - {i}. \<exists>whole k. (i, whole) \<in> set (pr_dealt (p j)) \<and> bs = take k whole"
        by (intro bexI [OF _ j(1)] exI [of _ bs] exI [of _ "length bs"] conjI, rule dealt [OF i j(1), THEN iffD2, OF j(2)]) simp
    qed
    show "\<forall>i\<in>four_ids. \<forall>j\<in>four_ids - {i}. \<forall>bs. (i, bs) \<in> set (pr_dealt (p j)) \<longrightarrow>
        bs \<in> set (arrived (four_host i) (pr_config (p i)) (evs i))"
      unfolding arr using dealt by blast
    show "\<forall>i\<in>four_ids. length (arrived (four_host i) (pr_config (p i)) (evs i)) \<le> MAX_CONNECTIONS"
      unfolding arr_ss using length_four_frames by blast
    show "\<forall>i\<in>four_ids. \<forall>j\<in>four_ids - {i}. dkg_encodable ?C (share_for ?C (\<lambda>j. dkg_new (ho_rng (four_host j)) j 3 4) i j)"
      using four_share by (simp add: rng)
  qed (use P wire list in \<open>simp_all add: ps_def cs_def\<close>)
  then show ?thesis using P by blast
qed

section \<open>One process\<close>

text \<open>
  C10: What a process is. A start without a valid configuration ends with the error of the
  configuration. In every state that a process reaches, whatever the order of its events: until the
  replica is installed it holds no state and no key and has sent no vote; when it serves, it was
  installed with what \<open>bootstrap\<close> returns for the shares it took, on the log file of its configuration,
  and its endpoint is what came of the connections served since; when it has left, that is the error
  of \<open>bootstrap\<close> for the shares it took before the deadline.
\<close>

theorem process_refines_bootstrap:
  "case process_run H evs of
     Err e \<Rightarrow> from_env (ho_parse_addr H) (ho_env H) = Err e
   | Ok p \<Rightarrow> from_env (ho_parse_addr H) (ho_env H) = Ok (pr_config p) \<and>
       (let cfg = settings_of (pr_config p);
            result = bootstrap (ho_curve H) (ho_files H (ns_wal_path (pr_config p))) cfg (ho_rng H)
              (map Share (take (pr_taken p) (e_tx_dkg (pr_endpoint p))) @ [Deadline]) in
        case pr_main p of
          Serving \<Rightarrow> \<exists>share st served ep. result = Ok (share, st) \<and> silent ep \<and>
            pr_taken p \<le> length (e_tx_dkg ep) \<and>
            pr_endpoint p = serve_all (ho_curve H) (nc_node_id cfg) served (ep\<lparr>e_state := Some st, e_sk := Some share\<rparr>)
        | Exited e \<Rightarrow> result = Err e \<and> silent (pr_endpoint p)
        | _ \<Rightarrow> silent (pr_endpoint p))"
proof (cases "process_start H")
  case (Inl e)
  then show ?thesis by (auto simp: process_run_def process_start_def split: sum.splits)
next
  case (Inr p0)
  define p where "p = fold (process_step H) evs p0"
  have inv: "process_inv H p" unfolding p_def by (rule process.run_inv [OF process_inv_start [OF Inr]])
  have run: "process_run H evs = Ok p" by (simp add: process_run_def Inr p_def)
  have c: "from_env (ho_parse_addr H) (ho_env H) = Ok (pr_config p)" and m: "main_inv H p"
    using inv by (simp_all add: process_inv_def)
  show ?thesis
    unfolding run sum.case Let_def using c m unfolding main_inv_def by (cases "pr_main p") auto
qed

text \<open>
  C6: A limit of the listener. Once a process serves and while its listener runs, nothing takes
  shares from their channel, and a connection that sends one on the full channel waits with its
  permit. So the same stream with a share, signed or not, from an allowed address and sent 384
  times, stops the node as soon as the connections that are open at first are handled, at most one
  step each and none when none is open: the replica stays as it was before the flood, and whatever
  happens afterwards, every permit is held by a connection that waits, and no message reaches the
  replica any more.
\<close>

theorem share_flood_stops_node:
  assumes run: "process_run H evs = Ok p" and serving: "pr_main p = Serving"
    and listening: "sv_error (pr_server p) = None"
    and ip: "ip |\<in>| ho_ip H |`| fmran (ns_peer_map (pr_config p))"
    and share: "share_of (ho_curve H) s = Some m"
  shows "\<exists>ks d q. length ks \<le> length (sv_open (pr_server p)) \<and>
    process_run H (evs @ map (\<lambda>k. Net (Serve k io)) ks) = Ok d \<and>
    process_run H (evs @ map (\<lambda>k. Net (Serve k io)) ks @ flood 384 ip s io) = Ok q \<and>
    e_state (pr_endpoint q) = e_state (pr_endpoint d) \<and>
    (\<forall>later. \<exists>r. process_run H (evs @ map (\<lambda>k. Net (Serve k io)) ks @ flood 384 ip s io @ later) = Ok r \<and>
       pr_endpoint r = pr_endpoint q \<and> length (sv_open (pr_server r)) = MAX_CONNECTIONS \<and>
       (\<forall>k<MAX_CONNECTIONS. \<forall>io'. waits H (Serve k io') r))"
proof -
  obtain p0 where p0: "process_start H = Ok p0" "p = fold (process_step H) evs p0"
    using run by (auto simp: process_run_def split: sum.splits)
  have "process_inv H p" unfolding p0(2) by (rule process.run_inv [OF process_inv_start [OF p0(1)]])
  from drain_run [OF this serving listening, of io]
  obtain ks d where d: "length ks \<le> length (sv_open (pr_server p))"
    "d = fold (process_step H) (map (\<lambda>k. Net (Serve k io)) ks) p"
    "clogging H d" "process_inv H d" "sv_error (pr_server d) = None" "pr_config d = pr_config p" by blast
  have le: "pr_taken d \<le> length (e_tx_dkg (pr_endpoint d))" using d(4) by (simp add: process_inv_def)
  have "room d \<le> 384" by (simp add: room_def CHANNEL_CAPACITY_def MAX_CONNECTIONS_def)
  then have f: "clogged H (fold (process_step H) (flood 384 ip s io) d)"
    "e_state (pr_endpoint (fold (process_step H) (flood 384 ip s io) d)) = e_state (pr_endpoint d)"
    using flood_run [OF d(3,5) le _ share, of ip] ip d(6) by simp_all
  have run: "process_run H (evs @ map (\<lambda>k. Net (Serve k io)) ks @ es) = Ok (fold (process_step H) es d)" for es
    by (simp add: process_run_def p0 d(2) del: process_step.simps)
  have "\<forall>later. \<exists>r. process_run H (evs @ map (\<lambda>k. Net (Serve k io)) ks @ flood 384 ip s io @ later) = Ok r \<and>
      pr_endpoint r = pr_endpoint (fold (process_step H) (flood 384 ip s io) d) \<and>
      length (sv_open (pr_server r)) = MAX_CONNECTIONS \<and>
      (\<forall>k<MAX_CONNECTIONS. \<forall>io'. waits H (Serve k io') r)"
    unfolding run fold_append comp_apply
    using clogged_later [OF f(1)] clogged_waits by blast
  then show ?thesis using d(1) f(2) run [of "[]"] run by (auto simp del: process_step.simps waits.simps)
qed

theorem share_flood_stops_node_witness:
  "\<exists>evs q. process_run (four_host 0) evs = Ok q \<and> e_state (pr_endpoint q) \<noteq> None \<and>
    (\<forall>later. \<exists>r. process_run (four_host 0) (evs @ later) = Ok r \<and> pr_endpoint r = pr_endpoint q \<and>
       length (sv_open (pr_server r)) = MAX_CONNECTIONS \<and>
       (\<forall>k<MAX_CONNECTIONS. \<forall>io. waits (four_host 0) (Serve k io) r))"
proof -
  obtain evs p where r: "four_rest 0 evs p" using four_rest_exists by blast
  note R = r [unfolded four_rest_def]
  have s: "pr_main p = Serving" "sv_error (pr_server p) = None" and live: "e_state (pr_endpoint p) \<noteq> None"
    using four_serves [OF _ r] by (simp_all add: four_ids_def)
  let ?m = "share_for short_line four_dealer 0 1"
  have enc: "dkg_encodable short_line ?m" by (rule four_share) (simp add: four_ids_def)
  have "length (ds_commitments ?m) = 3" by (simp add: generate_commitments_def dkg_new_def)
  then have "length (dkg_to_bytes short_line ?m) = 376" by (simp add: length_dkg_to_bytes [OF enc])
  then have "parse_frame (share_frame short_line ?m @ []) = Ok (PACKET_TYPE_DKG, dkg_to_bytes short_line ?m)"
    by (intro parse_frame_frame) auto
  then have share: "share_of (ho_curve (four_host 0)) (share_frame short_line ?m) = Some ?m"
    by (simp add: share_of_def dkg_decode_encode [OF enc] four_host_def)
  have ip: "ascii ''127.0.0.1'' |\<in>| ho_ip (four_host 0) |`| fmran (ns_peer_map (pr_config p))"
    using four_address R by (simp add: four_host_def)
  from share_flood_stops_node [OF _ s ip share, of evs handler_io_ok] R
  obtain ks d q where "ks = []" "process_run (four_host 0) (evs @ map (\<lambda>k. Net (Serve k handler_io_ok)) ks) = Ok d"
    and q: "process_run (four_host 0) (evs @ map (\<lambda>k. Net (Serve k handler_io_ok)) ks @
        flood 384 (ascii ''127.0.0.1'') (share_frame short_line ?m) handler_io_ok) = Ok q"
      "e_state (pr_endpoint q) = e_state (pr_endpoint d)"
      "\<forall>later. \<exists>r. process_run (four_host 0) (evs @ map (\<lambda>k. Net (Serve k handler_io_ok)) ks @
          flood 384 (ascii ''127.0.0.1'') (share_frame short_line ?m) handler_io_ok @ later) = Ok r \<and>
        pr_endpoint r = pr_endpoint q \<and> length (sv_open (pr_server r)) = MAX_CONNECTIONS \<and>
        (\<forall>k<MAX_CONNECTIONS. \<forall>io. waits (four_host 0) (Serve k io) r)"
    by (auto simp del: waits.simps)
  then have "d = p" using R by simp
  then show ?thesis
    using q live by (intro exI [of _ "evs @ map (\<lambda>k. Net (Serve k handler_io_ok)) ks @
        flood 384 (ascii ''127.0.0.1'') (share_frame short_line ?m) handler_io_ok"] exI [of _ q])
      (simp del: waits.simps)
qed

section \<open>Silent replicas\<close>

definition three_proposal :: "u64 pbft_message" where
  "three_proposal = solo_message PrePrepare 0 1 9"

lemma three_config: "\<exists>cfg. make_config 4 (fmap_of_list [(0, 7), (1, 7), (2, 7), (3, 7 :: u64)]) 7 = Ok cfg"
proof (rule make_config_registered)
  fix i :: u32
  assume "unat i < unat (ucast (4 :: usize) :: u32)"
  then have "i \<in> {0, 1, 2, 3}" using below_four by auto
  then show "fmlookup (fmap_of_list [(0, 7), (1, 7), (2, 7), (3, 7 :: u64)]) i \<noteq> None"
    by (auto simp: fmlookup_of_list)
qed simp

text \<open>
  C7: A limit of progress. When \<open>f\<close> replicas are silent, no schedule and no outcome of the sends and
  of the log lets one of the others prepare or commit anything, as long as no foreign prepare votes
  arrive: a replica counts the votes it hears, its broadcaster skips itself, so that \<open>2f\<close> votes at
  most reach it.
\<close>

theorem silent_replicas_block_progress:
  assumes cfg: "make_config n keys mpk = Ok cfg" "n \<noteq> 0"
    and C: "g1_codec_laws C" and E: "env_silent C E"
    and L: "L \<subseteq> fset (registered_nodes cfg)" "unat (byz_f cfg) \<le> card (fset (registered_nodes cfg) - L)"
    and start: "\<forall>i\<in>L. e_tx_pbft (eps0 i) = [] \<and> (\<exists>w. e_state (eps0 i) =
      Some \<lparr>st_config = cfg, st_core = empty_core, st_wal = w, wal_failed = False\<rparr>)"
    and run: "(net_step C peers L E)\<^sup>*\<^sup>* eps0 eps" and i: "i \<in> L"
  shows "\<exists>st. e_state (eps i) = Some st \<and> st_config st = cfg \<and>
    prepared_certificates (st_core st) = fmempty \<and> committed_digest (st_core st) = fmempty"
proof -
  have top: "topology_ok cfg" by (rule make_config_Ok(2) [OF cfg])
  have fin: "finite L" by (rule finite_subset [OF L(1)]) simp
  have "card (fset (registered_nodes cfg)) \<le> 3 * unat (byz_f cfg) + 1"
    using registered_card(2) [OF top] top by (simp add: topology_ok_def)
  moreover have "card (fset (registered_nodes cfg) - L) = card (fset (registered_nodes cfg)) - card L"
    by (rule card_Diff_subset [OF fin L(1)])
  moreover have "card L \<le> card (fset (registered_nodes cfg))" by (rule card_mono [OF _ L(1)]) simp
  ultimately have few: "card L \<le> unat (quorum_size cfg)" using L(2) top by (simp add: topology_ok_def)
  have "\<forall>i\<in>L. idle_endpoint cfg L i (eps0 i)"
    using start by (auto simp: idle_endpoint_def unprepared_def empty_core_def)
  from net_run_idle [OF run C E fin few this] i show ?thesis
    by (auto simp: idle_endpoint_def unprepared_def)
qed

theorem silent_replicas_block_progress_witness:
  "\<exists>cfg (eps :: u32 \<Rightarrow> (rat, u64, u64) endpoint). unat (quorum_size cfg) = 3 \<and> (\<forall>i\<in>{0, 1, 2 :: u32}.
     e_tx_pbft (eps i) = [vote_on permissive (0, 1, replicate 32 9) i 0 Prepare] \<and>
     (\<exists>st. e_state (eps i) = Some st \<and> st_config st = cfg \<and>
        prepared_certificates (st_core st) = fmempty \<and> committed_digest (st_core st) = fmempty))"
proof -
  let ?L = "{0, 1, 2} :: u32 set" and ?k = "(0, 1, replicate 32 9)"
  obtain cfg where cfg: "make_config 4 (fmap_of_list [(0, 7), (1, 7), (2, 7), (3, 7 :: u64)]) 7 = Ok cfg"
    using three_config by blast
  note M = make_config_Ok [OF cfg]
  have top: "topology_ok cfg" by (rule M(2)) simp
  have f: "unat (byz_f cfg) = 1" "unat (quorum_size cfg) = 3" using top M(3) by (simp_all add: topology_ok_def)
  have reg: "fset (registered_nodes cfg) = four_ids"
    unfolding four_ids [symmetric] by (simp add: set_eq_iff M(6))
  have rest: "four_ids - ?L = {3}" by (auto simp: four_ids_def)
  define eps0 where "eps0 = (\<lambda>i :: u32. live_endpoint (0 :: rat)
    \<lparr>st_config = cfg, st_core = empty_core, st_wal = wal_open [], wal_failed = False\<rparr> ::
      (rat, u64, u64) endpoint)"
  define pp where "pp = vote_frame permissive three_proposal"
  define eps where "eps = deliver_all permissive ?L (\<lambda>_. [pp]) eps0"
  have wf: "pm_wf three_proposal" by (simp add: three_proposal_def solo_message_def pm_wf_def)
  note send = pm_sendableI [OF permissive_g1_codec wf]
  have E: "env_silent permissive {pp}"
    using parse_sendable [OF send] decode_sendable [OF send, of "[]"]
    by (auto simp: env_silent_def pp_def vote_frame_def) (simp add: three_proposal_def solo_message_def)
  have run: "(net_step permissive (fmempty :: (u32, unit) fmap) ?L {pp})\<^sup>*\<^sup>* eps0 eps"
    unfolding eps_def
    by (rule deliver_all_reach [of ?L ?L "\<lambda>_. [pp]" permissive no_loss fmempty eps0 "{pp}", THEN conjunct1]) auto
  have start: "\<forall>i\<in>?L. e_tx_pbft (eps0 i) = [] \<and> (\<exists>w. e_state (eps0 i) =
      Some \<lparr>st_config = cfg, st_core = empty_core, st_wal = w, wal_failed = False\<rparr>)"
    by (simp add: eps0_def live_endpoint_def)
  have lead: "leader_proposal permissive cfg ?k three_proposal"
    using send M(4,6) by (simp add: leader_proposal_def round_vote_def three_proposal_def solo_message_def
        proposal_key_def get_expected_leader_def vote_auth_def)
  have rdy: "ready permissive cfg ?k 0 (eps0 i)" for i
    unfolding eps0_def by (rule ready_empty [OF M(1) live_endpoint])
  have tx: "e_tx_pbft (eps i) = [vote_on permissive ?k i 0 Prepare]" if "i \<in> ?L" for i
    using receive_proposal [OF rdy lead, of i i] that by (simp add: eps_def deliver_all_def pp_def)
  have "\<exists>st. e_state (eps i) = Some st \<and> st_config st = cfg \<and>
      prepared_certificates (st_core st) = fmempty \<and> committed_digest (st_core st) = fmempty" if "i \<in> ?L" for i
    by (rule silent_replicas_block_progress [OF cfg _ permissive_g1_codec E _ _ start run that])
      (simp_all add: reg rest f, simp add: four_ids_def)
  then show ?thesis using tx f by blast
qed

section \<open>The listener\<close>

text \<open>
  C33: Admission. Whatever happens to a bound listener, the shared state is the result of handling,
  one after the other, streams that came from allowed addresses, each at most once; at most 128
  connections are open; and no such stream is lost unless \<open>accept\<close> has failed or more than 128
  arrived.
\<close>

theorem listener_serves_admitted:
  fixes C :: "('s::field, 'g1::ab_group_add, 'g2, 'gt) bls"
  shows "\<exists>served lost. let sv = start_tcp_listener C True self_id ip peer_map events ep;
      arrived = admissible_streams (ip |`| fmran peer_map) events in
    sv_endpoint sv = serve_all C self_id served ep \<and>
    mset arrived = mset (map snd served) + mset (sv_open sv) + lost \<and>
    length (sv_open sv) \<le> MAX_CONNECTIONS \<and>
    (lost = {#} \<or> Accept_Failed \<in> set events \<or> MAX_CONNECTIONS < length arrived)"
proof -
  let ?sv0 = "\<lparr>sv_endpoint = ep, sv_open = [], sv_error = None\<rparr>" and ?allowed = "ip |`| fmran peer_map"
  have "length (sv_open (fold (listener_step (C, self_id, ?allowed)) events ?sv0)) \<le> MAX_CONNECTIONS"
    by (rule listener.run_inv) simp
  then show ?thesis
    using listener_history [of C self_id ?allowed events ?sv0]
    by (simp add: start_tcp_listener_def Let_def)
qed

end
