(* ===== verification/Test_Kit.thy ===== *)
theory Test_Kit
  imports Samples
begin

text \<open>
  The unit and integration tests of the engine are programs over its public operations; the
  theories that follow translate them and show that they pass. This theory holds what they share:
  the key generation and the message construction that the test modules write out, the assertions
  as continuations (a failed one ends the test with \<open>False\<close>), the tested replica, and one rule per
  step of a test.
  A test draws the coefficients of the key polynomial at random; here they are an argument, so that
  a lemma about a test speaks of all draws.
\<close>

section \<open>Keys, messages and log files\<close>

text \<open>The loop over \<open>0..n\<close> of \<open>generate_test_keys\<close>.\<close>

fun insert_test_keys ::
  "('s::field, 'g1, 'g2, 'gt) bls \<Rightarrow> 's list \<Rightarrow> u32 list \<Rightarrow> (u32, 's) fmap \<Rightarrow> (u32, 'g2) fmap \<Rightarrow>
    (u32, 's) fmap \<times> (u32, 'g2) fmap" where
  "insert_test_keys C secret_polynomial [] sks pks = (sks, pks)"
| "insert_test_keys C secret_polynomial (i # ids) sks pks =
     (let x = x_coord C i;
          sk_i = poly_loop secret_polynomial x 0 1;
          pk_i = g2_mul C (g2_generator C) sk_i
      in insert_test_keys C secret_polynomial ids (fmupd i sk_i sks) (fmupd i pk_i pks))"

definition generate_test_keys ::
  "('s::field, 'g1, 'g2, 'gt) bls \<Rightarrow> (nat \<Rightarrow> 's) \<Rightarrow> usize \<Rightarrow> usize \<Rightarrow>
    (u32, 's) fmap \<times> (u32, 'g2) fmap \<times> 'g2" where
  "generate_test_keys C random n threshold =
     (let secret_polynomial = map random [0..<unat threshold];
          master_sk = secret_polynomial ! 0;
          master_pk = g2_mul C (g2_generator C) master_sk
      in case insert_test_keys C secret_polynomial (map word_of_nat [0..<unat (ucast n :: u32)])
                fmempty fmempty of
           (sks, pks) \<Rightarrow> (sks, pks, master_pk))"

text \<open>A message signed by \<open>secret_keys[&sender_id]\<close>; the index panics on an unknown sender, which no
  test asks for.\<close>

definition create_pbft_message ::
  "('s, 'g1, 'g2, 'gt) bls \<Rightarrow> phase \<Rightarrow> u64 \<Rightarrow> u64 \<Rightarrow> bytes \<Rightarrow> u32 \<Rightarrow> 's \<Rightarrow> 'g1 pbft_message" where
  "create_pbft_message C phase view seq digest sender_id sk =
     (let canonical = canonical_msg (phase_u8 phase) view seq digest;
          signature = sign_bls_message C canonical sk
      in \<lparr>pm_phase = phase, pm_view = view, pm_seq = seq, pm_digest = digest,
          pm_sender_id = sender_id, pm_signature = signature\<rparr>)"

abbreviation secret_key :: "(u32, 's) fmap \<Rightarrow> u32 \<Rightarrow> 's" where
  "secret_key sks i \<equiv> the (fmlookup sks i)"

text \<open>A log file with the given bytes whose system calls succeed.\<close>

definition log_file :: "bytes \<Rightarrow> recovery_io" where
  "log_file disk = \<lparr>o_open = True, o_reopen = True, o_reads = [], o_disk = disk\<rparr>"

section \<open>Assertions\<close>

text \<open>\<open>expect\<close> and \<open>unwrap\<close> of a constructor, \<open>assert!(r.is_ok())\<close>, and \<open>assert_eq!\<close> on the response or
  on the error; the rest of the test is a continuation over the state.\<close>

definition expect :: "('e, 'a) result \<Rightarrow> ('a \<Rightarrow> bool) \<Rightarrow> bool" where
  "expect res rest = (case res of Err _ \<Rightarrow> False | Ok x \<Rightarrow> rest x)"

definition assert_ok :: "('e, 'a) result \<times> 'st \<Rightarrow> ('st \<Rightarrow> bool) \<Rightarrow> bool" where
  "assert_ok out rest = (is_ok (fst out) \<and> rest (snd out))"

definition assert_response :: "'a \<Rightarrow> ('e, 'a) result \<times> 'st \<Rightarrow> ('st \<Rightarrow> bool) \<Rightarrow> bool" where
  "assert_response r out rest = (fst out = Ok r \<and> rest (snd out))"

definition assert_error :: "'e \<Rightarrow> ('e, 'a) result \<times> 'st \<Rightarrow> ('st \<Rightarrow> bool) \<Rightarrow> bool" where
  "assert_error e out rest = (fst out = Err e \<and> rest (snd out))"

text \<open>The loops of the tests: one message per sender, each accepted.\<close>

fun accept_each ::
  "('s::field, 'g1::ab_group_add, 'g2, 'gt) bls \<Rightarrow> (('g1, 'g2) pbft_state \<Rightarrow> u32 \<Rightarrow> 'g1 pbft_message) \<Rightarrow>
    u32 list \<Rightarrow> ('g1, 'g2) pbft_state \<Rightarrow> (('g1, 'g2) pbft_state \<Rightarrow> bool) \<Rightarrow> bool" where
  "accept_each C msg [] state rest = rest state"
| "accept_each C msg (i # ids) state rest =
     assert_ok (handle_message C handler_io_ok (msg state i) state)
       (\<lambda>state. accept_each C msg ids state rest)"

text \<open>The log that a dropped replica leaves behind.\<close>

abbreviation log_left :: "('g1, 'g2) pbft_state \<Rightarrow> recovery_io" where
  "log_left state \<equiv> log_file (content (st_wal state))"

text \<open>A log under a fresh name that the test writes itself, with \<open>unwrap\<close> on every append.\<close>

fun append_each ::
  "('s, 'g1, 'g2, 'gt) bls \<Rightarrow> 'g1 wal_row list \<Rightarrow> wal \<Rightarrow> (wal \<Rightarrow> bool) \<Rightarrow> bool" where
  "append_each C [] w rest = rest w"
| "append_each C (r # rs) w rest =
     (case append_entry C append_io_ok r w of
        (Err _, _) \<Rightarrow> False
      | (Ok _, w) \<Rightarrow> append_each C rs w rest)"

lemma content_wal_open [simp]: "content (wal_open bs) = bs"
  by (simp add: wal_open_def)

lemma append_each_wal:
  "append_each C rs (wal_open bs) rest = rest (wal_open (bs @ encode_rows C rs))"
  by (induction rs arbitrary: bs) (simp_all add: append_entry_def wal_open_def Let_def)

section \<open>The tested replica\<close>

definition test_secret :: "('s::field, 'g1, 'g2, 'gt) bls \<Rightarrow> (nat \<Rightarrow> 's) \<Rightarrow> u32 \<Rightarrow> 's" where
  "test_secret C random i = poly_eval [random 0, random 1, random 2] (x_coord C i)"

definition test_secret_keys :: "('s::field, 'g1, 'g2, 'gt) bls \<Rightarrow> (nat \<Rightarrow> 's) \<Rightarrow> (u32, 's) fmap" where
  "test_secret_keys C random = fold (\<lambda>i. fmupd i (test_secret C random i)) [0, 1, 2, 3] fmempty"

definition test_public_keys :: "('s::field, 'g1, 'g2, 'gt) bls \<Rightarrow> (nat \<Rightarrow> 's) \<Rightarrow> (u32, 'g2) fmap" where
  "test_public_keys C random =
     fold (\<lambda>i. fmupd i (g2_mul C (g2_generator C) (test_secret C random i))) [0, 1, 2, 3] fmempty"

definition test_config :: "('s::field, 'g1, 'g2, 'gt) bls \<Rightarrow> (nat \<Rightarrow> 's) \<Rightarrow> 'g2 pbft_config" where
  "test_config C random = \<lparr>total_nodes = 4, byz_f = 1, quorum_size = 3,
     registered_nodes = {|0, 1, 2, 3|}, public_keys = test_public_keys C random,
     master_public_key = g2_mul C (g2_generator C) (random 0)\<rparr>"

lemma below_four_simps [simp]: "unat (0 :: u32) < 4" "unat (1 :: u32) < 4" "unat (2 :: u32) < 4" "unat (3 :: u32) < 4"
  by simp_all

lemma test_config_fields [simp]:
  "total_nodes (test_config C random) = 4" "byz_f (test_config C random) = 1"
  "quorum_size (test_config C random) = 3" "registered_nodes (test_config C random) = {|0, 1, 2, 3|}"
  "public_keys (test_config C random) = test_public_keys C random"
  "master_public_key (test_config C random) = g2_mul C (g2_generator C) (random 0)"
  by (simp_all add: test_config_def)

lemma empty_core_fields [simp]:
  "current_view empty_core = 0" "highest_seq empty_core = 0" "last_stable_checkpoint empty_core = 0"
  "prepared_certificates empty_core = fmempty" "commit_certificates empty_core = fmempty"
  "new_view_certificates empty_core = fmempty" "committed_digest empty_core = fmempty"
  "pre_prepared_proposals empty_core = {||}" "prepare_votes empty_core = fmempty"
  "commit_votes empty_core = fmempty" "checkpoint_votes empty_core = fmempty"
  "view_change_votes empty_core = fmempty"
  by (simp_all add: empty_core_def)

lemma four_nodes: "map word_of_nat [0..<unat (ucast (4 :: usize) :: u32)] = [0, 1, 2, 3 :: u32]"
  by (simp add: upt_rec)

lemma three_draws: "map random [0..<unat (3 :: usize)] = [random 0, random 1, random 2]"
  by (simp add: upt_rec) (simp add: eval_nat_numeral)

lemma generate_test_keys:
  "generate_test_keys C random 4 3 =
    (test_secret_keys C random, test_public_keys C random, g2_mul C (g2_generator C) (random 0))"
  unfolding generate_test_keys_def four_nodes three_draws
  by (simp add: poly_loop_eval test_secret_keys_def test_public_keys_def test_secret_def Let_def)

lemma test_keys_lookup:
  assumes "unat i < 4"
  shows "fmlookup (test_secret_keys C random) i = Some (test_secret C random i)"
    and "fmlookup (test_public_keys C random) i = Some (g2_mul C (g2_generator C) (test_secret C random i))"
proof -
  have "i \<in> {0, 1, 2, 3}" using assms below_four by blast
  then show "fmlookup (test_secret_keys C random) i = Some (test_secret C random i)"
    "fmlookup (test_public_keys C random) i = Some (g2_mul C (g2_generator C) (test_secret C random i))"
    by (auto simp: test_secret_keys_def test_public_keys_def)
qed

lemma test_keys_at [simp]:
  "fmlookup (test_secret_keys C random) 0 = Some (test_secret C random 0)"
  "fmlookup (test_secret_keys C random) 1 = Some (test_secret C random 1)"
  "fmlookup (test_secret_keys C random) 2 = Some (test_secret C random 2)"
  "fmlookup (test_secret_keys C random) 3 = Some (test_secret C random 3)"
  by (simp_all add: test_keys_lookup)

lemma test_make_config:
  "make_config 4 (test_public_keys C random) (g2_mul C (g2_generator C) (random 0)) =
    Ok (test_config C random)"
  unfolding make_config_def four_nodes
  by (simp add: test_config_def test_public_keys_def finsert_commute Let_def)

text \<open>What the tests need of the curve: the group and pairing laws, and encodings for the signatures
  of the four nodes.\<close>

definition test_curve ::
  "('s::field, 'g1::ab_group_add, 'g2::ab_group_add, 'gt) bls \<Rightarrow> (nat \<Rightarrow> 's) \<Rightarrow> bool" where
  "test_curve C random \<longleftrightarrow> scalar_laws C \<and> pairing_laws C \<and>
     (\<forall>i. unat i < 4 \<longrightarrow> (\<forall>m. g1_encodable C (sign_bls_message C m (test_secret C random i))))"

text \<open>The shortened line is such a curve, for coefficients that are all one and all two.\<close>

lemma line_secret:
  assumes "unat i < 4"
  shows "\<exists>k\<le>21. test_secret short_line (\<lambda>_. 1) i = of_nat k \<and> test_secret short_line (\<lambda>_. 2) i = of_nat (2 * k)"
proof -
  have "i \<in> {0, 1, 2, 3}" using assms below_four by blast
  then show ?thesis
    by (auto simp: test_secret_def x_coord_def short_line_def poly_eval_def)
qed

lemma line_test_curve: "test_curve short_line (\<lambda>_. 1)" "test_curve short_line (\<lambda>_. 2)"
proof -
  have "g1_encodable short_line (sign_bls_message short_line m (test_secret short_line (\<lambda>_. 1) i)) \<and>
      g1_encodable short_line (sign_bls_message short_line m (test_secret short_line (\<lambda>_. 2) i))"
    if i: "unat i < 4" for i :: u32 and m
  proof -
    obtain k where "k \<le> 21" "test_secret short_line (\<lambda>_. 1) i = of_nat k" "test_secret short_line (\<lambda>_. 2) i = of_nat (2 * k)"
      using line_secret [OF i] by blast
    then show ?thesis using short_line_signature [of k m] short_line_signature [of "2 * k" m] by simp
  qed
  then show "test_curve short_line (\<lambda>_. 1)" "test_curve short_line (\<lambda>_. 2)"
    using short_line_laws by (simp_all add: test_curve_def)
qed

text \<open>The message that sender \<open>i\<close> signs, and the test's construction of it.\<close>

abbreviation signed_by_node ::
  "('s::field, 'g1, 'g2, 'gt) bls \<Rightarrow> (nat \<Rightarrow> 's) \<Rightarrow> phase \<Rightarrow> u64 \<Rightarrow> u64 \<Rightarrow> bytes \<Rightarrow> u32 \<Rightarrow> 'g1 pbft_message" where
  "signed_by_node C random p v s d i \<equiv> create_pbft_message C p v s d i (test_secret C random i)"

lemma signed_by_node_fields [simp]:
  "pm_phase (create_pbft_message C p v s d i sk) = p" "pm_view (create_pbft_message C p v s d i sk) = v"
  "pm_seq (create_pbft_message C p v s d i sk) = s" "pm_digest (create_pbft_message C p v s d i sk) = d"
  "pm_sender_id (create_pbft_message C p v s d i sk) = i"
  "pm_signature (create_pbft_message C p v s d i sk) = sign_bls_message C (canonical_msg (phase_u8 p) v s d) sk"
  "proposal_key (create_pbft_message C p v s d i sk) = (v, s, d)"
  "pm_canonical (create_pbft_message C p v s d i sk) = canonical_msg (phase_u8 p) v s d"
  by (simp_all add: create_pbft_message_def pm_canonical_def proposal_key_def)

text \<open>A tested replica: built by the test's keys, with the given core, over a log of the given rows.\<close>

definition tested ::
  "('s::field, 'g1::ab_group_add, 'g2, 'gt) bls \<Rightarrow> (nat \<Rightarrow> 's) \<Rightarrow> 'g1 pbft_core \<Rightarrow> 'g1 wal_row list \<Rightarrow>
    ('g1, 'g2) pbft_state \<Rightarrow> bool" where
  "tested C random core rs st \<longleftrightarrow> st_config st = test_config C random \<and> st_core st = core \<and>
     \<not> wal_failed st \<and> node_inv C st \<and> durable_inv C st rs \<and> (\<forall>r\<in>set rs. storable C r)"

lemma testedD:
  assumes "tested C random core rs st"
  shows "st_config st = test_config C random" "st_core st = core" "\<not> wal_failed st" "node_inv C st"
    "durable_inv C st rs" "wal_log C (st_wal st) rs" "last_stable_checkpoint core = 0"
  using assms by (auto simp: tested_def durable_inv_def)

lemma node_registered: "unat i < 4 \<Longrightarrow> i |\<in>| registered_nodes (test_config C random)"
  using below_four by (auto simp: test_config_def)

lemma node_vote_auth:
  assumes "pairing_laws C" "unat i < 4"
  shows "vote_auth C (test_config C random) m i (sign_bls_message C m (test_secret C random i))"
  using node_registered [OF assms(2), of C random] test_keys_lookup(2) [OF assms(2), of C random]
    sign_verify [OF assms(1), of m "test_secret C random i"]
  by (simp add: vote_auth_def)

lemma test_replica:
  "new_with_wal_path C (log_file []) 4 (test_public_keys C random) (g2_mul C (g2_generator C) (random 0)) =
    Ok \<lparr>st_config = test_config C random, st_core = empty_core, st_wal = wal_open [], wal_failed = False\<rparr>"
  using new_with_wal_path_stored [of "[]" C "log_file []", OF _ _ _ _ _ test_make_config]
  by (simp add: log_file_def no_fault_def empty_core_def)

lemma test_replica_tested:
  "tested C random empty_core [] \<lparr>st_config = test_config C random, st_core = empty_core,
     st_wal = wal_open [], wal_failed = False\<rparr>"
  using fresh_replica(3) [OF test_replica, of C random] new_with_wal_path_inv [OF test_replica, of C random]
  by (simp add: tested_def log_file_def)

lemma expect_fresh:
  assumes "\<And>st. tested C random empty_core [] st \<Longrightarrow> st_config st = test_config C random \<Longrightarrow>
    st_core st = empty_core \<Longrightarrow> \<not> wal_failed st \<Longrightarrow> rest st"
  shows "expect (new_with_wal_path C (log_file []) 4 (test_public_keys C random)
    (g2_mul C (g2_generator C) (random 0))) rest"
  using assms [OF test_replica_tested] testedD(1-3) [OF test_replica_tested]
  by (simp add: expect_def test_replica)

section \<open>One rule per step\<close>

lemma tested_accepts:
  assumes C: "test_curve C random" and t: "tested C random core rs st" and i: "unat i < 4"
    and d: "length d = 32" and chk: "p = Checkpoint \<Longrightarrow> s \<noteq> 0"
    and disp: "dispatch C (test_config C random) (signed_by_node C random p v s d i) core = (Ok r, core')"
    and stable: "last_stable_checkpoint core' = 0"
  obtains st' where "handle_message C handler_io_ok (signed_by_node C random p v s d i) st = (Ok r, st')"
    "tested C random core' (rs @ [msg_row (signed_by_node C random p v s d i)]) st'"
proof -
  let ?m = "signed_by_node C random p v s d i"
  note T = testedD [OF t]
  have "pairing_laws C" using C by (simp add: test_curve_def)
  from node_vote_auth [OF this i] obtain pk where auth: "i |\<in>| registered_nodes (st_config st)"
    "fmlookup (public_keys (st_config st)) i = Some pk"
    "verify_bls_signature C (canonical_msg (phase_u8 p) v s d)
       (sign_bls_message C (canonical_msg (phase_u8 p) v s d) (test_secret C random i)) pk"
    by (auto simp: vote_auth_def T(1))
  have adm: "pm_phase ?m = Checkpoint \<Longrightarrow> last_stable_checkpoint (st_core st) < pm_seq ?m"
    using chk by (simp add: T word_gt_0)
  have ns: "r \<noteq> CHECKPOINT_STABILIZED"
    using stabilized_positive [of C "st_config st" ?m "st_core st" core'] disp adm stable T by auto
  obtain w where w: "append_entry C append_io_ok (msg_row ?m) (st_wal st) = (Ok (), w)"
    by (simp add: append_entry_def Let_def)
  define st' where "st' = st\<lparr>st_core := core', st_wal := w\<rparr>"
  have fresh: "\<not> (p = Checkpoint \<and> s \<le> last_stable_checkpoint (st_core st))" using adm by auto
  have h: "handle_message C handler_io_ok ?m st = (Ok r, st')" "st_config st' = st_config st"
    "st_core st' = core'" "\<not> wal_failed st'"
    using auth fresh disp T(1-3) ns w
    by (auto simp: handle_message_def handler_io_ok_def st'_def)
  have "durable_inv C st' (rs @ [msg_row ?m])"
  proof -
    have "r \<noteq> CHECKPOINT_OBSOLETE"
      using dispatch_not_obsolete [of C "test_config C random" ?m core core'] disp by auto
    then show ?thesis
      using handle_message_durable [OF T(4,5) h(1)] d stable h(3,4) by (simp add: pm_wf_def)
  qed
  moreover have "node_inv C st'" using handle_message_inv [OF T(4), of handler_io_ok ?m] h(1) by simp
  moreover have "storable C (msg_row ?m)"
    using C i d by (simp add: storable_def row_wf_def test_curve_def)
  ultimately show ?thesis using that h t by (simp add: tested_def)
qed

lemma test_refuses:
  assumes C: "test_curve C random" and i: "unat i < 4" and p: "p \<noteq> Checkpoint"
    and st: "st_config st = test_config C random" "\<not> wal_failed st"
    and disp: "dispatch C (test_config C random) (signed_by_node C random p v s d i) (st_core st) = (Err e, core')"
  shows "handle_message C handler_io_ok (signed_by_node C random p v s d i) st = (Err e, st)"
proof -
  have "pairing_laws C" using C by (simp add: test_curve_def)
  from node_vote_auth [OF this i] obtain pk where "i |\<in>| registered_nodes (st_config st)"
    "fmlookup (public_keys (st_config st)) i = Some pk"
    "verify_bls_signature C (canonical_msg (phase_u8 p) v s d)
       (sign_bls_message C (canonical_msg (phase_u8 p) v s d) (test_secret C random i)) pk"
    by (auto simp: vote_auth_def st(1))
  then show ?thesis using p disp st by (simp add: handle_message_def)
qed

text \<open>The premises of the rules stand in the order in which \<open>simp_all\<close> can discharge them from the last
  to the first: the effect of the message fixes the next state of the test.\<close>

lemma assert_response_step:
  assumes C: "test_curve C random" and t: "tested C random core rs st"
    and rest: "\<And>st'. tested C random core' (rs @ [msg_row (signed_by_node C random p v s d i)]) st' \<Longrightarrow>
      st_config st' = test_config C random \<Longrightarrow> st_core st' = core' \<Longrightarrow> \<not> wal_failed st' \<Longrightarrow> rest st'"
    and i: "unat i < 4" and d: "length d = 32" and chk: "p = Checkpoint \<Longrightarrow> s \<noteq> 0"
    and stable: "last_stable_checkpoint core' = 0"
    and disp: "dispatch C (test_config C random) (signed_by_node C random p v s d i) core = (Ok r, core')"
  shows "assert_response r (handle_message C handler_io_ok (signed_by_node C random p v s d i) st) rest"
    and "assert_ok (handle_message C handler_io_ok (signed_by_node C random p v s d i) st) rest"
proof -
  obtain st' where "handle_message C handler_io_ok (signed_by_node C random p v s d i) st = (Ok r, st')"
    "tested C random core' (rs @ [msg_row (signed_by_node C random p v s d i)]) st'"
    by (rule tested_accepts [OF C t i d chk disp stable])
  then show "assert_response r (handle_message C handler_io_ok (signed_by_node C random p v s d i) st) rest"
    "assert_ok (handle_message C handler_io_ok (signed_by_node C random p v s d i) st) rest"
    using rest testedD(1-3) [of C random core' _ st'] by (auto simp: assert_response_def assert_ok_def)
qed

lemma assert_error_step:
  assumes C: "test_curve C random" and rest: "rest st"
    and i: "unat i < 4" and p: "p \<noteq> Checkpoint"
    and st: "st_config st = test_config C random" "\<not> wal_failed st"
    and disp: "dispatch C (test_config C random) (signed_by_node C random p v s d i) (st_core st) = (Err e, core')"
  shows "assert_error e (handle_message C handler_io_ok (signed_by_node C random p v s d i) st) rest"
  using test_refuses [OF C i p st disp] rest by (simp add: assert_error_def)

text \<open>The checkpoint that completes a quorum also prunes the log.\<close>

lemma assert_stabilized_step:
  assumes C: "test_curve C random" and t: "tested C random core rs st"
    and rest: "\<And>st'. st_config st' = test_config C random \<Longrightarrow> st_core st' = core' \<Longrightarrow>
      content (st_wal st') = encode_rows C (filter (\<lambda>r. s \<le> row_seq r)
        (rs @ [msg_row (signed_by_node C random Checkpoint v s d i)])) \<Longrightarrow> rest st'"
    and i: "unat i < 4" and d: "length d = 32" and s: "s \<noteq> 0"
    and disp: "dispatch C (test_config C random) (signed_by_node C random Checkpoint v s d i) core =
      (Ok CHECKPOINT_STABILIZED, core')"
  shows "assert_ok (handle_message C handler_io_ok (signed_by_node C random Checkpoint v s d i) st) rest"
proof -
  let ?m = "signed_by_node C random Checkpoint v s d i"
  let ?kept = "encode_rows C (filter (\<lambda>r. s \<le> row_seq r) (rs @ [msg_row ?m]))"
  note T = testedD [OF t]
  have "pairing_laws C" using C by (simp add: test_curve_def)
  from node_vote_auth [OF this i] obtain pk where auth: "i |\<in>| registered_nodes (st_config st)"
    "fmlookup (public_keys (st_config st)) i = Some pk"
    "verify_bls_signature C (canonical_msg (phase_u8 Checkpoint) v s d)
       (sign_bls_message C (canonical_msg (phase_u8 Checkpoint) v s d) (test_secret C random i)) pk"
    by (auto simp: vote_auth_def T(1))
  have new: "\<not> s \<le> last_stable_checkpoint (st_core st)" using s T(2,7) by (simp add: not_le word_gt_0)
  have store: "\<forall>r\<in>set (rs @ [msg_row ?m]). storable C r"
    using t C i d by (simp add: tested_def storable_def row_wf_def test_curve_def)
  define w where "w = (st_wal st)\<lparr>content := encode_rows C (rs @ [msg_row ?m]), durable := encode_rows C (rs @ [msg_row ?m])\<rparr>"
  have w: "append_entry C append_io_ok (msg_row ?m) (st_wal st) = (Ok (), w)"
    using T(6) by (simp add: append_entry_def wal_log_def w_def Let_def)
  have "prune_loop [] (encode_rows C (rs @ [msg_row ?m])) s None [] = Ok ?kept"
    using prune_loop_stored [OF store, of "[]" s "[]"] by (simp add: no_fault_def)
  then obtain w' where w': "prune_before prune_io_ok s w = (Ok (), w')" "content w' = ?kept"
    using T(6) by (simp add: prune_before_def prune_io_ok_def w_def wal_log_def Let_def)
  have "handle_message C handler_io_ok ?m st = (Ok CHECKPOINT_STABILIZED, st\<lparr>st_core := core', st_wal := w'\<rparr>)"
    using auth new T(3) disp w w'(1) by (auto simp: handle_message_def handler_io_ok_def T(1,2))
  then show ?thesis using rest [of "st\<lparr>st_core := core', st_wal := w'\<rparr>"] w'(2) T(1) by (simp add: assert_ok_def)
qed

text \<open>A restart keeps everything but the highest sequence.\<close>

lemma expect_restart:
  assumes t: "tested C random core rs st"
    and rest: "\<And>st' h. tested C random (core\<lparr>highest_seq := h\<rparr>) rs st' \<Longrightarrow>
      st_config st' = test_config C random \<Longrightarrow> st_core st' = core\<lparr>highest_seq := h\<rparr> \<Longrightarrow> \<not> wal_failed st' \<Longrightarrow> rest st'"
  shows "expect (new_with_wal_path C (log_left st) 4 (test_public_keys C random)
    (g2_mul C (g2_generator C) (random 0))) rest"
proof -
  note T = testedD [OF t]
  obtain rc h where rc: "recover_rows C (test_config C random) rs empty_core = Some rc" "rc = core\<lparr>highest_seq := h\<rparr>"
    using T(1,2,5) by (auto simp: durable_inv_def same_core_def)
  let ?st = "\<lparr>st_config = test_config C random, st_core = rc, st_wal = wal_open (encode_rows C rs), wal_failed = False\<rparr>"
  have new: "new_with_wal_path C (log_left st) 4 (test_public_keys C random)
      (g2_mul C (g2_generator C) (random 0)) = Ok ?st"
    using new_with_wal_path_stored [of rs C "log_left st", OF _ _ _ _ _ test_make_config [of C random]] t T(6,7) rc
    by (simp add: tested_def log_file_def no_fault_def wal_log_def)
  have "durable_inv C ?st rs"
    using T(6,7) rc by (simp add: durable_inv_def wal_log_def wal_open_def)
  then have "tested C random (core\<lparr>highest_seq := h\<rparr>) rs ?st"
    using t new_with_wal_path_inv [OF new] rc(2) by (simp add: tested_def)
  then show ?thesis using rest [of h ?st] rc(2) by (simp add: expect_def new)
qed

section \<open>Votes of the four nodes\<close>

lemma node_votes_verify:
  assumes C: "test_curve C random" and q: "3 \<le> hm_len sigs"
    and sigs: "\<And>i sig. fmlookup sigs i = Some sig \<Longrightarrow> sig = sign_bls_message C m (test_secret C random i)"
  shows "verify_threshold_signature C m sigs (g2_mul C (g2_generator C) (random 0)) 3"
  using threshold_complete [of C "[random 0, random 1, random 2]" 3 sigs m] C q sigs
  by (simp add: test_curve_def test_secret_def)

lemma three_votes_verify:
  assumes "test_curve C random" "a \<noteq> b" "a \<noteq> c" "b \<noteq> c"
  shows "verify_threshold_signature C m (fmupd a (sign_bls_message C m (test_secret C random a))
      (fmupd b (sign_bls_message C m (test_secret C random b))
        (fmupd c (sign_bls_message C m (test_secret C random c)) fmempty)))
    (g2_mul C (g2_generator C) (random 0)) 3"
  using assms by (intro node_votes_verify) (auto split: if_splits)

lemma three_views_slot:
  assumes "s \<noteq> 0" "a \<noteq> b" "a \<noteq> c" "b \<noteq> c"
  shows "highest_view_change_slot (fmupd a (s, d, x) (fmupd b (s, d, y) (fmupd c (s, d, z) fmempty))) = Some (s, d)"
  using assms by (auto simp: highest_view_change_slot_iff split: if_splits)

lemma three_empty_views_slot:
  assumes "a \<noteq> b" "a \<noteq> c" "b \<noteq> c"
  shows "highest_view_change_slot (fmupd a (0, d, x) (fmupd b (0, d, y) (fmupd c (0, d, z) fmempty))) =
    Some (0, replicate 32 0)"
  using assms by (auto simp: highest_view_change_slot_iff split: if_splits)

lemma node_view_votes_valid:
  assumes C: "test_curve C random"
    and votes: "\<And>i vote. fmlookup votes i = Some vote \<Longrightarrow> unat i < 4 \<and>
      (case vote of (s, d, sig) \<Rightarrow>
         sig = sign_bls_message C (canonical_msg (phase_u8 ViewChange) v s d) (test_secret C random i))"
  shows "length (filter (vc_vote_valid C (test_public_keys C random) v) (hm_items votes)) = hm_len votes"
proof -
  have "vc_vote_valid C (test_public_keys C random) v (i, vote)" if "(i, vote) \<in> set (hm_items votes)" for i vote
  proof -
    have "unat i < 4" "case vote of (s, d, sig) \<Rightarrow>
        sig = sign_bls_message C (canonical_msg (phase_u8 ViewChange) v s d) (test_secret C random i)"
      using votes [of i vote] that by (simp_all add: set_hm_items)
    then show ?thesis
      using test_keys_lookup(2) [of i C random] sign_verify [of C] C
      by (auto simp: vc_vote_valid_def test_curve_def split: prod.splits)
  qed
  then have "filter (vc_vote_valid C (test_public_keys C random) v) (hm_items votes) = hm_items votes"
    by (intro filter_True) auto
  then show ?thesis by simp
qed

lemma three_view_votes_valid:
  assumes "test_curve C random" "a \<noteq> b" "a \<noteq> c" "b \<noteq> c" "unat a < 4" "unat b < 4" "unat c < 4"
  shows "length (filter (vc_vote_valid C (test_public_keys C random) v) (hm_items
      (fmupd a (s, d, sign_bls_message C (canonical_msg 3 v s d) (test_secret C random a))
        (fmupd b (s, d, sign_bls_message C (canonical_msg 3 v s d) (test_secret C random b))
          (fmupd c (s, d, sign_bls_message C (canonical_msg 3 v s d) (test_secret C random c)) fmempty))))) = 3"
  using assms by (subst node_view_votes_valid [OF assms(1)]) (auto split: if_splits)

lemmas three_votes = three_votes_verify three_views_slot three_empty_views_slot three_view_votes_valid

end
