(* ===== verification/Pbft_View_Change.thy ===== *)
theory Pbft_View_Change
  imports Pbft_Round
begin

text \<open>
  A view change and the rounds around it on one replica. A quorum of authentic view-change votes for
  a committed value installs the new view with a certificate of that value; the rounds of one view
  leave what was committed in the others, and the certificates of the views, alone.
\<close>

section \<open>Votes for a new view\<close>

text \<open>The votes for the view, each for the same slot and digest.\<close>

definition uniform_votes :: "u64 \<Rightarrow> bytes \<Rightarrow> (u32, 'g1 vc_vote) fmap \<Rightarrow> bool" where
  "uniform_votes s d votes \<longleftrightarrow> (\<forall>i x. fmlookup votes i = Some x \<longrightarrow> fst x = s \<and> fst (snd x) = d)"

lemma uniform_slot:
  assumes u: "uniform_votes s d votes" and i: "fmlookup votes i = Some x" and s: "s \<noteq> 0"
  shows "highest_view_change_slot votes = Some (s, d)"
proof -
  have all: "fst y = s \<and> fst (snd y) = d" if "fmlookup votes j = Some y" for j y
    using u that unfolding uniform_votes_def by blast
  then have "\<exists>i v. fmlookup votes i = Some v \<and> fst v = s" using i by blast
  then show ?thesis
    unfolding highest_view_change_slot_iff using all s by (metis order_refl)
qed

lemma uniform_supporters:
  assumes "uniform_votes s d (hm_entry (view_change_votes st) (pm_view msg))" "pm_seq msg = s" "pm_digest msg = d"
  shows "uniform_votes s d (supporters_of msg st)"
  using assms by (auto simp: uniform_votes_def supporters_of_def vc_vote_of_def)

text \<open>A committed value has a certificate of an earlier view.\<close>

lemma committed_certificate:
  assumes inv: "core_inv C cfg st" and cfg: "config_ok cfg"
    and c: "fmlookup (committed_digest st) (w, s) = Some d"
  obtains cert where "fmlookup (prepared_certificates st) (w, s) = Some cert"
    "w \<le> current_view st" "pc_view cert = w" "pc_seq cert = s" "pc_digest cert = d"
    "pc_verify C (quorum_size cfg) (master_public_key cfg) cert"
proof -
  let ?q = "unat (quorum_size cfg)" and ?sigs = "hm_entry (prepare_votes st) (w, s, d)"
  have I: "tally ?q mk_digest (commit_votes st) (committed_digest st)"
    "commit_after_prepare ?q (prepare_votes st) (commit_votes st)"
    "tally ?q mk_prepared (prepare_votes st) (prepared_certificates st)"
    "\<forall>k c. fmlookup (prepared_certificates st) k = Some c \<longrightarrow>
      pc_verify C (quorum_size cfg) (master_public_key cfg) c"
    "voted (pre_prepared_proposals st) (prepare_votes st)"
    "\<forall>v s d. (v, s, d) |\<in>| pre_prepared_proposals st \<longrightarrow> v \<le> current_view st \<and> s \<le> highest_seq st"
    using inv by (simp_all add: core_inv_parts)
  have q: "0 < ?q" using cfg by (simp add: config_ok_def)
  have "?q \<le> hm_len (hm_entry (commit_votes st) (w, s, d))"
    using tallyD [OF I(1) c] by (auto simp: mk_digest_def)
  then have "hm_entry (commit_votes st) (w, s, d) \<noteq> fmempty" using q by auto
  then have p: "?q \<le> hm_len ?sigs" using I(2) by (simp add: commit_after_prepare_def)
  then have "?sigs \<noteq> fmempty" using q by auto
  then have "w \<le> current_view st" using I(5,6) unfolding voted_def by blast
  moreover have l: "fmlookup (prepared_certificates st) (w, s) = Some (mk_prepared (w, s, d) ?sigs)"
    by (rule tallyI [OF I(3) p])
  ultimately show thesis
    using that [OF l] I(4) l by (simp add: mk_prepared_def)
qed

lemma committed_has_certificate:
  assumes "core_inv C cfg st" "config_ok cfg" "fmlookup (committed_digest st) (w, s) = Some d"
  shows "has_certificate C cfg (\<lambda>view. True) s d st"
proof -
  obtain cert where "fmlookup (prepared_certificates st) (w, s) = Some cert" "pc_seq cert = s" "pc_digest cert = d"
    "pc_verify C (quorum_size cfg) (master_public_key cfg) cert"
    by (rule committed_certificate [OF assms])
  then show ?thesis unfolding has_certificate_def by (intro hm_anyI [of _ "(w, s)"]) auto
qed

text \<open>Before the quorum a vote is only recorded.\<close>

lemma view_vote_recorded:
  assumes st: "node_inv C st" "\<not> wal_failed st" "current_view (st_core st) < v"
    and cert: "has_certificate C (st_config st) (\<lambda>view. True) s d (st_core st)"
    and msg: "pm_phase m = ViewChange" "proposal_key m = (v, s, d)" "authentic C (st_config st) m"
    and few: "hm_len (supporters_of m (st_core st)) < unat (quorum_size (st_config st))"
  obtains st' where "handle_message C handler_io_ok m st = (Ok VOTE_OK_VIEW_CHANGE, st')"
    "node_inv C st'" "\<not> wal_failed st'" "st_config st' = st_config st"
    "st_core st' = (st_core st)\<lparr>view_change_votes := fmupd v (supporters_of m (st_core st)) (view_change_votes (st_core st))\<rparr>"
proof -
  let ?core = "(st_core st)\<lparr>view_change_votes := fmupd v (supporters_of m (st_core st)) (view_change_votes (st_core st))\<rparr>"
  have k: "pm_view m = v" "pm_seq m = s" "pm_digest m = d" using msg(2) by (simp_all add: proposal_key_def)
  have "on_view_change C (st_config st) m (st_core st) = (Ok VOTE_OK_VIEW_CHANGE, ?core)"
    using st(3) cert few
    by (simp add: on_view_change_def k Let_def supporters_of_def vc_vote_of_def not_le del: hm_len_upd)
  then have "dispatch C (st_config st) m (st_core st) = (Ok VOTE_OK_VIEW_CHANGE, ?core)"
    using msg(1) by (simp add: dispatch_def)
  from handle_message_accepts [OF st(2) msg(3) _ this] msg(1)
  obtain w where h: "handle_message C handler_io_ok m st =
      (Ok VOTE_OK_VIEW_CHANGE, st\<lparr>st_core := ?core, st_wal := w\<rparr>)" by auto
  show thesis
    using that [OF h] handle_message_inv [OF st(1), of handler_io_ok m] h st(2) by simp
qed

text \<open>The vote that completes a uniform quorum installs the view.\<close>

lemma view_vote_installs:
  assumes st: "node_inv C st" "\<not> wal_failed st" "current_view (st_core st) < v"
    and old: "fmlookup (committed_digest (st_core st)) (w, s) = Some d" "s \<noteq> 0"
    and msg: "pm_phase m = ViewChange" "proposal_key m = (v, s, d)" "authentic C (st_config st) m"
    and uni: "uniform_votes s d (hm_entry (view_change_votes (st_core st)) v)"
    and q: "unat (quorum_size (st_config st)) \<le> hm_len (supporters_of m (st_core st))"
  obtains st' nv cert where "handle_message C handler_io_ok m st = (Ok VIEW_CHANGE_OK, st')"
    "node_inv C st'" "\<not> wal_failed st'" "st_config st' = st_config st" "current_view (st_core st') = v"
    "committed_digest (st_core st') = committed_digest (st_core st)"
    "pre_prepared_proposals (st_core st') = pre_prepared_proposals (st_core st)"
    "fmlookup (new_view_certificates (st_core st')) v = Some nv" "nv_selected nv = Some cert"
    "pc_seq cert = s" "pc_digest cert = d"
proof -
  let ?cfg = "st_config st" and ?st = "st_core st"
  have inv: "core_inv C ?cfg ?st" "config_ok ?cfg" using st(1) by (simp_all add: node_inv_def)
  have k: "pm_view m = v" "pm_seq m = s" "pm_digest m = d" using msg(2) by (simp_all add: proposal_key_def)
  have cert: "has_certificate C ?cfg (\<lambda>view. True) s d ?st" by (rule committed_has_certificate [OF inv old(1)])
  have slot: "highest_view_change_slot (supporters_of m ?st) = Some (s, d)"
    by (rule uniform_slot [OF uniform_supporters [OF uni [folded k(1)] k(2,3)] _ old(2), of "pm_sender_id m" "vc_vote_of m"])
      (simp add: supporters_of_def)
  obtain c0 where c0: "fmlookup (prepared_certificates ?st) (w, s) = Some c0" "w \<le> current_view ?st"
    "pc_view c0 = w" "pc_seq c0 = s" "pc_digest c0 = d" "pc_verify C (quorum_size ?cfg) (master_public_key ?cfg) c0"
    by (rule committed_certificate [OF inv old(1)])
  then have "c0 \<in> set (hm_values (prepared_certificates ?st))"
    "cert_eligible C v s d (quorum_size ?cfg) (master_public_key ?cfg) c0"
    using st(3) by (auto simp: set_hm_values cert_eligible_def)
  then have "select_highest_prepared_certificate C (hm_values (prepared_certificates ?st)) v s d
      (quorum_size ?cfg) (master_public_key ?cfg) \<noteq> None"
    unfolding select_highest_None by blast
  then obtain c where sel: "select_highest_prepared_certificate C (hm_values (prepared_certificates ?st)) v s d
      (quorum_size ?cfg) (master_public_key ?cfg) = Some c" by blast
  have c: "bound_cert_of C ?cfg m ?st = Some c" "pc_seq c = s" "pc_digest c = d"
    using sel slot old(2) k(1) select_highest_Some(2) [OF sel]
    by (simp_all add: bound_cert_of_def word_gt_0 cert_eligible_def)
  have nv: "nv_verify C (quorum_size ?cfg) (master_public_key ?cfg) (public_keys ?cfg) (new_view_of C ?cfg m ?st)"
    by (rule new_view_of_verifies [OF inv(1) msg(3,1) q slot]) (simp add: c)
  have inst: "install_new_view C ?cfg v (supporters_of m ?st) (Some c)
      (?st\<lparr>view_change_votes := fmupd v (supporters_of m ?st) (view_change_votes ?st), current_view := v\<rparr>) =
    (Ok VIEW_CHANGE_OK, record_new_view C ?cfg m ?st)"
    using nv by (simp add: install_new_view_cases Let_def record_new_view_def raise_to_def record_view_change_def
        new_view_of_def c(1) k(1) supporters_of_def del: hm_len_upd)
  have "on_view_change C ?cfg m ?st = (Ok VIEW_CHANGE_OK, record_new_view C ?cfg m ?st)"
    unfolding on_view_change_def Let_def k
    using q by (fold vc_vote_of_def [of m, unfolded k], fold supporters_of_def [of m, unfolded k])
      (use st(3) cert in \<open>simp add: slot sel inst old(2) word_gt_0 not_le del: hm_len_upd\<close>)
  then have "dispatch C ?cfg m ?st = (Ok VIEW_CHANGE_OK, record_new_view C ?cfg m ?st)"
    using msg(1) by (simp add: dispatch_def)
  from handle_message_accepts [OF st(2) msg(3) _ this] msg(1)
  obtain z where h: "handle_message C handler_io_ok m st =
      (Ok VIEW_CHANGE_OK, st\<lparr>st_core := record_new_view C ?cfg m ?st, st_wal := z\<rparr>)" by auto
  show thesis
    by (rule that [OF h, of "new_view_of C ?cfg m ?st" c])
      (use handle_message_inv [OF st(1), of handler_io_ok m] h st(2) c k in
        \<open>simp_all add: record_new_view_def raise_to_def record_view_change_def new_view_of_def\<close>)
qed

lemma view_votes_run:
  shows "node_inv C st \<Longrightarrow> \<not> wal_failed st \<Longrightarrow> current_view (st_core st) < v \<Longrightarrow>
    has_certificate C (st_config st) (\<lambda>view. True) s d (st_core st) \<Longrightarrow>
    \<forall>m\<in>set ms. pm_phase m = ViewChange \<and> proposal_key m = (v, s, d) \<and> authentic C (st_config st) m \<Longrightarrow>
    uniform_votes s d (hm_entry (view_change_votes (st_core st)) v) \<Longrightarrow>
    hm_len (hm_entry (view_change_votes (st_core st)) v) + length ms < unat (quorum_size (st_config st)) \<Longrightarrow>
    \<exists>st' votes. node_trace C (ok_events ms) st = (ms, st') \<and> node_inv C st' \<and> \<not> wal_failed st' \<and>
      st_config st' = st_config st \<and> st_core st' = (st_core st)\<lparr>view_change_votes := votes\<rparr> \<and>
      uniform_votes s d (hm_entry votes v) \<and>
      signers (hm_entry (view_change_votes (st_core st)) v) \<union> pm_sender_id ` set ms \<subseteq> signers (hm_entry votes v)"
proof (induction ms arbitrary: st)
  case Nil
  then show ?case by (auto intro: exI [of _ st] exI [of _ "view_change_votes (st_core st)"])
next
  case (Cons m ms)
  let ?X = "fmupd v (supporters_of m (st_core st)) (view_change_votes (st_core st))"
  have m: "pm_phase m = ViewChange" "proposal_key m = (v, s, d)" "authentic C (st_config st) m"
    "pm_view m = v" "pm_seq m = s" "pm_digest m = d"
    using Cons.prems(5) by (simp_all add: proposal_key_def)
  have len: "hm_len (supporters_of m (st_core st)) \<le> Suc (hm_len (hm_entry (view_change_votes (st_core st)) v))"
    by (simp add: supporters_of_def m(4))
  then have few: "hm_len (supporters_of m (st_core st)) < unat (quorum_size (st_config st))"
    using Cons.prems(7) by simp
  obtain st1 where h: "handle_message C handler_io_ok m st = (Ok VOTE_OK_VIEW_CHANGE, st1)"
    "node_inv C st1" "\<not> wal_failed st1" "st_config st1 = st_config st"
    "st_core st1 = (st_core st)\<lparr>view_change_votes := ?X\<rparr>"
    by (rule view_vote_recorded [OF Cons.prems(1-4) m(1-3) few])
  have cert: "has_certificate C (st_config st1) (\<lambda>view. True) s d (st_core st1)"
    using Cons.prems(4) h(4,5) by (simp add: has_certificate_def)
  have uni: "uniform_votes s d (hm_entry (view_change_votes (st_core st1)) v)"
    using uniform_supporters [OF Cons.prems(6) [folded m(4)] m(5,6)] h(5) by simp
  obtain st' votes where r: "node_trace C (ok_events ms) st1 = (ms, st')" "node_inv C st'" "\<not> wal_failed st'"
      "st_config st' = st_config st1" "st_core st' = (st_core st1)\<lparr>view_change_votes := votes\<rparr>"
      "uniform_votes s d (hm_entry votes v)"
      "signers (hm_entry (view_change_votes (st_core st1)) v) \<union> pm_sender_id ` set ms \<subseteq> signers (hm_entry votes v)"
    using Cons.IH [OF h(2,3) _ cert _ uni] Cons.prems(3,5,7) len h(4,5) by auto
  have "insert (pm_sender_id m) (signers (hm_entry (view_change_votes (st_core st)) v)) \<subseteq>
      signers (hm_entry (view_change_votes (st_core st1)) v)"
    by (auto simp: h(5) signers_def supporters_of_def vc_vote_of_def m(4))
  then show ?case
    using h r by (intro exI [of _ st'] exI [of _ votes]) auto
qed

text \<open>A quorum of votes for a committed value moves the replica to the view.\<close>

lemma view_change_run:
  assumes st: "node_inv C st" "\<not> wal_failed st" "current_view (st_core st) < v"
    and old: "fmlookup (committed_digest (st_core st)) (w, s) = Some d" "s \<noteq> 0"
    and none: "hm_entry (view_change_votes (st_core st)) v = fmempty"
    and vs: "\<forall>m\<in>set vs. pm_phase m = ViewChange \<and> proposal_key m = (v, s, d) \<and> authentic C (st_config st) m"
      "distinct (map pm_sender_id vs)" "length vs = unat (quorum_size (st_config st))"
  obtains st' nv cert where "node_trace C (ok_events vs) st = (vs, st')"
    "node_inv C st'" "\<not> wal_failed st'" "st_config st' = st_config st" "current_view (st_core st') = v"
    "committed_digest (st_core st') = committed_digest (st_core st)"
    "pre_prepared_proposals (st_core st') = pre_prepared_proposals (st_core st)"
    "fmlookup (new_view_certificates (st_core st')) v = Some nv" "nv_selected nv = Some cert"
    "pc_seq cert = s" "pc_digest cert = d"
proof -
  have inv: "core_inv C (st_config st) (st_core st)" "config_ok (st_config st)"
    using st(1) by (simp_all add: node_inv_def)
  have "vs \<noteq> []" using vs(3) inv(2) by (auto simp: config_ok_def)
  then obtain us m where us: "vs = us @ [m]" by (cases vs rule: rev_cases) auto
  have few: "hm_len (hm_entry (view_change_votes (st_core st)) v) + length us < unat (quorum_size (st_config st))"
    using none vs(3) us by simp
  obtain st1 votes where r: "node_trace C (ok_events us) st = (us, st1)" "node_inv C st1" "\<not> wal_failed st1"
      "st_config st1 = st_config st" "st_core st1 = (st_core st)\<lparr>view_change_votes := votes\<rparr>"
      "uniform_votes s d (hm_entry votes v)" "pm_sender_id ` set us \<subseteq> signers (hm_entry votes v)"
    using view_votes_run [OF st committed_has_certificate [OF inv old(1)] _ _ few] vs(1) us none
    by (auto simp: uniform_votes_def)
  have m: "pm_phase m = ViewChange" "proposal_key m = (v, s, d)" "authentic C (st_config st1) m" "pm_view m = v"
    using vs(1) us r(4) by (simp_all add: proposal_key_def)
  have "pm_sender_id ` set vs \<subseteq> signers (supporters_of m (st_core st1))"
    using r(5,7) us by (auto simp: supporters_of_def vc_vote_of_def m(4) signers_def)
  then have q: "unat (quorum_size (st_config st1)) \<le> hm_len (supporters_of m (st_core st1))"
    using signers_quorum [OF vs(2)] vs(3) r(4) by simp
  obtain st' nv cert where h: "handle_message C handler_io_ok m st1 = (Ok VIEW_CHANGE_OK, st')"
    "node_inv C st'" "\<not> wal_failed st'" "st_config st' = st_config st1" "current_view (st_core st') = v"
    "committed_digest (st_core st') = committed_digest (st_core st1)"
    "pre_prepared_proposals (st_core st') = pre_prepared_proposals (st_core st1)"
    "fmlookup (new_view_certificates (st_core st')) v = Some nv" "nv_selected nv = Some cert"
    "pc_seq cert = s" "pc_digest cert = d"
    by (rule view_vote_installs [OF r(2,3) _ _ old(2) m(1-3) _ q]) (use st(3) old(1) r(5,6) in simp_all)
  have "node_trace C (ok_events vs) st = (vs, st')" using r(1) h(1) us by (simp add: node_trace_append)
  then show thesis using that h r(4,5) by simp
qed

section \<open>The other views\<close>

text \<open>The round of a view changes neither what was committed in another view nor the certificates and
  the pending votes of the views.\<close>

definition same_views :: "u64 \<Rightarrow> 'g1 pbft_core \<Rightarrow> 'g1 pbft_core \<Rightarrow> bool" where
  "same_views v st st' \<longleftrightarrow> new_view_certificates st' = new_view_certificates st \<and>
     view_change_votes st' = view_change_votes st \<and>
     (\<forall>w s. w \<noteq> v \<longrightarrow> fmlookup (committed_digest st') (w, s) = fmlookup (committed_digest st) (w, s))"

lemma dispatch_same_views:
  assumes d: "dispatch C cfg m st = (Ok r, st')" and ph: "pm_phase m \<in> {PrePrepare, Prepare, Commit}"
  shows "same_views (pm_view m) st st'"
proof (cases "pm_phase m")
  case PrePrepare
  then show ?thesis
    using d by (simp add: dispatch_def on_pre_prepare_Ok record_proposal_def raise_to_def same_views_def)
next
  case Prepare
  then have "on_prepare C cfg m st = (Ok r, st')" using d by (simp add: dispatch_def)
  from on_prepare_Ok(3) [OF this] show ?thesis
    by (auto simp: record_prepare_def Let_def same_views_def simp del: hm_len_upd split: prod.splits)
next
  case Commit
  then have "on_commit C cfg m st = (Ok r, st')" using d by (simp add: dispatch_def)
  from on_commit_Ok(4) [OF this] show ?thesis
    by (auto simp: record_commit_def proposal_key_def Let_def same_views_def simp del: hm_len_upd split: prod.splits)
qed (use ph in simp_all)

lemma run_same_views:
  assumes "\<forall>ev\<in>set evs. pm_view (snd ev) = v \<and> pm_phase (snd ev) \<in> {PrePrepare, Prepare, Commit}"
  shows "same_views v (st_core st) (st_core (fold (node_step C) evs st))"
  using assms
proof (induction evs arbitrary: st)
  case (Cons ev evs)
  obtain res st1 where h: "handle_message C (fst ev) (snd ev) st = (res, st1)" by fastforce
  have "same_views v (st_core st) (st_core st1)"
    using handle_message_core [OF h] dispatch_same_views [of C "st_config st" "snd ev" "st_core st" _ "st_core st1"]
      Cons.prems by (auto simp: same_views_def)
  moreover have "same_views v (st_core st1) (st_core (fold (node_step C) evs st1))"
    by (rule Cons.IH) (use Cons.prems in simp)
  moreover have "node_step C ev st = st1" by (simp add: node_step_def h)
  ultimately show ?case by (simp add: same_views_def)
qed (simp add: same_views_def)

end
