(* ===== verification/View_Guarantees.thy ===== *)
theory View_Guarantees
  imports Test_Kit Pbft_View_Change
begin

text \<open>
  The limit of a view change: what a replica commits in one view does not bind it in the next. The
  property rests on \<open>round_commits\<close> and on \<open>view_change_run\<close>; its instance is a run of a replica
  among four nodes that is constructed on an empty log.
\<close>

text \<open>
  C12: Agreement across views is not enforced. A replica that committed a digest at a sequence
  changes the view when a quorum votes for it with exactly that slot and digest, and the new-view
  certificate selects a certificate of the digest. All the same it acknowledges a proposal, prepare
  votes and commit votes for any other digest at that sequence of the new view, and commits that
  too: the proposal is not compared with the certificate that the view change selected.
\<close>

theorem cross_view_divergence:
  assumes C: "scalar_laws C" "pairing_laws C" and keys: "keys_from_poly C (st_config st) F"
    and st: "node_inv C st" "\<not> wal_failed st" "current_view (st_core st) < v"
    and old: "fmlookup (committed_digest (st_core st)) (w, s) = Some d" "s \<noteq> 0"
    and none: "hm_entry (view_change_votes (st_core st)) v = fmempty"
    and vs: "\<forall>m\<in>set vs. pm_phase m = ViewChange \<and> proposal_key m = (v, s, d) \<and> authentic C (st_config st) m"
      "distinct (map pm_sender_id vs)" "length vs = unat (quorum_size (st_config st))"
    and pp: "pm_phase pp = PrePrepare" "pm_sender_id pp = get_expected_leader (st_config st) v"
    and ps: "\<forall>m\<in>set ps. pm_phase m = Prepare" "distinct (map pm_sender_id ps)"
      "unat (quorum_size (st_config st)) \<le> length ps"
    and cs: "\<forall>m\<in>set cs. pm_phase m = Commit" "distinct (map pm_sender_id cs)"
      "unat (quorum_size (st_config st)) \<le> length cs"
    and all: "\<forall>m\<in>set (pp # ps @ cs). proposal_key m = (v, s, d') \<and> authentic C (st_config st) m"
  shows "\<exists>st' nv cert. node_trace C (map (Pair handler_io_ok) (vs @ pp # ps @ cs)) st = (vs @ pp # ps @ cs, st') \<and>
    fmlookup (new_view_certificates (st_core st')) v = Some nv \<and> nv_selected nv = Some cert \<and>
    pc_seq cert = s \<and> pc_digest cert = d \<and>
    fmlookup (committed_digest (st_core st')) (w, s) = Some d \<and>
    fmlookup (committed_digest (st_core st')) (v, s) = Some d'"
proof -
  have inv: "core_inv C (st_config st) (st_core st)" "config_ok (st_config st)"
    using st(1) by (simp_all add: node_inv_def)
  have "w \<le> current_view (st_core st)" by (rule committed_certificate [OF inv old(1)])
  then have w: "w \<noteq> v" using st(3) by auto
  have fresh: "\<forall>e. (v, s, e) |\<notin>| pre_prepared_proposals (st_core st)"
    using inv(1) st(3) unfolding core_inv_parts by (meson leD)
  obtain st1 nv cert where V: "node_trace C (ok_events vs) st = (vs, st1)"
    "node_inv C st1" "\<not> wal_failed st1" "st_config st1 = st_config st" "current_view (st_core st1) = v"
    "committed_digest (st_core st1) = committed_digest (st_core st)"
    "pre_prepared_proposals (st_core st1) = pre_prepared_proposals (st_core st)"
    "fmlookup (new_view_certificates (st_core st1)) v = Some nv" "nv_selected nv = Some cert"
    "pc_seq cert = s" "pc_digest cert = d"
    by (rule view_change_run [OF st old none vs])
  obtain st2 where R: "node_trace C (ok_events (pp # ps @ cs)) st1 = (pp # ps @ cs, st2)"
    "fmlookup (committed_digest (st_core st2)) (v, s) = Some d'"
    using round_commits [OF C keys [folded V(4)] V(2,3,5) fresh [folded V(7)] pp [folded V(4)]
        ps [folded V(4)] cs [folded V(4)] all [folded V(4)]] by blast
  have "same_views v (st_core st1) (st_core (fold (node_step C) (ok_events (pp # ps @ cs)) st1))"
    by (rule run_same_views) (use pp(1) ps(1) cs(1) all in \<open>auto simp: proposal_key_def\<close>)
  then have "same_views v (st_core st1) (st_core st2)"
    using node_trace_run [of C "ok_events (pp # ps @ cs)" st1] R(1) by simp
  then have same: "fmlookup (new_view_certificates (st_core st2)) v = Some nv"
    "fmlookup (committed_digest (st_core st2)) (w, s) = Some d"
    using V(6,8) old(1) w by (simp_all add: same_views_def)
  have "node_trace C (map (Pair handler_io_ok) (vs @ pp # ps @ cs)) st = (vs @ pp # ps @ cs, st2)"
    using V(1) R(1) by (simp add: node_trace_append del: node_trace.simps)
  then show ?thesis using same V(9-11) R(2) by blast
qed

text \<open>Four nodes, whose keys come from one polynomial: a round in view 0, a view change and a round for
  another digest in view 1. The leader of view \<open>v\<close> is node \<open>v\<close>.\<close>

definition four_votes :: "phase \<Rightarrow> u64 \<Rightarrow> u8 \<Rightarrow> rat pbft_message list" where
  "four_votes p v b = map (signed_by_node short_line (\<lambda>_. 1) p v 1 (replicate 32 b)) [0, 1, 2]"

definition four_proposal :: "u64 \<Rightarrow> u8 \<Rightarrow> rat pbft_message" where
  "four_proposal v b = signed_by_node short_line (\<lambda>_. 1) PrePrepare v 1 (replicate 32 b) (ucast v)"

abbreviation four_round :: "u64 \<Rightarrow> u8 \<Rightarrow> rat pbft_message list" where
  "four_round v b \<equiv> four_proposal v b # four_votes Prepare v b @ four_votes Commit v b"

abbreviation four_config :: "rat pbft_config" where
  "four_config \<equiv> test_config short_line (\<lambda>_. 1)"

lemma four_keys: "keys_from_poly short_line four_config [1, 1, 1]"
  using below_four by (auto simp: keys_from_poly_def test_secret_def test_keys_lookup)

lemma four_votes_facts:
  "\<forall>m\<in>set (four_votes p v b). pm_phase m = p \<and> proposal_key m = (v, 1, replicate 32 b) \<and>
     authentic short_line four_config m"
  "\<forall>m\<in>set (four_votes p v b). pm_phase m = p"
  "distinct (map pm_sender_id (four_votes p v b))" "length (four_votes p v b) = unat (quorum_size four_config)"
  using node_vote_auth [OF short_line_laws(2)] by (simp_all add: four_votes_def)

lemma four_proposal_facts:
  assumes "v = 0 \<or> v = 1"
  shows "pm_phase (four_proposal v b) = PrePrepare"
    "pm_sender_id (four_proposal v b) = get_expected_leader four_config v"
    "\<forall>m\<in>set (four_round v b). proposal_key m = (v, 1, replicate 32 b) \<and> authentic short_line four_config m"
proof -
  have u: "unat (ucast v :: u32) < 4" using assms by auto
  show "pm_phase (four_proposal v b) = PrePrepare" by (simp add: four_proposal_def)
  have "v mod 4 = v" using assms by auto
  then show "pm_sender_id (four_proposal v b) = get_expected_leader four_config v"
    by (simp add: four_proposal_def get_expected_leader_def)
  show "\<forall>m\<in>set (four_round v b). proposal_key m = (v, 1, replicate 32 b) \<and> authentic short_line four_config m"
    using four_votes_facts(1) node_vote_auth [OF short_line_laws(2) u] by (auto simp: four_proposal_def)
qed

theorem cross_view_divergence_witness:
  "\<exists>st0 st'. new_with_wal_path short_line (log_file []) 4 (test_public_keys short_line (\<lambda>_. 1))
      (g2_mul short_line (g2_generator short_line) 1) = Ok st0 \<and>
    node_trace short_line (map (Pair handler_io_ok) (four_round 0 9 @ four_votes ViewChange 1 9 @ four_round 1 8)) st0 =
      (four_round 0 9 @ four_votes ViewChange 1 9 @ four_round 1 8, st') \<and>
    fmlookup (committed_digest (st_core st')) (0, 1) = Some (replicate 32 9) \<and>
    fmlookup (committed_digest (st_core st')) (1, 1) = Some (replicate 32 8)"
proof -
  let ?C = "short_line"
  define st0 :: "(rat, rat) pbft_state" where
    "st0 = \<lparr>st_config = four_config, st_core = empty_core, st_wal = wal_open [], wal_failed = False\<rparr>"
  have new: "new_with_wal_path ?C (log_file []) 4 (test_public_keys ?C (\<lambda>_. 1))
      (g2_mul ?C (g2_generator ?C) 1) = Ok st0"
    using test_replica [of ?C "\<lambda>_. 1"] by (simp add: st0_def)
  have f: "st_config st0 = four_config" "\<not> wal_failed st0" "st_core st0 = empty_core" by (simp_all add: st0_def)
  have inv: "node_inv ?C st0" by (rule new_with_wal_path_inv [OF new])
  note low = four_proposal_facts [of 0] and high = four_proposal_facts [of 1]
  have q: "unat (quorum_size four_config) \<le> length (four_votes p v b)" for p v b
    by (simp only: four_votes_facts(4) order_refl)
  obtain st1 where R: "node_trace ?C (ok_events (four_round 0 9)) st0 = (four_round 0 9, st1)"
    "voting ?C four_config (0, 1, replicate 32 9) st1"
    "fmlookup (committed_digest (st_core st1)) (0, 1) = Some (replicate 32 9)"
    using round_commits [OF short_line_laws(1,2) four_keys [folded f(1)] inv f(2), of 0 1, unfolded f(1,3), OF _ _
        low(1,2) four_votes_facts(2,3) q four_votes_facts(2,3) q low(3)] by auto
  have v1: "st_config st1 = four_config" "node_inv ?C st1" "\<not> wal_failed st1" "current_view (st_core st1) = 0"
    using votingD [OF R(2)] by simp_all
  have "same_views 0 (st_core st0) (st_core (fold (node_step ?C) (ok_events (four_round 0 9)) st0))"
    by (rule run_same_views) (auto simp: four_proposal_def four_votes_def)
  then have "view_change_votes (st_core st1) = fmempty"
    using node_trace_run [of ?C "ok_events (four_round 0 9)" st0] R(1) f(3) by (simp add: same_views_def)
  then have none: "hm_entry (view_change_votes (st_core st1)) 1 = fmempty" by simp
  have less: "current_view (st_core st1) < 1" using v1(4) by simp
  obtain st' where D: "node_trace ?C (ok_events (four_votes ViewChange 1 9 @ four_round 1 8)) st1 =
      (four_votes ViewChange 1 9 @ four_round 1 8, st')"
    "fmlookup (committed_digest (st_core st')) (0, 1) = Some (replicate 32 9)"
    "fmlookup (committed_digest (st_core st')) (1, 1) = Some (replicate 32 8)"
    using cross_view_divergence [OF short_line_laws(1,2) four_keys [folded v1(1)] v1(2,3) less R(3) _ none,
        unfolded v1(1), OF _ four_votes_facts(1,3,4) high(1,2) four_votes_facts(2,3) q four_votes_facts(2,3) q high(3)]
    by auto
  have "node_trace ?C (ok_events (four_round 0 9 @ four_votes ViewChange 1 9 @ four_round 1 8)) st0 =
      (four_round 0 9 @ four_votes ViewChange 1 9 @ four_round 1 8, st')"
    unfolding map_append [of _ "four_round 0 9"] node_trace_append [of _ "ok_events (four_round 0 9)"] R(1) Let_def
      prod.case D(1) by simp
  then show ?thesis using new D(2,3) by blast
qed
end
