(* ===== verification/Replica_Tests.thy ===== *)
theory Replica_Tests
  imports Test_Kit
begin

text \<open>
  The eleven unit tests of \<open>pbft.rs\<close> (\<open>mod adversarial_tests\<close>) as programs over the model, one
  definition per test under the test's name, with its assertions in its order. Each passes for every
  draw of the key polynomial. A test that calls \<open>PbftState::new\<close> takes the content of the log it
  finds as an argument; the others write a log under a fresh name.
\<close>

section \<open>Rejected messages\<close>

definition test_conflicting_preprepare_rejected ::
  "('s::field, 'g1::ab_group_add, 'g2::ab_group_add, 'gt) bls \<Rightarrow> (nat \<Rightarrow> 's) \<Rightarrow> bytes \<Rightarrow> bool" where
  "test_conflicting_preprepare_rejected C random disk =
     (case generate_test_keys C random 4 3 of (sks, pks, master_pk) \<Rightarrow>
        expect (new_with_wal_path C (log_file disk) 4 pks master_pk) (\<lambda>state.
          let view = current_view (st_core state);
              leader_id = get_expected_leader (st_config state) view;
              seq = highest_seq (st_core state) + 1;
              digest_a = replicate 32 0xaa;
              digest_b = replicate 32 0xbb;
              msg_a = create_pbft_message C PrePrepare view seq digest_a leader_id (secret_key sks leader_id)
          in assert_ok (handle_message C handler_io_ok msg_a state) (\<lambda>state.
               let msg_b = create_pbft_message C PrePrepare view seq digest_b leader_id
                     (secret_key sks leader_id)
               in assert_error EQUIVOCATION_DETECTED (handle_message C handler_io_ok msg_b state)
                    (\<lambda>state. True))))"

definition test_orphan_prepare_rejected ::
  "('s::field, 'g1::ab_group_add, 'g2::ab_group_add, 'gt) bls \<Rightarrow> (nat \<Rightarrow> 's) \<Rightarrow> bytes \<Rightarrow> bool" where
  "test_orphan_prepare_rejected C random disk =
     (case generate_test_keys C random 4 3 of (sks, pks, master_pk) \<Rightarrow>
        expect (new_with_wal_path C (log_file disk) 4 pks master_pk) (\<lambda>state.
          let msg = create_pbft_message C Prepare 0 1 (replicate 32 0xdd) 1 (secret_key sks 1)
          in assert_error ORPHAN_PREPARE (handle_message C handler_io_ok msg state) (\<lambda>state. True)))"

definition failed_view_change_certificate_rolls_back_mutated_votes_and_view ::
  "('s::field, 'g1::ab_group_add, 'g2::ab_group_add, 'gt) bls \<Rightarrow> (nat \<Rightarrow> 's) \<Rightarrow> bytes \<Rightarrow> bool" where
  "failed_view_change_certificate_rolls_back_mutated_votes_and_view C random disk =
     (case generate_test_keys C random 4 3 of (sks, pks, master_pk) \<Rightarrow>
        expect (new_with_wal_path C (log_file disk) 4 pks master_pk) (\<lambda>state.
          let target_view = 1;
              existing_digest = replicate 32 0x31;
              supporters = fmupd 1 (1, existing_digest, g1_generator C)
                (fmupd 0 (1, existing_digest, g1_generator C) fmempty);
              state = state\<lparr>st_core := st_core state\<lparr>view_change_votes :=
                fmupd target_view supporters (view_change_votes (st_core state))\<rparr>\<rparr>;
              sender_id = 2;
              digest = replicate 32 0x32;
              msg = create_pbft_message C ViewChange target_view 0 digest sender_id (secret_key sks sender_id)
          in assert_error MISSING_QUORUM_CERTIFICATE (handle_message C handler_io_ok msg state) (\<lambda>state.
               current_view (st_core state) = 0 \<and>
               (case fmlookup (view_change_votes (st_core state)) target_view of
                  None \<Rightarrow> False
                | Some restored \<Rightarrow> hm_len restored = 2 \<and> \<not> hm_contains restored sender_id))))"

section \<open>Logs that do not recover\<close>

definition wal_recovery_rejects_unauthenticated_vote ::
  "('s::field, 'g1::ab_group_add, 'g2::ab_group_add, 'gt) bls \<Rightarrow> (nat \<Rightarrow> 's) \<Rightarrow> bool" where
  "wal_recovery_rejects_unauthenticated_vote C random =
     (case generate_test_keys C random 4 3 of (sks, pks, master_pk) \<Rightarrow>
        append_each C [\<lparr>row_view = 0, row_seq = 1, row_phase = phase_u8 PrePrepare, row_sender_id = 0,
            row_digest = replicate 32 0x91, row_signature = g1_generator C\<rparr>] (wal_open []) (\<lambda>wal.
          new_with_wal_path C (log_file (content wal)) 4 pks master_pk = Err WAL_REPLAY_ERROR))"

definition recovery_does_not_combine_checkpoint_votes_across_views ::
  "('s::field, 'g1::ab_group_add, 'g2::ab_group_add, 'gt) bls \<Rightarrow> (nat \<Rightarrow> 's) \<Rightarrow> bool" where
  "recovery_does_not_combine_checkpoint_votes_across_views C random =
     (case generate_test_keys C random 4 3 of (sks, pks, master_pk) \<Rightarrow>
        let seq = 5;
            digest = replicate 32 0x64;
            rows = map (\<lambda>(view, sender_id).
              let canonical = canonical_msg (phase_u8 Checkpoint) view seq digest;
                  signature = sign_bls_message C canonical (secret_key sks sender_id)
              in \<lparr>row_view = view, row_seq = seq, row_phase = phase_u8 Checkpoint,
                  row_sender_id = sender_id, row_digest = digest, row_signature = signature\<rparr>)
              [(0, 0), (0, 1), (1, 2)]
        in append_each C rows (wal_open []) (\<lambda>wal.
             expect (new_with_wal_path C (log_file (content wal)) 4 pks master_pk) (\<lambda>recovered.
               last_stable_checkpoint (st_core recovered) = 0 \<and>
               hm_len (checkpoint_votes (st_core recovered)) = 2)))"

section \<open>Restarts\<close>

definition view_change_accepts_previous_view_prepared_certificate_and_recovers ::
  "('s::field, 'g1::ab_group_add, 'g2::ab_group_add, 'gt) bls \<Rightarrow> (nat \<Rightarrow> 's) \<Rightarrow> bool" where
  "view_change_accepts_previous_view_prepared_certificate_and_recovers C random =
     (case generate_test_keys C random 4 3 of (sks, pks, master_pk) \<Rightarrow>
        expect (new_with_wal_path C (log_file []) 4 pks master_pk) (\<lambda>state.
          let prepared_view = 0;
              target_view = 1;
              seq = 1;
              digest = replicate 32 0x5c;
              pre_prepare = create_pbft_message C PrePrepare prepared_view seq digest 0 (secret_key sks 0)
          in assert_response INBOUND_OK_PREPREPARE (handle_message C handler_io_ok pre_prepare state) (\<lambda>state.
             accept_each C (\<lambda>state sender_id.
               create_pbft_message C Prepare prepared_view seq digest sender_id (secret_key sks sender_id))
               [0, 1, 2] state (\<lambda>state.
             hm_contains (prepared_certificates (st_core state)) (prepared_view, seq) \<and>
             accept_each C (\<lambda>state sender_id.
               create_pbft_message C ViewChange target_view seq digest sender_id (secret_key sks sender_id))
               [0, 1, 2] state (\<lambda>state.
             current_view (st_core state) = target_view \<and>
             expect (new_with_wal_path C (log_left state) 4 pks master_pk) (\<lambda>recovered.
               current_view (st_core recovered) = target_view \<and>
               (case fmlookup (new_view_certificates (st_core recovered)) target_view of
                  None \<Rightarrow> False
                | Some new_view \<Rightarrow>
                    (case nv_selected new_view of
                       None \<Rightarrow> False
                     | Some cert \<Rightarrow> pc_verify C (quorum_size (st_config recovered))
                         (master_public_key (st_config recovered)) cert))))))))"

definition recovery_advances_view_only_after_a_quorum_certificate ::
  "('s::field, 'g1::ab_group_add, 'g2::ab_group_add, 'gt) bls \<Rightarrow> (nat \<Rightarrow> 's) \<Rightarrow> bool" where
  "recovery_advances_view_only_after_a_quorum_certificate C random =
     (case generate_test_keys C random 4 3 of (sks, pks, master_pk) \<Rightarrow>
        expect (new_with_wal_path C (log_file []) 4 pks master_pk) (\<lambda>state.
          let target_view = 7;
              digest = replicate 32 0x77;
              make_vote = (\<lambda>sender_id.
                create_pbft_message C ViewChange target_view 0 digest sender_id (secret_key sks sender_id))
          in assert_response VOTE_OK_VIEW_CHANGE (handle_message C handler_io_ok (make_vote 0) state) (\<lambda>state.
             expect (new_with_wal_path C (log_left state) 4 pks master_pk) (\<lambda>state.
             current_view (st_core state) = 0 \<and>
             (case fmlookup (view_change_votes (st_core state)) target_view of
                None \<Rightarrow> False | Some votes \<Rightarrow> hm_len votes = 1) \<and>
             assert_response VOTE_OK_VIEW_CHANGE (handle_message C handler_io_ok (make_vote 1) state) (\<lambda>state.
             assert_response VIEW_CHANGE_OK (handle_message C handler_io_ok (make_vote 2) state) (\<lambda>state.
             current_view (st_core state) = target_view \<and>
             expect (new_with_wal_path C (log_left state) 4 pks master_pk) (\<lambda>recovered.
               current_view (st_core recovered) = target_view \<and>
               hm_contains (new_view_certificates (st_core recovered)) target_view)))))))"

definition test_checkpoint_and_wal_pruning_recovers_stable_checkpoint ::
  "('s::field, 'g1::ab_group_add, 'g2::ab_group_add, 'gt) bls \<Rightarrow> (nat \<Rightarrow> 's) \<Rightarrow> bool" where
  "test_checkpoint_and_wal_pruning_recovers_stable_checkpoint C random =
     (case generate_test_keys C random 4 3 of (sks, pks, master_pk) \<Rightarrow>
        expect (new_with_wal_path C (log_file []) 4 pks master_pk) (\<lambda>state.
          let seq_to_checkpoint = 5;
              digest = replicate 32 0x55
          in accept_each C (\<lambda>state i.
               create_pbft_message C Checkpoint (current_view (st_core state)) seq_to_checkpoint digest i
                 (secret_key sks i))
               [0, 1, 2] state (\<lambda>state.
             last_stable_checkpoint (st_core state) = seq_to_checkpoint \<and>
             hm_len (checkpoint_votes (st_core state)) = 0 \<and>
             expect (new_with_wal_path C (log_left state) 4 pks master_pk) (\<lambda>recovered.
               last_stable_checkpoint (st_core recovered) = seq_to_checkpoint))))"

section \<open>A failing append\<close>

text \<open>\<open>fail_next_append_for_test\<close>: the next append fails before it writes.\<close>

definition fail_next_append_for_test :: handler_io where
  "fail_next_append_for_test = handler_io_ok\<lparr>h_append := \<lparr>a_write = Some 0, a_sync = True\<rparr>\<rparr>"

definition wal_append_failure_rolls_back_protocol_state ::
  "('s::field, 'g1::ab_group_add, 'g2::ab_group_add, 'gt) bls \<Rightarrow> (nat \<Rightarrow> 's) \<Rightarrow> bool" where
  "wal_append_failure_rolls_back_protocol_state C random =
     (case generate_test_keys C random 4 3 of (sks, pks, master_pk) \<Rightarrow>
        expect (new_with_wal_path C (log_file []) 4 pks master_pk) (\<lambda>state.
          let view = current_view (st_core state);
              leader_id = get_expected_leader (st_config state) view;
              seq = highest_seq (st_core state) + 1;
              digest = replicate 32 0x6a;
              msg = create_pbft_message C PrePrepare view seq digest leader_id (secret_key sks leader_id)
          in assert_error WAL_ERROR (handle_message C fail_next_append_for_test msg state) (\<lambda>state.
               highest_seq (st_core state) = 0 \<and>
               (view, seq, digest) |\<notin>| pre_prepared_proposals (st_core state) \<and>
               wal_failed state)))"

section \<open>Certificates\<close>

definition prepared_certificate_selection_is_highest_view_and_order_independent ::
  "('s::field, 'g1::ab_group_add, 'g2::ab_group_add, 'gt) bls \<Rightarrow> (nat \<Rightarrow> 's) \<Rightarrow> bool" where
  "prepared_certificate_selection_is_highest_view_and_order_independent C random =
     (case generate_test_keys C random 4 3 of (sks, pks, master_pk) \<Rightarrow>
        let seq = 9;
            digest = replicate 32 0x7c;
            make_certificate = (\<lambda>view ids.
              let canonical = canonical_msg (phase_u8 Prepare) view seq digest;
                  signatures = fold (\<lambda>sender_id.
                    fmupd sender_id (sign_bls_message C canonical (secret_key sks sender_id))) ids fmempty
              in \<lparr>pc_view = view, pc_seq = seq, pc_digest = digest, pc_signatures = signatures\<rparr>);
            older = make_certificate 0 [0, 1, 2];
            newer = make_certificate 2 [0, 1, 2];
            same_view_alternative = make_certificate 2 [0, 1, 2, 3]
        in (case (select_highest_prepared_certificate C [older, newer, same_view_alternative] 3 seq digest 3 master_pk,
                  select_highest_prepared_certificate C [same_view_alternative, newer, older] 3 seq digest 3 master_pk,
                  select_highest_prepared_certificate C [make_certificate 0 [0, 1, 2], make_certificate 2 [0, 1, 2]]
                    2 seq digest 3 master_pk) of
              (Some forward, Some reverse, Some before_target) \<Rightarrow>
                pc_view forward = 2 \<and> pc_view forward = pc_view reverse \<and>
                sorted_signers forward = [0, 1, 2] \<and> sorted_signers forward = sorted_signers reverse \<and>
                pc_view before_target = 0
            | _ \<Rightarrow> False))"

definition conflicting_digest_at_highest_view_change_sequence_is_rejected ::
  "('s::field, 'g1::ab_group_add, 'g2::ab_group_add, 'gt) bls \<Rightarrow> (nat \<Rightarrow> 's) \<Rightarrow> bool" where
  "conflicting_digest_at_highest_view_change_sequence_is_rejected C random =
     (case generate_test_keys C random 4 3 of (sks, pks, master_pk) \<Rightarrow>
        let target_view = 1;
            prepared_view = 0;
            seq = 5;
            digest_a = replicate 32 0xa1;
            digest_b = replicate 32 0xb2;
            prepare_bytes = canonical_msg (phase_u8 Prepare) prepared_view seq digest_a;
            prepare_signatures = fold (\<lambda>sender_id.
              fmupd sender_id (sign_bls_message C prepare_bytes (secret_key sks sender_id))) [0, 1, 2] fmempty;
            prepared = \<lparr>pc_view = prepared_view, pc_seq = seq, pc_digest = digest_a,
              pc_signatures = prepare_signatures\<rparr>;
            votes = (\<lambda>ids. fold (\<lambda>(sender_id, digest). fmupd sender_id
              (seq, digest, sign_bls_message C (canonical_msg (phase_u8 ViewChange) target_view seq digest)
                 (secret_key sks sender_id))) ids fmempty);
            conflicting = \<lparr>nv_target_view = target_view,
              nv_view_change_votes = votes [(0, digest_a), (1, digest_a), (2, digest_b)],
              nv_selected = Some prepared\<rparr>;
            consistent = \<lparr>nv_target_view = target_view,
              nv_view_change_votes = votes [(0, digest_a), (1, digest_a), (2, digest_a)],
              nv_selected = Some prepared\<rparr>
        in pc_verify C 3 master_pk prepared \<and>
           \<not> nv_verify C 3 master_pk pks conflicting \<and>
           nv_verify C 3 master_pk pks consistent)"

section \<open>The tests pass\<close>

lemmas test_steps = dispatch_def on_pre_prepare_def on_prepare_def on_view_change_def on_checkpoint_def
  get_expected_leader_def Let_def pc_verify_def has_certificate_def hm_any_iff install_new_view_def

lemma hm_values_empty [simp]: "hm_values fmempty = []"
  using set_hm_values [of fmempty] by simp

lemmas test_views = select_highest_eq cert_eligible_def sort_by_def nv_verify_def

lemma conflicting_preprepare_rejected:
  assumes C: "test_curve C random"
  shows "test_conflicting_preprepare_rejected C random []"
  unfolding test_conflicting_preprepare_rejected_def generate_test_keys prod.case
  apply (rule expect_fresh)
  apply (simp add: Let_def get_expected_leader_def)
  apply (rule assert_response_step(2) [OF C], assumption, simp_all add: test_steps)
  apply (rule assert_error_step [OF C], simp_all add: test_steps)
  done

lemma orphan_prepare_rejected:
  assumes C: "test_curve C random"
  shows "test_orphan_prepare_rejected C random []"
  unfolding test_orphan_prepare_rejected_def generate_test_keys prod.case
  apply (rule expect_fresh)
  apply (simp add: Let_def)
  apply (rule assert_error_step [OF C], simp_all add: test_steps)
  done

lemma failed_view_change_rolls_back:
  assumes C: "test_curve C random"
  shows "failed_view_change_certificate_rolls_back_mutated_votes_and_view C random []"
proof -
  have slot: "highest_view_change_slot (fmupd 2 (0, d, x) (fmupd 1 (1, e, y) (fmupd 0 (1, e, y) fmempty))) = Some (1, e)"
    for d e :: bytes and x y :: 'b
    by (auto simp: highest_view_change_slot_iff split: if_splits)
  show ?thesis
    unfolding failed_view_change_certificate_rolls_back_mutated_votes_and_view_def generate_test_keys prod.case
    apply (rule expect_fresh)
    apply (simp add: Let_def)
    apply (rule assert_error_step [OF C], simp_all add: test_steps slot select_highest_eq sort_by_def)
    done
qed

lemma view_change_recovers:
  assumes C: "test_curve C random"
  shows "view_change_accepts_previous_view_prepared_certificate_and_recovers C random"
  unfolding view_change_accepts_previous_view_prepared_certificate_and_recovers_def generate_test_keys prod.case
  apply (rule expect_fresh)
  apply (simp add: Let_def)
  apply (rule assert_response_step(1) [OF C], assumption, simp_all add: test_steps)
  apply (rule assert_response_step(2) [OF C], assumption, simp_all add: test_steps test_views three_votes C)+
  apply (erule expect_restart, simp add: test_steps three_votes C)
  done

lemma advances_view_only_after_quorum:
  assumes C: "test_curve C random"
  shows "recovery_advances_view_only_after_a_quorum_certificate C random"
  unfolding recovery_advances_view_only_after_a_quorum_certificate_def generate_test_keys prod.case
  apply (rule expect_fresh)
  apply (simp add: Let_def)
  apply (rule assert_response_step(1) [OF C], assumption, simp_all add: test_steps)
  apply (erule expect_restart, simp)
  apply (rule assert_response_step(1) [OF C], assumption, simp_all add: test_steps)
  apply (rule assert_response_step(1) [OF C], assumption, simp_all add: test_steps test_views three_votes C)
  apply (erule expect_restart, simp)
  done

text \<open>The tests that write a log of their own.\<close>

lemma new_with_log:
  assumes "\<forall>r\<in>set rs. storable C r"
  shows "new_with_wal_path C (log_file (encode_rows C rs)) 4 (test_public_keys C random)
      (g2_mul C (g2_generator C) (random 0)) =
    (case recover_rows C (test_config C random) rs empty_core of
       None \<Rightarrow> Err WAL_REPLAY_ERROR
     | Some core \<Rightarrow> Ok \<lparr>st_config = test_config C random,
         st_core = (if 0 < last_stable_checkpoint core
           then retain_after (last_stable_checkpoint core) core else core),
         st_wal = wal_open (encode_rows C rs), wal_failed = False\<rparr>)"
  using new_with_wal_path_stored [OF assms _ _ _ _ test_make_config [of C random], of "log_file (encode_rows C rs)"]
  by (simp add: log_file_def no_fault_def)

lemma recovery_rejects_unauthenticated_vote:
  assumes C: "test_curve C random" and enc: "g1_encodable C (g1_generator C)"
    and forged: "sign_bls_message C (canonical_msg 0 0 1 (replicate 32 0x91)) (test_secret C random 0) \<noteq> g1_generator C"
  shows "wal_recovery_rejects_unauthenticated_vote C random"
proof -
  let ?r = "\<lparr>row_view = 0, row_seq = 1, row_phase = 0, row_sender_id = 0, row_digest = replicate 32 0x91,
    row_signature = g1_generator C\<rparr>"
  have "\<not> verify_bls_signature C (canonical_msg 0 0 1 (replicate 32 0x91)) (g1_generator C)
      (g2_mul C (g2_generator C) (test_secret C random 0))"
    using C forged verify_unique [of C] by (auto simp: test_curve_def)
  then have "recover_core C (test_config C random) ?r empty_core = None"
    by (simp add: recover_core_def test_keys_lookup)
  then show ?thesis
    using new_with_log [of "[?r]" C random] enc
    by (simp add: wal_recovery_rejects_unauthenticated_vote_def generate_test_keys append_each_wal
        storable_def row_wf_def)
qed

lemma checkpoint_votes_not_combined:
  assumes C: "test_curve C random"
  shows "recovery_does_not_combine_checkpoint_votes_across_views C random"
proof -
  define r where "r = (\<lambda>(v, i). msg_row (signed_by_node C random Checkpoint v 5 (replicate 32 0x64) i))"
  have verify: "verify_bls_signature C m (sign_bls_message C m (test_secret C random i))
      (g2_mul C (g2_generator C) (test_secret C random i))" for m i
    using C by (simp add: sign_verify test_curve_def)
  have "\<exists>core. recover_rows C (test_config C random) [r (0, 0), r (0, 1), r (1, 2)] empty_core = Some core \<and>
      last_stable_checkpoint core = 0 \<and> hm_len (checkpoint_votes core) = 2"
    by (simp add: r_def recover_core_def recover_phase_def recover_checkpoint_def test_keys_lookup verify row_key_def Let_def)
  then obtain core where core: "recover_rows C (test_config C random) [r (0, 0), r (0, 1), r (1, 2)] empty_core = Some core"
    "last_stable_checkpoint core = 0" "hm_len (checkpoint_votes core) = 2" by (elim exE conjE)
  have "storable C (r (v, i))" if "unat i < 4" for v i
    using C that by (simp add: r_def storable_def row_wf_def test_curve_def)
  then have st: "\<forall>x\<in>set [r (0, 0), r (0, 1), r (1, 2)]. storable C x" by simp
  have test: "recovery_does_not_combine_checkpoint_votes_across_views C random \<longleftrightarrow>
      expect (new_with_wal_path C (log_file (encode_rows C [r (0, 0), r (0, 1), r (1, 2)])) 4
        (test_public_keys C random) (g2_mul C (g2_generator C) (random 0))) (\<lambda>recovered.
          last_stable_checkpoint (st_core recovered) = 0 \<and> hm_len (checkpoint_votes (st_core recovered)) = 2)"
    by (simp add: recovery_does_not_combine_checkpoint_votes_across_views_def generate_test_keys append_each_wal
        Let_def r_def msg_row_def)
  show ?thesis unfolding test new_with_log [OF st] core(1) using core(2,3) by (simp add: expect_def)
qed

lemma append_failure_rolls_back:
  assumes C: "test_curve C random"
  shows "wal_append_failure_rolls_back_protocol_state C random"
proof -
  have verify: "verify_bls_signature C m (sign_bls_message C m (test_secret C random i))
      (g2_mul C (g2_generator C) (test_secret C random i))" for m i
    using C by (simp add: sign_verify test_curve_def)
  show ?thesis
    unfolding wal_append_failure_rolls_back_protocol_state_def generate_test_keys prod.case
    by (rule expect_fresh)
      (simp add: test_steps handle_message_def assert_error_def test_keys_lookup verify
        fail_next_append_for_test_def append_entry_def)
qed

lemma sorted_ids:
  "sorted_list_of_fset {|2, 1, 0|} = [0, 1, 2 :: u32]" "sorted_list_of_fset {|3, 2, 1, 0|} = [0, 1, 2, 3 :: u32]"
  by (simp_all add: sorted_list_of_fset.rep_eq word_le_nat_alt)

lemma four_votes_verify:
  assumes "test_curve C random"
  shows "verify_threshold_signature C m (fmupd 3 (sign_bls_message C m (test_secret C random 3))
      (fmupd 2 (sign_bls_message C m (test_secret C random 2))
        (fmupd 1 (sign_bls_message C m (test_secret C random 1))
          (fmupd 0 (sign_bls_message C m (test_secret C random 0)) fmempty))))
    (g2_mul C (g2_generator C) (random 0)) 3"
  using assms by (intro node_votes_verify) (auto split: if_splits)

lemma certificate_selection_order_independent:
  assumes C: "test_curve C random"
  shows "prepared_certificate_selection_is_highest_view_and_order_independent C random"
  unfolding prepared_certificate_selection_is_highest_view_and_order_independent_def generate_test_keys prod.case
  by (simp add: Let_def select_highest_eq cert_eligible_def pc_verify_def three_votes four_votes_verify C
      sort_by_def cert_le_def sorted_signers_def sorted_ids)

lemma conflicting_digest_rejected:
  assumes C: "test_curve C random"
  shows "conflicting_digest_at_highest_view_change_sequence_is_rejected C random"
proof -
  have slot: "highest_view_change_slot (fmupd 2 (5, e, x) (fmupd 1 (5, d, y) (fmupd 0 (5, d, z) fmempty))) = None"
    (is "highest_view_change_slot ?votes = None") if "d \<noteq> e" for d e :: bytes and x y z :: 'b
  proof (rule ccontr)
    assume "highest_view_change_slot ?votes \<noteq> None"
    then obtain m c where "highest_view_change_slot ?votes = Some (m, c)" by auto
    note slot = this [unfolded highest_view_change_slot_iff]
    have m: "m = 5" using slot [THEN conjunct1] by (auto split: if_splits)
    have all: "\<forall>i v. fmlookup ?votes i = Some v \<longrightarrow> fst v = 5 \<longrightarrow> fst (snd v) = c"
      using slot [THEN conjunct2, THEN conjunct2] m by (simp del: fmupd_lookup split_paired_All)
    from all [rule_format, of 0 "(5, d, z)"] all [rule_format, of 2 "(5, e, x)"]
    show False using that by simp
  qed
  show ?thesis
    unfolding conflicting_digest_at_highest_view_change_sequence_is_rejected_def generate_test_keys prod.case
    apply (simp only: Let_def)
    apply (intro conjI)
    subgoal by (simp add: pc_verify_def three_votes_verify C)
    subgoal by (simp add: nv_verify_def slot)
    subgoal by (simp add: nv_verify_def pc_verify_def three_votes C)
    done
qed

lemma checkpoint_rows_recover:
  assumes C: "test_curve C random"
  defines "row i \<equiv> msg_row (signed_by_node C random Checkpoint 0 5 (replicate 32 0x55) i)"
  shows "expect (new_with_wal_path C (log_file (encode_rows C [row 0, row 1, row 2])) 4
      (test_public_keys C random) (g2_mul C (g2_generator C) (random 0)))
    (\<lambda>recovered. last_stable_checkpoint (st_core recovered) = 5)"
proof -
  have verify: "verify_bls_signature C m (sign_bls_message C m (test_secret C random i))
      (g2_mul C (g2_generator C) (test_secret C random i))" for m i
    using C by (simp add: sign_verify test_curve_def)
  have "\<exists>core. recover_rows C (test_config C random) [row 0, row 1, row 2] empty_core = Some core \<and>
      last_stable_checkpoint core = 5"
    by (simp add: row_def recover_core_def recover_phase_def recover_checkpoint_def test_keys_lookup verify row_key_def Let_def)
  then obtain core where core: "recover_rows C (test_config C random) [row 0, row 1, row 2] empty_core = Some core"
    "last_stable_checkpoint core = 5" by (elim exE conjE)
  have store: "\<forall>r\<in>set [row 0, row 1, row 2]. storable C r"
    using C by (simp add: row_def storable_def row_wf_def test_curve_def)
  show ?thesis unfolding new_with_log [OF store] core(1) using core(2) by (simp add: expect_def)
qed

lemma checkpoint_recovers:
  assumes C: "test_curve C random"
  shows "test_checkpoint_and_wal_pruning_recovers_stable_checkpoint C random"
  unfolding test_checkpoint_and_wal_pruning_recovers_stable_checkpoint_def generate_test_keys prod.case
  apply (rule expect_fresh)
  apply (simp add: Let_def)
  apply (rule assert_response_step(2) [OF C], assumption, simp_all add: test_steps)
  apply (rule assert_response_step(2) [OF C], assumption, simp_all add: test_steps)
  apply (rule assert_stabilized_step [OF C], assumption, simp_all add: test_steps)
  using checkpoint_rows_recover [OF C] by (simp add: retain_after_def cong del: fmfilter_cong)
end
