(* ===== verification/Integration_Tests.thy ===== *)
theory Integration_Tests
  imports Replica_Tests Text
begin

text \<open>
  The tests outside the modules they test: \<open>stateful_fuzz.rs\<close>, the crates under \<open>tests/\<close> of the
  engine, and \<open>src/tests/adversarial_pbft_tests.rs\<close>. Most pass on every lawful curve. Three facts
  about them are worth a lemma: the leader-equivocation test of \<open>src/tests\<close> expects an unsigned
  proposal to be accepted and cannot pass; the two tests of \<open>byzantine_resilience.rs\<close> run in one
  process, where \<open>PbftState::new\<close> gives all replicas one log, so that the second fails once the first
  has run; and the equivocating-dealer test also passes when the dealer does not equivocate.
\<close>

section \<open>Construction\<close>

definition generator_keys :: "('s, 'g1, 'g2, 'gt) bls \<Rightarrow> (u32, 'g2) fmap" where
  "generator_keys C = fold (\<lambda>i keys. fmupd i (g2_generator C) keys)
     (map word_of_nat [0..<unat (ucast (4 :: usize) :: u32)]) fmempty"

definition test_stateful_adversarial_simulation ::
  "('s::field, 'g1::ab_group_add, 'g2, 'gt) bls \<Rightarrow> bytes \<Rightarrow> bool" where
  "test_stateful_adversarial_simulation C disk =
     expect (new_with_wal_path C (log_file disk) 4 (generator_keys C) (g2_generator C)) (\<lambda>state.
       total_nodes (st_config state) = 4 \<and> byz_f (st_config state) = 1 \<and>
       quorum_size (st_config state) = 3 \<and> current_view (st_core state) = 0)"

definition test_adversarial_event_scheduler ::
  "('s::field, 'g1::ab_group_add, 'g2, 'gt) bls \<Rightarrow> bytes \<Rightarrow> bool" where
  "test_adversarial_event_scheduler C disk \<longleftrightarrow>
     isl (new_with_wal_path C (log_file disk) 3 (generator_keys C) (g2_generator C)) \<and>
     isl (new_with_wal_path C (log_file disk) 5 (generator_keys C) (g2_generator C)) \<and>
     expect (new_with_wal_path C (log_file disk) 4 (generator_keys C) (g2_generator C)) (\<lambda>state.
       let malformed_bytes = replicate 50 0;
           invalid_phase_bytes = (replicate 101 0)[0 := 99]
       in isl (pm_from_bytes C malformed_bytes) \<and>
          isl (pm_from_bytes C invalid_phase_bytes) \<and>
          quorum_size (st_config state) = 2 * byz_f (st_config state) + 1 \<and>
          total_nodes (st_config state) div 2 < quorum_size (st_config state))"

definition test_full_consensus_lifecycle ::
  "('s::field, 'g1::ab_group_add, 'g2::ab_group_add, 'gt) bls \<Rightarrow> (nat \<Rightarrow> 's) \<Rightarrow> bytes \<Rightarrow> bool" where
  "test_full_consensus_lifecycle C random disk =
     (case generate_test_keys C random 4 3 of (sks, pks, master_pk) \<Rightarrow>
        expect (new_with_wal_path C (log_file disk) 4 pks master_pk) (\<lambda>state.
          let invalid_msg = \<lparr>pm_phase = PrePrepare, pm_view = 0, pm_seq = 1, pm_digest = replicate 32 0xee,
                pm_sender_id = 999, pm_signature = 0\<rparr>
          in assert_error AUTH_FAILED (handle_message C handler_io_ok invalid_msg state) (\<lambda>state. True)))"

definition test_adversarial_leader_equivocation_rejection ::
  "('s::field, 'g1::ab_group_add, 'g2, 'gt) bls \<Rightarrow> bytes \<Rightarrow> bool" where
  "test_adversarial_leader_equivocation_rejection C disk =
     expect (new_with_wal_path C (log_file disk) 4 (generator_keys C) (g2_generator C)) (\<lambda>pbft.
       let proposal_a = \<lparr>pm_phase = PrePrepare, pm_view = 0, pm_seq = 1, pm_digest = replicate 32 0x11,
             pm_sender_id = 0, pm_signature = 0\<rparr>
       in assert_ok (handle_message C handler_io_ok proposal_a pbft) (\<lambda>pbft.
            let proposal_b = \<lparr>pm_phase = PrePrepare, pm_view = 0, pm_seq = 1, pm_digest = replicate 32 0x22,
                  pm_sender_id = 0, pm_signature = 0\<rparr>
            in isl (fst (handle_message C handler_io_ok proposal_b pbft))))"

lemma generator_registry:
  obtains cfg where "make_config 4 (generator_keys C) (g2_generator C) = Ok cfg"
    "total_nodes cfg = 4" "byz_f cfg = 1" "quorum_size cfg = 3" "0 |\<in>| registered_nodes cfg"
    "fmlookup (public_keys cfg) 0 = Some (g2_generator C)"
  unfolding make_config_def generator_keys_def four_nodes by (simp add: Let_def)

lemma generator_replica:
  obtains st where "new_with_wal_path C (log_file []) 4 (generator_keys C) (g2_generator C) = Ok st"
    "total_nodes (st_config st) = 4" "byz_f (st_config st) = 1" "quorum_size (st_config st) = 3"
    "0 |\<in>| registered_nodes (st_config st)" "fmlookup (public_keys (st_config st)) 0 = Some (g2_generator C)"
    "st_core st = empty_core" "\<not> wal_failed st"
proof -
  obtain cfg where cfg: "make_config 4 (generator_keys C) (g2_generator C) = Ok cfg"
    "total_nodes cfg = 4" "byz_f cfg = 1" "quorum_size cfg = 3" "0 |\<in>| registered_nodes cfg"
    "fmlookup (public_keys cfg) 0 = Some (g2_generator C)"
    by (rule generator_registry)
  have "new_with_wal_path C (log_file []) 4 (generator_keys C) (g2_generator C) =
      Ok \<lparr>st_config = cfg, st_core = empty_core, st_wal = wal_open [], wal_failed = False\<rparr>"
    by (rule new_with_wal_path_empty [OF cfg(1)]) (simp_all add: log_file_def no_fault_def)
  from that [OF this] cfg show ?thesis by simp
qed

lemma stateful_simulation_passes: "test_stateful_adversarial_simulation C []"
  by (rule generator_replica [of C]) (simp add: test_stateful_adversarial_simulation_def expect_def)

lemma event_scheduler_passes: "test_adversarial_event_scheduler C []"
proof -
  have bad: "isl (new_with_wal_path C (log_file disk) n keys pk)" if "n \<noteq> 3 * ((n - 1) div 3) + 1"
    for disk n pk keys
    using that by (simp add: new_with_wal_path_def make_config_def Let_def)
  have "isl (pm_from_bytes C ((replicate 101 0)[0 := 99]))"
    by (simp add: pm_from_bytes_def phase_of_u8_def)
  moreover have "isl (pm_from_bytes C (replicate 50 0))" by (simp add: pm_from_bytes_def)
  moreover have "isl (new_with_wal_path C (log_file []) 3 (generator_keys C) (g2_generator C))"
    "isl (new_with_wal_path C (log_file []) 5 (generator_keys C) (g2_generator C))"
    by (rule bad; simp)+
  ultimately show ?thesis
    by (rule_tac generator_replica [of C]) (simp add: test_adversarial_event_scheduler_def expect_def)
qed

lemma consensus_lifecycle_passes: "test_full_consensus_lifecycle C random []"
  unfolding test_full_consensus_lifecycle_def generate_test_keys prod.case
  by (rule expect_fresh) (simp add: assert_error_def handle_message_def)

text \<open>Unless the hash of the proposal is the identity, a proposal whose signature is the identity is
  not the leader's, and the first assertion fails.\<close>

lemma leader_equivocation_test_fails:
  assumes C: "scalar_laws C" "pairing_laws C"
    and hash: "hash_message_to_curve C (canonical_msg 0 0 1 (replicate 32 0x11)) \<noteq> 0"
  shows "\<not> test_adversarial_leader_equivocation_rejection C []"
proof -
  have "sign_bls_message C m 1 = hash_message_to_curve C m" for m
    by (simp add: sign_bls_message_def g1_mul_one [OF C(1)])
  then have "\<not> verify_bls_signature C (canonical_msg 0 0 1 (replicate 32 0x11)) 0 (g2_generator C)"
    using verify_unique [OF C(2), of "canonical_msg 0 0 1 (replicate 32 0x11)" 0 1] hash
    by (simp add: g2_mul_one [OF C(1)])
  then show ?thesis
    by (rule_tac generator_replica [of C])
      (simp add: test_adversarial_leader_equivocation_rejection_def expect_def assert_ok_def
        handle_message_def pm_canonical_def)
qed

section \<open>Replicas of one process\<close>

text \<open>
  Without \<open>WAL_PATH\<close>, and outside the unit tests, \<open>PbftState::new\<close> names the log after the process,
  so that the three replicas of the first test append to one file, which is threaded through their
  handlers. \<open>None\<close> is a failed assertion; otherwise the test leaves the log behind.
\<close>

fun deliver_all ::
  "('s::field, 'g1::ab_group_add, 'g2, 'gt) bls \<Rightarrow> 'g1 pbft_message \<Rightarrow> wal \<Rightarrow> ('g1, 'g2) pbft_state list \<Rightarrow>
    (wal \<times> ('g1, 'g2) pbft_state list) option" where
  "deliver_all C msg w [] = Some (w, [])"
| "deliver_all C msg w (state # states) =
     (case handle_message C handler_io_ok msg (state\<lparr>st_wal := w\<rparr>) of
        (Err _, _) \<Rightarrow> None
      | (Ok _, state) \<Rightarrow>
          map_option (\<lambda>(w, states). (w, state # states)) (deliver_all C msg (st_wal state) states))"

fun deliver_each ::
  "('s::field, 'g1::ab_group_add, 'g2, 'gt) bls \<Rightarrow> (u32 \<Rightarrow> 'g1 pbft_message) \<Rightarrow> u32 list \<Rightarrow>
    wal \<times> ('g1, 'g2) pbft_state list \<Rightarrow> (wal \<times> ('g1, 'g2) pbft_state list) option" where
  "deliver_each C msg [] nodes = Some nodes"
| "deliver_each C msg (i # ids) nodes =
     Option.bind (deliver_all C (msg i) (fst nodes) (snd nodes)) (deliver_each C msg ids)"

definition test_byzantine_fault_tolerance_quorum_progress ::
  "('s::field, 'g1::ab_group_add, 'g2::ab_group_add, 'gt) bls \<Rightarrow> (nat \<Rightarrow> 's) \<Rightarrow> bytes \<Rightarrow> wal option" where
  "test_byzantine_fault_tolerance_quorum_progress C random disk =
     (case generate_test_keys C random 4 3 of (sks, pks, master_pk) \<Rightarrow>
        (case new_with_wal_path C (log_file disk) 4 pks master_pk of
           Err _ \<Rightarrow> None
         | Ok state \<Rightarrow>
             let node_states = map (\<lambda>_. state) [0..<3];
                 view = 0;
                 seq = 1;
                 block_digest = replicate 32 0x42;
                 message = (\<lambda>phase sender_id. create_pbft_message C phase view seq block_digest sender_id
                   (secret_key sks sender_id))
             in Option.bind (deliver_each C (message PrePrepare) [0] (st_wal state, node_states)) (\<lambda>nodes.
                Option.bind (deliver_each C (message Prepare) [0, 1, 2] nodes) (\<lambda>nodes.
                if \<not> list_all (\<lambda>state. hm_contains (prepared_certificates (st_core state)) (view, seq)) (snd nodes)
                then None
                else
                  Option.bind (deliver_each C (message Commit) [0, 1, 2] nodes) (\<lambda>nodes.
                  if \<not> list_all (\<lambda>state. fmlookup (committed_digest (st_core state)) (view, seq) =
                       Some block_digest) (snd nodes)
                  then None else Some (fst nodes))))))"

definition test_byzantine_leader_recovery_view_change ::
  "('s::field, 'g1::ab_group_add, 'g2::ab_group_add, 'gt) bls \<Rightarrow> (nat \<Rightarrow> 's) \<Rightarrow> bytes \<Rightarrow> bool" where
  "test_byzantine_leader_recovery_view_change C random disk =
     (case generate_test_keys C random 4 3 of (sks, pks, master_pk) \<Rightarrow>
        expect (new_with_wal_path C (log_file disk) 4 pks master_pk) (\<lambda>new_leader_state.
          let target_view = 1;
              seq = 0;
              empty_digest = replicate 32 0
          in accept_each C (\<lambda>state voter_id.
               create_pbft_message C ViewChange target_view seq empty_digest voter_id (secret_key sks voter_id))
               [1, 2, 3] new_leader_state (\<lambda>state.
             current_view (st_core state) = target_view \<and>
             hm_contains (new_view_certificates (st_core state)) target_view)))"

lemma leader_recovery_passes:
  assumes C: "test_curve C random"
  shows "test_byzantine_leader_recovery_view_change C random []"
  unfolding test_byzantine_leader_recovery_view_change_def generate_test_keys prod.case
  apply (rule expect_fresh)
  apply (simp add: Let_def)
  apply (rule assert_response_step(2) [OF C], assumption, simp_all add: test_steps test_views three_votes C)+
  done

definition nodes_at ::
  "('s::field, 'g1::ab_group_add, 'g2, 'gt) bls \<Rightarrow> (nat \<Rightarrow> 's) \<Rightarrow> 'g1 pbft_core \<Rightarrow> 'g1 wal_row list \<Rightarrow>
    wal \<times> ('g1, 'g2) pbft_state list \<Rightarrow> bool" where
  "nodes_at C random core rs nodes \<longleftrightarrow> wal_log C (fst nodes) rs \<and>
     list_all (\<lambda>st. st_config st = test_config C random \<and> st_core st = core \<and> \<not> wal_failed st) (snd nodes)"

lemma deliver_all_length: "deliver_all C m w sts = Some (w', sts') \<Longrightarrow> length sts' = length sts"
  by (induction sts arbitrary: w sts') (auto split: prod.splits sum.splits)

lemma deliver_all_accepted:
  assumes C: "test_curve C random" and i: "unat i < 4" and d: "length d = 32"
    and p: "p \<noteq> Checkpoint"
    and disp: "dispatch C (test_config C random) (signed_by_node C random p v s d i) core = (Ok r, core')"
  defines "m \<equiv> signed_by_node C random p v s d i"
  shows "nodes_at C random core rs (w, sts) \<Longrightarrow>
    \<exists>w' sts'. deliver_all C m w sts = Some (w', sts') \<and>
      nodes_at C random core' (rs @ map (\<lambda>_. msg_row m) sts) (w', sts')"
proof (induction sts arbitrary: w rs)
  case Nil
  then show ?case by (simp add: nodes_at_def)
next
  case (Cons st sts)
  have "pairing_laws C" using C by (simp add: test_curve_def)
  from node_vote_auth [OF this i] obtain pk where auth: "i |\<in>| registered_nodes (st_config st)"
    "fmlookup (public_keys (st_config st)) i = Some pk"
    "verify_bls_signature C (canonical_msg (phase_u8 p) v s d)
       (sign_bls_message C (canonical_msg (phase_u8 p) v s d) (test_secret C random i)) pk"
    using Cons.prems by (auto simp: vote_auth_def nodes_at_def)
  obtain w1 where w1: "append_entry C append_io_ok (msg_row m) w = (Ok (), w1)"
    by (simp add: append_entry_def Let_def)
  have st: "st_config st = test_config C random" "st_core st = core" "\<not> wal_failed st"
    using Cons.prems by (simp_all add: nodes_at_def)
  have h: "handle_message C handler_io_ok m (st\<lparr>st_wal := w\<rparr>) = (Ok r, st\<lparr>st_core := core', st_wal := w1\<rparr>)"
    using auth p disp st w1 by (simp add: handle_message_def handler_io_ok_def m_def)
  have "row_wf (msg_row m)" using d by (simp add: m_def row_wf_def)
  then have "nodes_at C random core (rs @ [msg_row m]) (w1, sts)"
    using Cons.prems append_entry_ok_log [OF _ _ w1, of rs] by (simp add: nodes_at_def)
  from Cons.IH [OF this] obtain w' sts' where rest: "deliver_all C m w1 sts = Some (w', sts')"
    "nodes_at C random core' (rs @ [msg_row m] @ map (\<lambda>_. msg_row m) sts) (w', sts')" by auto
  then have "nodes_at C random core' (rs @ map (\<lambda>_. msg_row m) (st # sts)) (w', st\<lparr>st_core := core', st_wal := w1\<rparr> # sts')"
    using st by (simp add: nodes_at_def)
  then show ?case using h rest(1) by simp
qed

text \<open>The rest of such a test as a predicate on its outcome, and one rule per delivery.\<close>

definition outcome :: "('a \<Rightarrow> bool) \<Rightarrow> 'a option \<Rightarrow> bool" where
  "outcome Q x = (\<exists>y. x = Some y \<and> Q y)"

lemma outcome_simps [simp]:
  "outcome Q (Some y) = Q y" "outcome Q None = False"
  "outcome Q (Option.bind x f) = outcome (\<lambda>y. outcome Q (f y)) x"
  by (auto simp: outcome_def bind_eq_Some_conv)

definition nodes_after ::
  "('s::field, 'g1::ab_group_add, 'g2, 'gt) bls \<Rightarrow> (nat \<Rightarrow> 's) \<Rightarrow> 'g1 wal_row \<Rightarrow> 'g1 pbft_core \<Rightarrow>
    wal \<times> ('g1, 'g2) pbft_state list \<Rightarrow> bool" where
  "nodes_after C random row core nodes \<longleftrightarrow> snd nodes \<noteq> [] \<and> (\<exists>rs. nodes_at C random core (row # rs) nodes)"

lemma deliver_first:
  assumes C: "test_curve C random" and t: "nodes_at C random core [] nodes" "snd nodes \<noteq> []"
    and rest: "\<And>nodes'. nodes_after C random (msg_row (signed_by_node C random p v s d i)) core' nodes' \<Longrightarrow>
      outcome Q (deliver_each C msg ids nodes')"
    and p: "p \<noteq> Checkpoint"
    and disp: "dispatch C (test_config C random) (signed_by_node C random p v s d i) core = (Ok r, core')"
    and d: "length d = 32" and i: "unat i < 4"
    and msg: "msg i = signed_by_node C random p v s d i"
  shows "outcome Q (deliver_each C msg (i # ids) nodes)"
proof -
  obtain w st sts where nodes: "nodes = (w, st # sts)" using t(2) by (cases nodes) (auto simp: neq_Nil_conv)
  obtain w' sts' where run: "deliver_all C (msg i) w (st # sts) = Some (w', sts')"
    "nodes_at C random core' ([] @ map (\<lambda>_. msg_row (signed_by_node C random p v s d i)) (st # sts)) (w', sts')"
    using deliver_all_accepted [OF C i d p disp, of "[]" w "st # sts"] t nodes msg by auto
  moreover have "sts' \<noteq> []" using deliver_all_length [OF run(1)] by auto
  ultimately show ?thesis using rest [of "(w', sts')"] nodes by (auto simp: nodes_after_def simp del: deliver_all.simps)
qed

lemma deliver_next:
  assumes t: "nodes_after C random row core nodes" and C: "test_curve C random"
    and rest: "\<And>nodes'. nodes_after C random row core' nodes' \<Longrightarrow> outcome Q (deliver_each C msg ids nodes')"
    and p: "p \<noteq> Checkpoint"
    and disp: "dispatch C (test_config C random) (signed_by_node C random p v s d i) core = (Ok r, core')"
    and d: "length d = 32" and i: "unat i < 4"
    and msg: "msg i = signed_by_node C random p v s d i"
  shows "outcome Q (deliver_each C msg (i # ids) nodes)"
proof -
  obtain w sts rs where nodes: "nodes = (w, sts)" "sts \<noteq> []" "nodes_at C random core (row # rs) (w, sts)"
    using t by (cases nodes) (auto simp: nodes_after_def)
  obtain w' sts' where run: "deliver_all C (msg i) w sts = Some (w', sts')"
    "nodes_at C random core' ((row # rs) @ map (\<lambda>_. msg_row (signed_by_node C random p v s d i)) sts) (w', sts')"
    using deliver_all_accepted [OF C i d p disp nodes(3)] msg by auto
  moreover have "sts' \<noteq> []" using deliver_all_length [OF run(1)] nodes(2) by auto
  ultimately show ?thesis using rest [of "(w', sts')"] nodes by (auto simp: nodes_after_def)
qed

lemma nodes_after_states:
  "nodes_after C random row core nodes \<Longrightarrow> P core \<Longrightarrow> list_all (\<lambda>st. P (st_core st)) (snd nodes)"
  by (auto simp: nodes_after_def nodes_at_def list_all_iff)

lemma quorum_progress_leaves_log:
  assumes C: "test_curve C random"
  shows "outcome (\<lambda>w. \<exists>rs. wal_log C w (msg_row (signed_by_node C random PrePrepare 0 1 (replicate 32 0x42) 0) # rs))
    (test_byzantine_fault_tolerance_quorum_progress C random [])"
proof -
  let ?st = "\<lparr>st_config = test_config C random, st_core = empty_core, st_wal = wal_open [], wal_failed = False\<rparr>"
  have start: "nodes_at C random empty_core [] (wal_open [], [?st, ?st, ?st])"
    by (simp add: nodes_at_def wal_log_def wal_open_def)
  have three: "map (\<lambda>_. ?st) [0..<3] = [?st, ?st, ?st]" by (simp add: upt_rec)
  show ?thesis
    unfolding test_byzantine_fault_tolerance_quorum_progress_def generate_test_keys prod.case test_replica
      sum.case three Let_def
    apply (simp del: deliver_each.simps(2))
    apply (rule deliver_first [OF C start], simp_all add: test_steps del: deliver_each.simps(2))
    apply (erule deliver_next [OF _ C], simp_all add: test_steps del: deliver_each.simps(2))
    apply (erule deliver_next [OF _ C], simp_all add: test_steps del: deliver_each.simps(2))
    apply (erule deliver_next [OF _ C], simp_all add: test_steps three_votes C del: deliver_each.simps(2))
    apply (intro conjI impI, erule nodes_after_states, simp)
    apply (erule deliver_next [OF _ C], simp_all add: test_steps on_commit_def cc_verify_def three_votes C del: deliver_each.simps(2))+
    apply (intro conjI impI, erule nodes_after_states, simp)
    apply (auto simp: nodes_after_def nodes_at_def)
    done
qed

text \<open>What the first test leaves behind is refused under any keys for which the leader signs differently.\<close>

lemma foreign_proposal_refused:
  assumes C: "test_curve C random" "test_curve C random'"
    and keys: "sign_bls_message C (canonical_msg 0 v s d) (test_secret C random 0) \<noteq>
      sign_bls_message C (canonical_msg 0 v s d) (test_secret C random' 0)"
    and d: "length d = 32"
    and log: "wal_log C w (msg_row (signed_by_node C random PrePrepare v s d 0) # rs)"
    and io: "o_open io" "o_reopen io" "no_fault (o_reads io)" "o_disk io = content w"
  shows "new_with_wal_path C io 4 (test_public_keys C random')
    (g2_mul C (g2_generator C) (random' 0)) = Err WAL_REPLAY_ERROR"
proof (rule foreign_first_row [OF _ _ test_make_config io(1-3)])
  let ?r = "msg_row (signed_by_node C random PrePrepare v s d 0)"
  show "storable C ?r" using C(1) d by (simp add: storable_def row_wf_def test_curve_def)
  have "\<not> verify_bls_signature C (canonical_msg 0 v s d)
      (sign_bls_message C (canonical_msg 0 v s d) (test_secret C random 0))
      (g2_mul C (g2_generator C) (test_secret C random' 0))"
    using C(2) keys verify_unique [of C] by (auto simp: test_curve_def)
  then show "recover_core C (test_config C random') ?r empty_core = None"
    by (simp add: recover_core_def test_keys_lookup)
  show "o_disk io = row_to_bytes C ?r @ encode_rows C rs" using log io(4) by (simp add: wal_log_def)
qed

lemma log_file_io: "o_open (log_file d)" "o_reopen (log_file d)" "no_fault (o_reads (log_file d))"
    "o_disk (log_file d) = d"
  by (simp_all add: log_file_def no_fault_def)

lemma shared_log_blocks_second_test:
  assumes C: "test_curve C random" "test_curve C random'"
    and keys: "sign_bls_message C (canonical_msg 0 0 1 (replicate 32 0x42)) (test_secret C random 0) \<noteq>
      sign_bls_message C (canonical_msg 0 0 1 (replicate 32 0x42)) (test_secret C random' 0)"
  shows "\<exists>log_left_behind. test_byzantine_fault_tolerance_quorum_progress C random [] = Some log_left_behind \<and>
    test_byzantine_leader_recovery_view_change C random' [] \<and>
    \<not> test_byzantine_leader_recovery_view_change C random' (content log_left_behind) \<and>
    (\<forall>io sks pks master_pk. generate_test_keys C random' 4 3 = (sks, pks, master_pk) \<and>
       o_open io \<and> o_reopen io \<and> no_fault (o_reads io) \<and> o_disk io = content log_left_behind \<longrightarrow>
       new_with_wal_path C io 4 pks master_pk = Err WAL_REPLAY_ERROR)"
proof -
  obtain w rs where w: "test_byzantine_fault_tolerance_quorum_progress C random [] = Some w"
    "wal_log C w (msg_row (signed_by_node C random PrePrepare 0 1 (replicate 32 0x42) 0) # rs)"
    using quorum_progress_leaves_log [OF C(1)] unfolding outcome_def by blast
  have refused: "new_with_wal_path C io 4 (test_public_keys C random')
      (g2_mul C (g2_generator C) (random' 0)) = Err WAL_REPLAY_ERROR"
    if "o_open io" "o_reopen io" "no_fault (o_reads io)" "o_disk io = content w" for io
    by (rule foreign_proposal_refused [OF C keys _ w(2) that]) simp
  have "\<not> test_byzantine_leader_recovery_view_change C random' (content w)"
    using refused [OF log_file_io]
    by (simp add: test_byzantine_leader_recovery_view_change_def generate_test_keys expect_def)
  then show ?thesis
    using w(1) leader_recovery_passes [OF C(2)] refused by (intro exI [of _ w]) (auto simp: generate_test_keys)
qed

text \<open>The first unit test of \<open>pbft.rs\<close> leaves its log too: a later run that finds it, under the same
  counter and thread, fails with other keys.\<close>

lemma unit_test_rerun_fails:
  assumes C: "test_curve C random" "test_curve C random'"
    and keys: "sign_bls_message C (canonical_msg 0 0 1 (replicate 32 0xaa)) (test_secret C random 0) \<noteq>
      sign_bls_message C (canonical_msg 0 0 1 (replicate 32 0xaa)) (test_secret C random' 0)"
    and log: "wal_log C w [msg_row (signed_by_node C random PrePrepare 0 1 (replicate 32 0xaa) 0)]"
  shows "\<not> test_conflicting_preprepare_rejected C random' (content w)"
  using foreign_proposal_refused [OF C keys _ log log_file_io]
  by (simp add: test_conflicting_preprepare_rejected_def generate_test_keys expect_def)

section \<open>Key generation\<close>

definition test_cluster_simulation_basic ::
  "('s::field, 'g1::ab_group_add, 'g2, 'gt) bls \<Rightarrow> (nat \<Rightarrow> 's) \<Rightarrow> bytes \<Rightarrow> bool" where
  "test_cluster_simulation_basic C random disk \<longleftrightarrow>
     (let pks = fold (\<lambda>i pks. fmupd i (g2_mul C (g2_generator C) (random (unat i))) pks)
            (map word_of_nat [0..<unat (ucast (4 :: usize) :: u32)]) fmempty;
          master_pk = g2_mul C (g2_generator C) (random 4)
      in \<not> isl (new_with_wal_path C (log_file disk) 4 pks master_pk) \<and>
         hash_message_to_curve C (ascii ''cluster_state_transition_probe'') \<noteq> 0)"

text \<open>The receiver takes the share and the commitments of each sender in turn, with \<open>expect\<close>.\<close>

fun receive_shares ::
  "('s::field, 'g1, 'g2::ab_group_add, 'gt) bls \<Rightarrow> (u32 \<times> 's \<times> 'g2 list) list \<Rightarrow> ('s, 'g2) dkg_session \<Rightarrow>
    ('s, 'g2) dkg_session option" where
  "receive_shares C [] ses = Some ses"
| "receive_shares C ((sender_id, share, commits) # incoming) ses =
     (case process_incoming_share C sender_id share commits ses of
        (Err _, _) \<Rightarrow> None
      | (Ok _, ses) \<Rightarrow> receive_shares C incoming ses)"

definition incoming_shares ::
  "('s::field, 'g1, 'g2, 'gt) bls \<Rightarrow> ('s, 'g2) dkg_session list \<Rightarrow> u32 \<Rightarrow> (u32 \<times> 's \<times> 'g2 list) list" where
  "incoming_shares C sessions receiver_id =
     map (\<lambda>ses. (dk_node_id ses, evaluate_share_for C ses receiver_id, generate_commitments C ses)) sessions"

text \<open>The map of sessions is a list in the order of the identifiers. Receiving shares does not touch
  the polynomials, so that the incoming shares may be computed from the sessions as created.\<close>

definition test_dkg_e2e_consensus_integration ::
  "(bytes \<Rightarrow> bytes) \<Rightarrow> ('s::field, 'g1::ab_group_add, 'g2::ab_group_add, 'gt) bls \<Rightarrow> (u32 \<Rightarrow> nat \<Rightarrow> 's) \<Rightarrow>
    bytes \<Rightarrow> bool" where
  "test_dkg_e2e_consensus_integration sha256 C rng disk =
     (let participants = [0, 1, 2, 3];
          created = map (\<lambda>i. dkg_new (rng i) i 3 4) participants
      in case those (map (\<lambda>ses. receive_shares C (incoming_shares C created (dk_node_id ses)) ses) created) of
           None \<Rightarrow> False
         | Some sessions \<Rightarrow>
             let transcript_hashes = fold (\<lambda>ses. fmupd (dk_node_id ses) (transcript_hash sha256 C ses)) sessions fmempty
             in list_all (\<lambda>ses. verify_transcript_consistency sha256 C transcript_hashes ses = Ok ()) sessions \<and>
                (case those (map (\<lambda>ses. case finalize_dkg C participants ses of Err _ \<Rightarrow> None | Ok r \<Rightarrow> Some r) sessions) of
                   None \<Rightarrow> False
                 | Some finals \<Rightarrow>
                     let secret_shares = map fst finals;
                         master_pks = map snd finals;
                         canonical_master_pk = master_pks ! 0;
                         pks = fold (\<lambda>(i, sk). fmupd i (g2_mul C (g2_generator C) sk)) (zip participants secret_shares) fmempty;
                         msg = ascii ''canonical_sovereign_lattice_block_proposal_digest'';
                         threshold_signatures = fold (\<lambda>(i, sk). fmupd i (sign_bls_message C msg sk))
                           (take 3 (zip participants secret_shares)) fmempty
                     in list_all (\<lambda>pk. canonical_master_pk = pk) (tl master_pks) \<and>
                        verify_threshold_signature C msg threshold_signatures canonical_master_pk 3 \<and>
                        \<not> isl (new_with_wal_path C (log_file disk) 4 pks canonical_master_pk)))"

definition test_dkg_equivocating_dealer_detected ::
  "(bytes \<Rightarrow> bytes) \<Rightarrow> ('s::field, 'g1::ab_group_add, 'g2::ab_group_add, 'gt) bls \<Rightarrow> (u32 \<Rightarrow> nat \<Rightarrow> 's) \<Rightarrow>
    (nat \<Rightarrow> 's) \<Rightarrow> (nat \<Rightarrow> 's) \<Rightarrow> bool" where
  "test_dkg_equivocating_dealer_detected sha256 C rng rng_a rng_b =
     (let session_honest = dkg_new (rng 1) 1 3 4;
          malicious_session_a = dkg_new rng_a 0 3 4;
          malicious_session_b = dkg_new rng_b 0 3 4
      in case (receive_shares C (incoming_shares C [malicious_session_a, session_honest] 2) (dkg_new (rng 2) 2 3 4),
               receive_shares C (incoming_shares C [malicious_session_b, session_honest] 3) (dkg_new (rng 3) 3 3 4)) of
           (Some session_victim_a, Some session_victim_b) \<Rightarrow>
             let hash_a = transcript_hash sha256 C session_victim_a;
                 hash_b = transcript_hash sha256 C session_victim_b
             in hash_a \<noteq> hash_b \<and>
                verify_transcript_consistency sha256 C (fmupd 3 hash_b fmempty) session_victim_a =
                  Err TRANSCRIPT_EQUIVOCATION_DETECTED
         | _ \<Rightarrow> False)"

section \<open>The key generation tests: what they show\<close>

lemma receive_shares_honest:
  assumes C: "scalar_laws C"
  shows "\<forall>s\<in>set senders. length (dk_secret_polynomial s) = unat (dk_threshold ses) \<Longrightarrow>
    receive_shares C (incoming_shares C senders (dk_node_id ses)) ses = Some (ses\<lparr>
      dk_received_shares := fold (\<lambda>s. fmupd (dk_node_id s) (evaluate_share_for C s (dk_node_id ses))) senders
        (dk_received_shares ses),
      dk_received_commitments := fold (\<lambda>s. fmupd (dk_node_id s) (generate_commitments C s)) senders
        (dk_received_commitments ses)\<rparr>)"
proof (induction senders arbitrary: ses)
  case Nil
  then show ?case by (simp add: incoming_shares_def)
next
  case (Cons s senders)
  let ?ses = "ses\<lparr>dk_received_shares := fmupd (dk_node_id s) (evaluate_share_for C s (dk_node_id ses)) (dk_received_shares ses),
    dk_received_commitments := fmupd (dk_node_id s) (generate_commitments C s) (dk_received_commitments ses)\<rparr>"
  have t: "length (dk_secret_polynomial s) = unat (dk_threshold ses)" using Cons.prems by simp
  obtain res ses' where p: "process_incoming_share C (dk_node_id s) (evaluate_share_for C s (dk_node_id ses))
      (generate_commitments C s) ses = (res, ses')" by fastforce
  have "is_ok res" using honest_share_accepted [OF C t] p by simp
  then obtain u where u: "res = Ok u" by (cases res) auto
  then have "ses' = ?ses" using process_incoming_share_state [OF p] by simp
  then show ?case
    using Cons.IH [of ?ses] Cons.prems p u by (simp add: incoming_shares_def)
qed

definition e2e_session :: "('s::field, 'g1, 'g2, 'gt) bls \<Rightarrow> (u32 \<Rightarrow> nat \<Rightarrow> 's) \<Rightarrow> u32 \<Rightarrow> ('s, 'g2) dkg_session" where
  "e2e_session C rng i = (dkg_new (rng i) i 3 4)\<lparr>
     dk_received_shares := fold (\<lambda>j. fmupd j (evaluate_share_for C (dkg_new (rng j) j 3 4 :: ('s, 'g2) dkg_session) i)) [0, 1, 2, 3] fmempty,
     dk_received_commitments := fold (\<lambda>j. fmupd j (generate_commitments C (dkg_new (rng j) j 3 4))) [0, 1, 2, 3] fmempty\<rparr>"

lemma dkg_new_fields [simp]:
  "dk_node_id (dkg_new rng i t n) = i" "dk_threshold (dkg_new rng i t n) = t"
  "dk_secret_polynomial (dkg_new rng i t n) = map rng [0..<unat t]"
  "dk_received_shares (dkg_new rng i t n) = fmempty" "dk_received_commitments (dkg_new rng i t n) = fmempty"
  by (simp_all add: dkg_new_def)

lemma e2e_received:
  assumes "scalar_laws C"
  shows "receive_shares C (incoming_shares C (map (\<lambda>i. dkg_new (rng i) i 3 4) [0, 1, 2, 3]) i) (dkg_new (rng i) i 3 4) =
    Some (e2e_session C rng i)"
  using receive_shares_honest [OF assms, of "map (\<lambda>i. dkg_new (rng i) i 3 4) [0, 1, 2, 3]" "dkg_new (rng i) i 3 4"]
  by (simp add: e2e_session_def)

lemma e2e_transcript:
  "i \<in> {0, 1, 2, 3} \<Longrightarrow> transcript_hash sha256 C (e2e_session C rng i) =
    compute_commitment_transcript sha256 C (dk_received_commitments (e2e_session C rng 0))"
proof -
  assume "i \<in> {0, 1, 2, 3}"
  then have "fmupd i (generate_commitments C (dkg_new (rng i) i 3 4)) (dk_received_commitments (e2e_session C rng i)) =
      dk_received_commitments (e2e_session C rng 0)"
    by (intro fmap_ext) (auto simp: e2e_session_def)
  then show ?thesis
    by (simp add: transcript_hash_def e2e_session_def generate_commitments_def)
qed

lemma e2e_finalize:
  fixes C :: "('s::field, 'g1::ab_group_add, 'g2::ab_group_add, 'gt) bls" and rng :: "u32 \<Rightarrow> nat \<Rightarrow> 's"
  assumes C: "scalar_laws C" and i: "i \<in> {0, 1, 2, 3}"
  defines "P \<equiv> \<lambda>j. map (rng j) [0..<3]"
  shows "finalize_dkg C [0, 1, 2, 3] (e2e_session C rng i) =
    Ok (poly_eval (joint_poly P {0, 1, 2, 3} 3) (x_coord C i),
        g2_mul C (g2_generator C) (hd (joint_poly P {0, 1, 2, 3} 3)))"
proof -
  have h: "holds_shares C P [0, 1, 2, 3] (e2e_session C rng i)"
    using i by (auto simp: holds_shares_def e2e_session_def P_def evaluate_share_poly generate_commitments_def)
  have id: "dk_node_id (e2e_session C rng i) = i" by (simp add: e2e_session_def)
  have "finalize_dkg C [0, 1, 2, 3] (e2e_session C rng i) =
      Ok (\<Sum>j\<in>set [0, 1, 2, 3]. poly_eval (P j) (x_coord C i), g2_mul C (g2_generator C) (\<Sum>j\<in>set [0, 1, 2, 3]. hd (P j)))"
    using finalize_dkg_sum [OF C h] i by (simp add: id)
  moreover have "poly_eval (joint_poly P {0, 1, 2, 3} 3) (x_coord C i) = (\<Sum>j\<in>{0, 1, 2, 3}. poly_eval (P j) (x_coord C i))"
    by (rule joint_poly_eval) (simp add: P_def)
  moreover have "hd (joint_poly P {0, 1, 2, 3} 3) = (\<Sum>j\<in>{0, 1, 2, 3}. hd (P j))"
    by (rule joint_poly_hd) (simp_all add: P_def)
  ultimately show ?thesis by (metis list.set(1,2))
qed

lemma four_keys_construct:
  assumes "hm_contains keys 0" "hm_contains keys 1" "hm_contains keys 2" "hm_contains keys 3"
  shows "\<not> isl (new_with_wal_path C (log_file []) 4 keys pk)"
proof -
  obtain cfg where cfg: "make_config 4 keys pk = Ok cfg"
    using assms unfolding make_config_def four_nodes by (simp add: Let_def)
  show ?thesis using new_with_wal_path_empty [OF cfg, of "log_file []" C] by (simp add: log_file_def no_fault_def)
qed

lemma e2e_passes:
  fixes C :: "('s::field, 'g1::ab_group_add, 'g2::ab_group_add, 'gt) bls"
  assumes C: "scalar_laws C" "pairing_laws C"
  shows "test_dkg_e2e_consensus_integration sha256 C rng []"
proof -
  define F where "F = joint_poly (\<lambda>j. map (rng j) [0..<3]) {0, 1, 2, 3 :: u32} 3"
  have received: "those (map (\<lambda>ses. receive_shares C (incoming_shares C (map (\<lambda>i. dkg_new (rng i) i 3 4) [0, 1, 2, 3])
        (dk_node_id ses)) ses) (map (\<lambda>i. dkg_new (rng i) i 3 4) [0, 1, 2, 3])) = Some (map (e2e_session C rng) [0, 1, 2, 3])"
    using e2e_received [OF C(1), of rng] by simp
  have finals: "those (map (\<lambda>ses. case finalize_dkg C [0, 1, 2, 3] ses of Err _ \<Rightarrow> None | Ok r \<Rightarrow> Some r)
        (map (e2e_session C rng) [0, 1, 2, 3])) =
      Some (map (\<lambda>i. (poly_eval F (x_coord C i), g2_mul C (g2_generator C) (hd F))) [0, 1, 2, 3])"
    using e2e_finalize [OF C(1), of _ rng] by (simp add: F_def)
  have consistent: "list_all (\<lambda>ses. verify_transcript_consistency sha256 C (fold (\<lambda>ses. fmupd (dk_node_id ses)
      (transcript_hash sha256 C ses)) (map (e2e_session C rng) [0, 1, 2, 3]) fmempty) ses = Ok ()) (map (e2e_session C rng) [0, 1, 2, 3])"
    using e2e_transcript [of _ sha256 C rng]
    by (auto simp: verify_transcript_consistency_def hm_any_iff split: if_splits)
  have F: "F \<noteq> []" "length F = 3" by (auto simp: F_def joint_poly_def)
  have verify: "verify_threshold_signature C m (fold (\<lambda>(i, sk). fmupd i (sign_bls_message C m sk))
      (take 3 (zip [0, 1, 2, 3] (map (\<lambda>i. poly_eval F (x_coord C i)) [0, 1, 2, 3 :: u32]))) fmempty)
      (g2_mul C (g2_generator C) (hd F)) 3" for m
    by (rule threshold_complete [OF C F(1)]) (auto simp: F(2) split: if_splits)
  have new: "\<not> isl (new_with_wal_path C (log_file []) 4 (fold (\<lambda>(i, sk). fmupd i (g2_mul C (g2_generator C) sk))
      (zip [0, 1, 2, 3] (map (\<lambda>i. poly_eval F (x_coord C i)) [0, 1, 2, 3])) fmempty) pk)" for pk
    by (rule four_keys_construct) simp_all
  show ?thesis
    unfolding test_dkg_e2e_consensus_integration_def Let_def received option.case finals
    using consistent verify new by simp
qed

lemma cluster_simulation_iff:
  "test_cluster_simulation_basic C random [] \<longleftrightarrow>
     hash_message_to_curve C (ascii ''cluster_state_transition_probe'') \<noteq> 0"
proof -
  have "\<not> isl (new_with_wal_path C (log_file []) 4 (fold (\<lambda>i pks. fmupd i (g2_mul C (g2_generator C) (random (unat i))) pks)
      [0, 1, 2, 3] fmempty) pk)" for pk
    by (rule four_keys_construct) simp_all
  then show ?thesis unfolding test_cluster_simulation_basic_def four_nodes Let_def by blast
qed

text \<open>The victims of the equivocating-dealer test hear the same two dealers, but each counts itself: the
  third entries of their transcripts are those of node 2 and of node 3. The test passes whether or
  not the dealer equivocates.\<close>

lemma victim_received:
  assumes C: "scalar_laws C"
  shows "receive_shares C (incoming_shares C [dkg_new rng0 0 3 4, dkg_new rng1 1 3 4] i) (dkg_new rngi i 3 4) =
    Some ((dkg_new rngi i 3 4)\<lparr>
      dk_received_shares := fmupd 1 (evaluate_share_for C (dkg_new rng1 1 3 4 :: ('s::field, 'g2::ab_group_add) dkg_session) i)
        (fmupd 0 (evaluate_share_for C (dkg_new rng0 0 3 4 :: ('s, 'g2) dkg_session) i) fmempty),
      dk_received_commitments := fmupd 1 (generate_commitments C (dkg_new rng1 1 3 4))
        (fmupd 0 (generate_commitments C (dkg_new rng0 0 3 4)) fmempty)\<rparr>)"
  using receive_shares_honest [OF C, of "[dkg_new rng0 0 3 4, dkg_new rng1 1 3 4]" "dkg_new rngi i 3 4"]
  by simp

definition victim_transcript ::
  "('s::field, 'g1, 'g2::ab_group_add, 'gt) bls \<Rightarrow> (nat \<Rightarrow> 's) \<Rightarrow> (nat \<Rightarrow> 's) \<Rightarrow> u32 \<Rightarrow> (nat \<Rightarrow> 's) \<Rightarrow> bytes" where
  "victim_transcript C rng0 rng1 i rngi = transcript_bytes C (fmupd i (generate_commitments C (dkg_new rngi i 3 4))
     (fmupd 1 (generate_commitments C (dkg_new rng1 1 3 4)) (fmupd 0 (generate_commitments C (dkg_new rng0 0 3 4)) fmempty)))"

lemma equivocation_test_passes_iff:
  assumes C: "scalar_laws C"
  shows "test_dkg_equivocating_dealer_detected sha256 C rng rng_a rng_b \<longleftrightarrow>
    take 32 (sha256 (victim_transcript C rng_a (rng 1) 2 (rng 2))) \<noteq>
    take 32 (sha256 (victim_transcript C rng_b (rng 1) 3 (rng 3)))"
  unfolding test_dkg_equivocating_dealer_detected_def Let_def victim_received [OF C]
  by (auto simp: verify_transcript_consistency_def hm_any_iff transcript_hash_def compute_commitment_transcript_def
      victim_transcript_def generate_commitments_def)

lemma victim_items:
  assumes "i \<in> {2, 3}"
  shows "hm_items (fmupd i z (fmupd 1 y (fmupd 0 x fmempty))) = [(0 :: u32, x), (1, y), (i, z)]"
  using assms by (auto simp: hm_items_def sorted_list_of_fset.rep_eq word_le_nat_alt)

lemma victim_transcripts_differ:
  fixes C :: "('s::field, 'g1, 'g2::ab_group_add, 'gt) bls"
  assumes enc: "\<And>P. length (g2_to_compressed C P) = 96" and i: "i \<noteq> j" "i \<in> {2, 3}" "j \<in> {2, 3}"
  shows "victim_transcript C rng0 rng1 i rngi \<noteq> victim_transcript C rng0' rng1' j rngj"
proof
  assume eq: "victim_transcript C rng0 rng1 i rngi = victim_transcript C rng0' rng1' j rngj"
  define entry where "entry i rng = u32_to_be_bytes i @ concat (map (g2_to_compressed C) (generate_commitments C (dkg_new rng i 3 4)))"
    for i and rng :: "nat \<Rightarrow> 's"
  have len: "length (entry i rng) = 292" for i rng
    by (simp add: entry_def generate_commitments_def enc upt_rec)
  have tr: "victim_transcript C r0 r1 i ri = entry 0 r0 @ entry 1 r1 @ entry i ri" if "i \<in> {2, 3}" for r0 r1 i ri
    by (simp add: victim_transcript_def transcript_bytes_def victim_items [OF that] entry_def)
  have "entry 0 rng0 @ entry 1 rng1 @ entry i rngi = entry 0 rng0' @ entry 1 rng1' @ entry j rngj"
    using eq unfolding tr [OF i(2)] tr [OF i(3)] .
  then have "entry i rngi = entry j rngj" by (simp add: append_eq_append_conv len)
  then show False using i(1) by (simp add: entry_def)
qed

lemma equivocation_test_needs_no_equivocation:
  assumes C: "scalar_laws C" and enc: "\<And>P. length (g2_to_compressed C P) = 96"
    and sha: "\<And>xs ys. take 32 (sha256 xs) = take 32 (sha256 ys) \<Longrightarrow>
      xs \<in> {victim_transcript C rng_a (rng 1) 2 (rng 2), victim_transcript C rng_a (rng 1) 3 (rng 3)} \<Longrightarrow>
      ys \<in> {victim_transcript C rng_a (rng 1) 2 (rng 2), victim_transcript C rng_a (rng 1) 3 (rng 3)} \<Longrightarrow> xs = ys"
  shows "test_dkg_equivocating_dealer_detected sha256 C rng rng_a rng_a"
  unfolding equivocation_test_passes_iff [OF C]
proof
  assume "take 32 (sha256 (victim_transcript C rng_a (rng 1) 2 (rng 2))) =
    take 32 (sha256 (victim_transcript C rng_a (rng 1) 3 (rng 3)))"
  from sha [OF this] have "victim_transcript C rng_a (rng 1) 2 (rng 2) = victim_transcript C rng_a (rng 1) 3 (rng 3)"
    by simp
  then show False using victim_transcripts_differ [of C 2 3 rng_a "rng 1" "rng 2" rng_a "rng 1" "rng 3", OF enc] by simp
qed

end
