(* ===== verification/Test_Guarantees.thy ===== *)
theory Test_Guarantees
  imports Replica_Tests Integration_Tests
begin

text \<open>
  The properties that the tests of the engine give: the eleven unit tests of the replica pass for every
  draw of the keys, and two of its integration tests interfere through the log they share.
\<close>

text \<open>
  C25: Every unit test of the replica passes, whatever polynomial the test draws for its keys. The
  curve satisfies the laws of the library and encodes the generator and the four nodes' signatures; the
  row with the generator as its signature must not happen to be signed by node 0.
\<close>

theorem replica_tests_pass:
  assumes C: "test_curve C random" and enc: "g1_encodable C (g1_generator C)"
    and forged: "sign_bls_message C (canonical_msg 0 0 1 (replicate 32 0x91)) (test_secret C random 0) \<noteq> g1_generator C"
  shows "test_conflicting_preprepare_rejected C random [] \<and>
    test_orphan_prepare_rejected C random [] \<and>
    failed_view_change_certificate_rolls_back_mutated_votes_and_view C random [] \<and>
    wal_recovery_rejects_unauthenticated_vote C random \<and>
    recovery_does_not_combine_checkpoint_votes_across_views C random \<and>
    view_change_accepts_previous_view_prepared_certificate_and_recovers C random \<and>
    recovery_advances_view_only_after_a_quorum_certificate C random \<and>
    test_checkpoint_and_wal_pruning_recovers_stable_checkpoint C random \<and>
    wal_append_failure_rolls_back_protocol_state C random \<and>
    prepared_certificate_selection_is_highest_view_and_order_independent C random \<and>
    conflicting_digest_at_highest_view_change_sequence_is_rejected C random"
  by (intro conjI conflicting_preprepare_rejected orphan_prepare_rejected failed_view_change_rolls_back
      recovery_rejects_unauthenticated_vote checkpoint_votes_not_combined view_change_recovers
      advances_view_only_after_quorum checkpoint_recovers append_failure_rolls_back
      certificate_selection_order_independent conflicting_digest_rejected C enc forged)

text \<open>The hash of a message is at least one, so a signature tells the keys of node 0 apart.\<close>

lemma line_signature:
  "\<exists>h. sign_bls_message short_line m (test_secret short_line (\<lambda>_. 1) 0) = of_nat (3 * Suc h) \<and>
     sign_bls_message short_line m (test_secret short_line (\<lambda>_. 2) 0) = of_nat (6 * Suc h)"
proof -
  have "test_secret short_line (\<lambda>_. 1) 0 = 3" "test_secret short_line (\<lambda>_. 2) 0 = 6"
    by (simp_all add: test_secret_def x_coord_def short_line_def poly_eval_def)
  then show ?thesis
    by (intro exI [of _ "be_value (take 4 m)"])
      (simp add: sign_bls_message_def hash_message_to_curve_def short_line_def)
qed

theorem replica_tests_pass_witness:
  "test_curve short_line (\<lambda>_. 1) \<and> test_orphan_prepare_rejected short_line (\<lambda>_. 1) [] \<and>
   wal_recovery_rejects_unauthenticated_vote short_line (\<lambda>_. 1) \<and>
   test_checkpoint_and_wal_pruning_recovers_stable_checkpoint short_line (\<lambda>_. 1)"
proof -
  have enc: "g1_encodable short_line (g1_generator short_line)"
    using short_line_encodable(1) [of 1] by (simp add: short_line_def)
  obtain h where "sign_bls_message short_line (canonical_msg 0 0 1 (replicate 32 0x91)) (test_secret short_line (\<lambda>_. 1) 0) =
      of_nat (3 * Suc h)"
    using line_signature by blast
  moreover have "rat_of_nat (3 * Suc h) \<noteq> of_nat 1" unfolding of_nat_eq_iff by simp
  ultimately have "sign_bls_message short_line (canonical_msg 0 0 1 (replicate 32 0x91)) (test_secret short_line (\<lambda>_. 1) 0) \<noteq>
      g1_generator short_line"
    by (simp add: short_line_def)
  from replica_tests_pass [OF line_test_curve(1) enc this] line_test_curve(1) show ?thesis by blast
qed

text \<open>
  C26: Replicas of one process share one log. The two integration tests of the fault tolerance of the
  cluster pass alone. On the log that the first leaves behind, whose leader signed with another key,
  the second fails: no replica with its keys starts there, however the file is read, since the
  constructor refuses the first row with \<open>WAL_REPLAY_ERROR\<close>.
\<close>

theorem resilience_tests_conflict:
  assumes "test_curve C random" "test_curve C random'"
    and "sign_bls_message C (canonical_msg 0 0 1 (replicate 32 0x42)) (test_secret C random 0) \<noteq>
      sign_bls_message C (canonical_msg 0 0 1 (replicate 32 0x42)) (test_secret C random' 0)"
  shows "\<exists>log_left_behind. test_byzantine_fault_tolerance_quorum_progress C random [] = Some log_left_behind \<and>
    test_byzantine_leader_recovery_view_change C random' [] \<and>
    \<not> test_byzantine_leader_recovery_view_change C random' (content log_left_behind) \<and>
    (\<forall>io sks pks master_pk. generate_test_keys C random' 4 3 = (sks, pks, master_pk) \<and>
       o_open io \<and> o_reopen io \<and> no_fault (o_reads io) \<and> o_disk io = content log_left_behind \<longrightarrow>
       new_with_wal_path C io 4 pks master_pk = Err WAL_REPLAY_ERROR)"
  by (rule shared_log_blocks_second_test [OF assms])

theorem resilience_tests_conflict_witness:
  "\<exists>log_left_behind sks pks master_pk.
    test_byzantine_fault_tolerance_quorum_progress short_line (\<lambda>_. 1) [] = Some log_left_behind \<and>
    generate_test_keys short_line (\<lambda>_. 2) 4 3 = (sks, pks, master_pk) \<and>
    new_with_wal_path short_line (log_file (content log_left_behind)) 4 pks master_pk = Err WAL_REPLAY_ERROR \<and>
    \<not> test_byzantine_leader_recovery_view_change short_line (\<lambda>_. 2) (content log_left_behind)"
proof -
  let ?m = "canonical_msg 0 0 1 (replicate 32 0x42)"
  obtain h where "sign_bls_message short_line ?m (test_secret short_line (\<lambda>_. 1) 0) = of_nat (3 * Suc h)"
    "sign_bls_message short_line ?m (test_secret short_line (\<lambda>_. 2) 0) = of_nat (6 * Suc h)"
    using line_signature by blast
  moreover have "rat_of_nat (3 * Suc h) \<noteq> of_nat (6 * Suc h)" unfolding of_nat_eq_iff by simp
  ultimately have "sign_bls_message short_line ?m (test_secret short_line (\<lambda>_. 1) 0) \<noteq>
      sign_bls_message short_line ?m (test_secret short_line (\<lambda>_. 2) 0)" by simp
  moreover obtain sks pks master_pk where
    "generate_test_keys short_line (\<lambda>_. 2) 4 3 = (sks, pks, master_pk)" by (metis prod_cases3)
  ultimately show ?thesis
    using resilience_tests_conflict [OF line_test_curve] log_file_io
    by metis
qed
end
