(* ===== verification/Store_Tests.thy ===== *)
theory Store_Tests
  imports Test_Kit Text Epoch
begin

text \<open>
  The unit tests of \<open>wal.rs\<close>, \<open>epoch.rs\<close> and \<open>network.rs\<close>, one definition per test. A test of the log
  opens a file under a fresh name and removes it at the end; paths are not modelled, so that the test of
  a path without a parent directory is here a test of pruning. The lemmas show that each test passes:
  those that write signatures need an encoding of the generator, the one of an invalid point a curve
  that rejects the encoding, the handshake a transport that delivers.
\<close>

section \<open>The write-ahead log\<close>

text \<open>Every row of the tests is signed by the generator.\<close>

definition test_row :: "('s, 'g1, 'g2, 'gt) bls \<Rightarrow> u64 \<Rightarrow> u64 \<Rightarrow> u8 \<Rightarrow> u32 \<Rightarrow> bytes \<Rightarrow> 'g1 wal_row" where
  "test_row C view seq phase sender_id digest =
     \<lparr>row_view = view, row_seq = seq, row_phase = phase, row_sender_id = sender_id,
      row_digest = digest, row_signature = g1_generator C\<rparr>"

definition replay_round_trips_valid_record :: "('s, 'g1, 'g2, 'gt) bls \<Rightarrow> bool" where
  "replay_round_trips_valid_record C =
     (let digest = replicate 32 0x42 in
      append_each C [test_row C 7 9 2 3 digest] (wal_open []) (\<lambda>wal.
        let wal = wal_open (content wal);
            (result, seen) = replay_log C (\<lambda>r seen. seen @
              [(row_view r, row_seq r, row_phase r, row_sender_id r, row_digest r)]) [] (content wal) []
        in result = Ok () \<and> seen = [(7, 9, 2, 3, digest)]))"

definition replay_rejects_torn_trailing_record :: "('s, 'g1, 'g2, 'gt) bls \<Rightarrow> bool" where
  "replay_rejects_torn_trailing_record C =
     (let wal = wal_open (replicate 17 0)
      in fst (replay_log C (\<lambda>_ seen. seen) [] (content wal) ()) = Err UnexpectedEof)"

definition replay_rejects_invalid_compressed_point :: "('s, 'g1, 'g2, 'gt) bls \<Rightarrow> bool" where
  "replay_rejects_invalid_compressed_point C =
     (let bytes = replicate RECORD_LEN 0;
          bytes = take 53 bytes @ replicate 48 0xff @ drop 101 bytes;
          wal = wal_open bytes
      in fst (replay_log C (\<lambda>_ seen. seen) [] (content wal) ()) = Err InvalidData)"

definition prune_supports_relative_path_without_explicit_parent :: "('s, 'g1, 'g2, 'gt) bls \<Rightarrow> bool" where
  "prune_supports_relative_path_without_explicit_parent C =
     append_each C [test_row C 1 1 1 1 (replicate 32 9)] (wal_open []) (\<lambda>wal.
       fst (prune_before prune_io_ok 1 wal) = Ok ())"

definition prune_preserves_records_at_or_after_sequence :: "('s, 'g1, 'g2, 'gt) bls \<Rightarrow> bool" where
  "prune_preserves_records_at_or_after_sequence C =
     append_each C [test_row C 1 1 1 1 (replicate 32 1), test_row C 1 2 1 1 (replicate 32 2),
         test_row C 1 3 1 1 (replicate 32 3)] (wal_open []) (\<lambda>wal.
       case prune_before prune_io_ok 2 wal of
         (Err _, _) \<Rightarrow> False
       | (Ok _, wal) \<Rightarrow>
           (let wal = wal_open (content wal);
                (result, seen) = replay_log C (\<lambda>r seen. seen @ [(row_seq r, row_digest r)]) [] (content wal) []
            in result = Ok () \<and> seen = [(2, replicate 32 2), (3, replicate 32 3)]))"

text \<open>What the test writes replays as the rows written, if their signatures have an encoding.\<close>

lemma test_row_storable:
  "g1_encodable C (g1_generator C) \<Longrightarrow> length digest = 32 \<Longrightarrow> storable C (test_row C v s p i digest)"
  by (simp add: storable_def row_wf_def test_row_def)

lemma replay_written:
  assumes "\<forall>r\<in>set rs. storable C r"
  shows "replay_log C h [] (encode_rows C rs) st = (Ok (), fold h rs st)"
  using replay_log_stored [OF assms, of "[]"] by (simp add: no_fault_def)

lemma log_tests_pass:
  assumes "g1_encodable C (g1_generator C)"
  shows "replay_round_trips_valid_record C" "prune_supports_relative_path_without_explicit_parent C"
    "prune_preserves_records_at_or_after_sequence C"
proof -
  let ?rows = "[test_row C 1 1 1 1 (replicate 32 1), test_row C 1 2 1 1 (replicate 32 2),
    test_row C 1 3 1 1 (replicate 32 3)]"
  let ?kept = "[test_row C 1 2 1 1 (replicate 32 2), test_row C 1 3 1 1 (replicate 32 3)]"
  note writes = append_each_wal append_Nil content_wal_open
  have st: "storable C (test_row C v s p i (replicate 32 b))" for v s p i b
    by (rule test_row_storable [OF assms]) simp
  show "replay_round_trips_valid_record C"
    unfolding replay_round_trips_valid_record_def Let_def writes
    by (simp add: replay_written st del: encode_rows_simps) (simp add: test_row_def)
  show "prune_supports_relative_path_without_explicit_parent C"
    unfolding prune_supports_relative_path_without_explicit_parent_def writes
    by (simp add: prune_written st del: encode_rows_simps)
  have "filter (\<lambda>r. 2 \<le> row_seq r) ?rows = ?kept" by (simp add: test_row_def word_le_nat_alt)
  then have p: "prune_before prune_io_ok 2 (wal_open (encode_rows C ?rows)) = (Ok (), wal_open (encode_rows C ?kept))"
    using prune_written [of ?rows C 2] st by simp
  show "prune_preserves_records_at_or_after_sequence C"
    unfolding prune_preserves_records_at_or_after_sequence_def Let_def writes
    by (simp add: p replay_written st del: encode_rows_simps) (simp add: test_row_def)
qed

lemma torn_record_test_passes: "replay_rejects_torn_trailing_record C"
  by (simp add: replay_rejects_torn_trailing_record_def wal_open_def replay_log.simps RECORD_LEN_def Let_def)

text \<open>No point has the encoding of all ones: the compression flag is set, and so is the flag of
  infinity, which must then be followed by zeros.\<close>

lemma invalid_point_test_passes:
  assumes "g1_from_compressed C (replicate 48 0xff) = None"
  shows "replay_rejects_invalid_compressed_point C"
proof -
  have "length (replicate 53 0 @ replicate 48 0xff :: bytes) = RECORD_LEN" by (simp add: RECORD_LEN_def)
  then have "read_record [] (replicate 53 0 @ replicate 48 0xff) [] = (Ok (Some (replicate 53 0 @ replicate 48 0xff)), [], [])"
    by (simp add: Let_def)
  then show ?thesis
    using assms
    by (simp add: replay_rejects_invalid_compressed_point_def wal_open_def replay_log.simps row_from_bytes_def
        slice_def RECORD_LEN_def Let_def del: read_record.simps)
qed

section \<open>Epochs\<close>

definition test_strict_epoch_rejection :: bool where
  "test_strict_epoch_rejection =
     (let validators = fold (\<lambda>i. fmupd i (replicate 48 0)) [1, 2, 3, 4] fmempty;
          initial_epoch = \<lparr>epoch_id = 1, validators = validators, total_power = 4\<rparr>;
          manager = \<lparr>current_state = initial_epoch\<rparr>;
          malicious_signers = {|1, 2|};
          malicious_transition = \<lparr>current_epoch = 1,
            next_validator_set = \<lparr>epoch_id = 2, validators = fmempty, total_power = 0\<rparr>,
            transition_qc = [], signers = malicious_signers\<rparr>
      in snd (apply_transition manager malicious_transition) = Err MISSING_QUORUM_CERTIFICATE)"

lemma epoch_test_passes: "test_strict_epoch_rejection"
  by (simp add: test_strict_epoch_rejection_def apply_transition_def verify_quorum_def
      quorum_threshold_def word_less_nat_alt sorted_list_of_fset.rep_eq)

section \<open>The transport\<close>

text \<open>A cluster of one with its own key. The listener that the test starts does not answer: the test
  asks only that the frame was written.\<close>

definition test_network_handshake ::
  "('s::field, 'g1::ab_group_add, 'g2, 'gt) bls \<Rightarrow> 's \<Rightarrow> bytes \<Rightarrow> send_io \<Rightarrow> bool" where
  "test_network_handshake C sk disk io =
     (let pk = g2_mul C (g2_generator C) sk;
          public_keys = fmupd 0 pk fmempty
      in expect (new_with_wal_path C (log_file disk) 1 public_keys pk) (\<lambda>state_val.
           is_ok (fst (send_framed_message io 0xff (ascii ''test_ping'')))))"

lemma handshake_test_passes: "test_network_handshake C sk [] send_io_ok"
proof -
  let ?pk = "g2_mul C (g2_generator C) sk"
  obtain cfg where cfg: "make_config 1 (fmupd 0 ?pk fmempty) ?pk = Ok cfg" by (simp add: make_config_def)
  have "new_with_wal_path C (log_file []) 1 (fmupd 0 ?pk fmempty) ?pk =
      Ok \<lparr>st_config = cfg, st_core = empty_core, st_wal = wal_open [], wal_failed = False\<rparr>"
    by (rule new_with_wal_path_empty [OF cfg]) (simp_all add: log_file_def no_fault_def)
  then show ?thesis by (simp add: test_network_handshake_def expect_def Let_def)
qed

end
