(* ===== verification/Evidence_Tests.thy ===== *)
theory Evidence_Tests
  imports Attestation "HOL-Library.Sublist"
begin

text \<open>
  The unit tests of \<open>assurance_attestation.rs\<close>, \<open>repair_attestation.rs\<close> and \<open>signed_package_root.rs\<close>,
  one definition per test. SHA-256 and Ed25519 are parameters, so the lemmas say of each test whether it
  passes for every such function, or exactly what it asks of it: a test that compares with a frozen
  digest asks for that value, one that tampers with a signature asks that the result does not verify.
\<close>

section \<open>Reviewer attestations\<close>

definition test_digest :: "char \<Rightarrow> str" where
  "test_digest byte = sha256_prefix @ concat (replicate 64 (ascii [byte]))"

definition refused :: "(attestation_error, 'a) result option \<Rightarrow> bool" where
  "refused r = (case r of Some (Err _) \<Rightarrow> True | _ \<Rightarrow> False)"

abbreviation confirmed_by_reviewer :: "(bytes \<Rightarrow> bytes) \<Rightarrow> str \<Rightarrow>
    (attestation_error, assurance_attestation) result option" where
  "confirmed_by_reviewer sha256 certificate \<equiv>
     attestation_new sha256 certificate (ascii ''reviewer-1'') Confirmed (test_digest CHR ''b'')"

definition unwrap :: "('e, 'a) result option \<Rightarrow> ('a \<Rightarrow> bool) \<Rightarrow> bool" where
  "unwrap r rest = (case r of Some (Ok x) \<Rightarrow> rest x | _ \<Rightarrow> False)"

definition attestation_is_deterministic :: "(bytes \<Rightarrow> bytes) \<Rightarrow> bool" where
  "attestation_is_deterministic sha256 =
     unwrap (confirmed_by_reviewer sha256 (test_digest CHR ''a'')) (\<lambda>a.
       unwrap (confirmed_by_reviewer sha256 (test_digest CHR ''a'')) (\<lambda>b.
         a = b \<and> verify_binding sha256 a (test_digest CHR ''a'') (test_digest CHR ''b'') = Some (Ok ())))"

definition tampered_binding_is_rejected :: "(bytes \<Rightarrow> bytes) \<Rightarrow> bool" where
  "tampered_binding_is_rejected sha256 =
     unwrap (confirmed_by_reviewer sha256 (test_digest CHR ''a'')) (\<lambda>a.
       refused (verify_binding sha256 a (test_digest CHR ''c'') (test_digest CHR ''b'')) \<and>
       (let a = a\<lparr>attestation_digest := test_digest CHR ''d''\<rparr>
        in refused (verify_binding sha256 a (test_digest CHR ''a'') (test_digest CHR ''b''))))"

definition invalid_certificate_digest_is_rejected :: "(bytes \<Rightarrow> bytes) \<Rightarrow> bool" where
  "invalid_certificate_digest_is_rejected sha256 = refused (confirmed_by_reviewer sha256 (ascii ''bad''))"

text \<open>\<open>from_bytes\<close> is \<open>SigningKey::from_bytes\<close>.\<close>

definition signed_attestation_requires_pinned_signer ::
  "(bytes \<Rightarrow> bytes) \<Rightarrow> 'sk ed25519 \<Rightarrow> (bytes \<Rightarrow> 'sk) \<Rightarrow> bool" where
  "signed_attestation_requires_pinned_signer sha256 E from_bytes =
     (let key = from_bytes (replicate 32 7);
          other = from_bytes (replicate 32 9)
      in unwrap (confirmed_by_reviewer sha256 (test_digest CHR ''a'')) (\<lambda>attestation.
           unwrap (sign_attestation sha256 E attestation key) (\<lambda>signed.
             verify_attestation sha256 E signed (key_id signed) (test_digest CHR ''a'') (test_digest CHR ''b'') =
               Some (Ok ()) \<and>
             (let other_id = signer_key_id sha256 (verifying_key E other)
              in verify_attestation sha256 E signed other_id (test_digest CHR ''a'') (test_digest CHR ''b'') =
                   Some (Err NOT_THE_PINNED_KEY)))))"

definition signed_attestation_rejects_signature_or_binding_tamper ::
  "(bytes \<Rightarrow> bytes) \<Rightarrow> 'sk ed25519 \<Rightarrow> (bytes \<Rightarrow> 'sk) \<Rightarrow> bool" where
  "signed_attestation_rejects_signature_or_binding_tamper sha256 E from_bytes =
     (let key = from_bytes (replicate 32 11)
      in unwrap (confirmed_by_reviewer sha256 (test_digest CHR ''a'')) (\<lambda>attestation.
           unwrap (sign_attestation sha256 E attestation key) (\<lambda>signed.
             let signed = signed\<lparr>signature_hex := ascii ''00'' @ drop 2 (signature_hex signed)\<rparr>
             in refused (verify_attestation sha256 E signed (key_id signed)
                  (test_digest CHR ''a'') (test_digest CHR ''b'')))))"

text \<open>A test vector of SHA-256 that the repository shares with others.\<close>

definition FIXTURE :: bytes where
  "FIXTURE = ascii ''causal-assurance-fixture/v1'' @ [10] @ ascii ''run=fixture-001'' @ [10] @
     ascii ''subject=finite-state-model:dual-refinement-fixture'' @ [10] @
     ascii ''witness=valid-down,valid-finish'' @ [10] @ ascii ''cost=2,1'' @ [10]"

definition DIGEST :: str where
  "DIGEST = ascii ''sha256:4f4fd3c2715b193a78d79ac0be11c893aa7bfdc6f9a52ca7de1240d64f2a1703''"

definition canonical_cross_repo_fixture_matches_frozen_digest :: "(bytes \<Rightarrow> bytes) \<Rightarrow> bool" where
  "canonical_cross_repo_fixture_matches_frozen_digest sha256 =
     (let actual = fingerprint sha256 FIXTURE in actual = DIGEST)"

section \<open>Repair attestations\<close>

definition test_repair_input :: repair_input where
  "test_repair_input =
     \<lparr>propagation_envelope_digest = sha256_prefix @ concat (replicate 64 (ascii ''a'')),
      sentinel_observation_digest = sha256_prefix @ concat (replicate 64 (ascii ''b'')),
      problem = ascii ''casper-duplicate-minimum-sender-coverage-repair'',
      native_replay_verified = True\<rparr>"

definition attests_only_a_well_formed_native_verified_root :: "(bytes \<Rightarrow> bytes) \<Rightarrow> bool" where
  "attests_only_a_well_formed_native_verified_root sha256 =
     (let a = attest_repair_root sha256 test_repair_input
      in eligible a \<and> prefix sha256_prefix (attested_root a) \<and>
         sublist (ascii ''does not independently prove'') (claim_boundary a))"

definition fails_closed_without_native_replay :: "(bytes \<Rightarrow> bytes) \<Rightarrow> bool" where
  "fails_closed_without_native_replay sha256 =
     (let i = test_repair_input\<lparr>native_replay_verified := False\<rparr>;
          a = attest_repair_root sha256 i
      in \<not> eligible a \<and> attested_root a = ascii ''UNATTESTED'')"

definition fails_closed_on_malformed_upstream_digest :: "(bytes \<Rightarrow> bytes) \<Rightarrow> bool" where
  "fails_closed_on_malformed_upstream_digest sha256 =
     (let i = test_repair_input\<lparr>sentinel_observation_digest := ascii ''sha256:bad''\<rparr>
      in \<not> eligible (attest_repair_root sha256 i))"

definition root_is_deterministic_and_domain_separated :: "(bytes \<Rightarrow> bytes) \<Rightarrow> bool" where
  "root_is_deterministic_and_domain_separated sha256 \<longleftrightarrow>
     attest_repair_root sha256 test_repair_input = attest_repair_root sha256 test_repair_input"

section \<open>Package roots\<close>

definition FIXTURE_W :: str where
  "FIXTURE_W = ascii ''sha256:ba1c566a4bad288c22a0b7511458c92ca5822cd41632e51806e9ea75ed12d13d''"
definition FIXTURE_E :: str where
  "FIXTURE_E = ascii ''sha256:ee8250fb76e094b34b471f13a73dbbe51d1ae142e9df59d7c0d31ec20f0a0a8e''"
definition FIXTURE_X :: str where
  "FIXTURE_X = ascii ''sha256:d85b40105dd0b9cdbe46a1ee1b96abdf1474ae96fb86bd28ca701f44f017ac3b''"
definition FIXTURE_A :: str where
  "FIXTURE_A = ascii ''sha256:813a89a296973e35545cfa74fe3efd172a7d19443c97c625d699e9737229b0a2''"

definition fixture :: "root_artifact list" where
  "fixture =
     [\<lparr>role = ascii ''WITNESS'', contents = ascii ''witness'', declared = FIXTURE_W, binds_to = []\<rparr>,
      \<lparr>role = ascii ''EVIDENCE'', contents = ascii ''evidence'', declared = FIXTURE_E, binds_to = [FIXTURE_W]\<rparr>,
      \<lparr>role = ascii ''WORKBENCH'', contents = ascii ''workbench'', declared = FIXTURE_X, binds_to = [FIXTURE_W, FIXTURE_E]\<rparr>,
      \<lparr>role = ascii ''ATTESTATION'', contents = ascii ''attestation'', declared = FIXTURE_A, binds_to = [FIXTURE_W, FIXTURE_E, FIXTURE_X]\<rparr>]"

definition matches_frozen_cross_language_root :: "(bytes \<Rightarrow> bytes) \<Rightarrow> bool" where
  "matches_frozen_cross_language_root sha256 \<longleftrightarrow>
     canonical_package_root sha256 (ascii ''root-fixture'') (ascii ''generic-system'') fixture =
       Ok (ascii ''sha256:d3dda1ea8d69ef493b83b3b373f6d49c53324a19df127788687db92a31310ace'')"

definition base_package_without_attestation_is_valid :: "(bytes \<Rightarrow> bytes) \<Rightarrow> bool" where
  "base_package_without_attestation_is_valid sha256 =
     (let artifacts = fixture
      in case canonical_package_root sha256 (ascii ''root-fixture'') (ascii ''generic-system'') (take 3 artifacts) of
           Err _ \<Rightarrow> False
         | Ok package \<Rightarrow> prefix sha256_prefix package \<and> length package = 71)"

definition raw_byte_mutation_fails_closed :: "(bytes \<Rightarrow> bytes) \<Rightarrow> bool" where
  "raw_byte_mutation_fails_closed sha256 =
     (let artifacts = fixture;
          artifacts = artifacts[1 := (artifacts ! 1)\<lparr>contents := ascii ''evidence!''\<rparr>]
      in canonical_package_root sha256 (ascii ''root-fixture'') (ascii ''generic-system'') artifacts =
           Err ARTIFACT_DIGEST_MISMATCH)"

definition role_reordering_fails_closed :: "(bytes \<Rightarrow> bytes) \<Rightarrow> bool" where
  "role_reordering_fails_closed sha256 =
     (let artifacts = fixture;
          artifacts = artifacts[0 := artifacts ! 1, 1 := artifacts ! 0]
      in canonical_package_root sha256 (ascii ''root-fixture'') (ascii ''generic-system'') artifacts =
           Err INVALID_ARTIFACT)"

definition length_prefix_distinguishes_embedded_nul_fields :: "(bytes \<Rightarrow> bytes) \<Rightarrow> bool" where
  "length_prefix_distinguishes_embedded_nul_fields sha256 =
     (case (canonical_package_root sha256 (ascii ''a'' @ [0] @ ascii ''b'') (ascii ''c'') fixture,
            canonical_package_root sha256 (ascii ''a'') (ascii ''b'' @ [0] @ ascii ''c'') fixture) of
        (Ok left, Ok right) \<Rightarrow> left \<noteq> right
      | _ \<Rightarrow> False)"

section \<open>What the tests show\<close>

lemma test_digest_valid: "b \<in> set ''abcd'' \<Longrightarrow> valid_sha256 (test_digest b)"
  by (auto simp: valid_sha256_def test_digest_def sha256_prefix_def ascii_def is_ascii_hexdigit_def
      list_all_iff word_le_nat_alt)

lemma test_digest_inject: "test_digest a = test_digest b \<longleftrightarrow> ascii [a] = ascii [b]"
  by (auto simp: test_digest_def ascii_def numeral_eq_Suc)

text \<open>The attestation of the tests, and the envelope signed with a key.\<close>

definition test_attestation :: "(bytes \<Rightarrow> bytes) \<Rightarrow> assurance_attestation" where
  "test_attestation sha256 =
     \<lparr>schema = ATTESTATION_SCHEMA, certificate_digest = test_digest CHR ''a'', reviewer_id = ascii ''reviewer-1'',
      decision = Confirmed, scope_digest = test_digest CHR ''b'',
      attestation_digest = fingerprint sha256 (prefixed [ATTESTATION_SCHEMA, test_digest CHR ''a'',
        ascii ''reviewer-1'', decision_str Confirmed, test_digest CHR ''b''])\<rparr>"

lemma reviewed:
  "confirmed_by_reviewer sha256 (test_digest CHR ''a'') = Some (Ok (test_attestation sha256))"
  unfolding attestation_new_iff test_attestation_def
  using test_digest_valid by (simp add: ascii_def word_le_nat_alt)

lemmas test_binding = new_binding [OF reviewed]

lemma attestation_is_deterministic_passes: "attestation_is_deterministic sha256"
  by (simp add: attestation_is_deterministic_def unwrap_def reviewed test_binding)

lemma invalid_certificate_digest_passes: "invalid_certificate_digest_is_rejected sha256"
proof -
  have "\<not> valid_sha256 (ascii ''bad'')" by (simp add: valid_sha256_def ascii_def)
  moreover have "\<not> blank (ascii ''reviewer-1'')" by (simp add: ascii_def word_le_nat_alt)
  ultimately show ?thesis
    by (simp add: invalid_certificate_digest_is_rejected_def refused_def attestation_new_def)
qed

lemma tampered_binding_test_iff:
  "tampered_binding_is_rejected sha256 \<longleftrightarrow> attestation_digest (test_attestation sha256) \<noteq> test_digest CHR ''d''"
proof -
  let ?a = "test_attestation sha256"
  have f: "certificate_digest ?a = test_digest CHR ''a''" "scope_digest ?a = test_digest CHR ''b''"
    by (simp_all add: test_attestation_def)
  obtain m where m: "attestation_material (certificate_digest ?a) (reviewer_id ?a) (decision ?a) (scope_digest ?a) = Some m"
      "fingerprint sha256 m = attestation_digest ?a"
    using test_binding [of sha256] f by (auto simp: verify_binding_def split: option.splits if_splits)
  have "test_digest CHR ''c'' \<noteq> test_digest CHR ''a''" by (simp add: test_digest_inject ascii_def)
  then show ?thesis
    using m f by (simp add: tampered_binding_is_rejected_def unwrap_def reviewed refused_def verify_binding_def Let_def)
qed

lemma test_signed:
  "sha256_width sha256 \<Longrightarrow>
    sign_attestation sha256 E (test_attestation sha256) key = Some (Ok (signed_envelope sha256 E (test_attestation sha256) key))"
  by (rule sign_new [OF _ reviewed])

lemma key_id_envelope [simp]: "key_id (signed_envelope sha256 E a key) = fingerprint sha256 (verifying_key E key)"
  by (simp add: signed_envelope_def Let_def)

lemma pinned_signer_test_iff:
  assumes sha: "sha256_width sha256" and E: "ed25519_laws E"
  shows "signed_attestation_requires_pinned_signer sha256 E from_bytes \<longleftrightarrow>
    sha256 (verifying_key E (from_bytes (replicate 32 9))) \<noteq> sha256 (verifying_key E (from_bytes (replicate 32 7)))"
proof -
  let ?id = "\<lambda>b. fingerprint sha256 (verifying_key E (from_bytes (replicate 32 b)))"
  let ?signed = "signed_envelope sha256 E (test_attestation sha256) (from_bytes (replicate 32 7))"
  let ?verify = "\<lambda>kid. verify_attestation sha256 E ?signed kid (test_digest CHR ''a'') (test_digest CHR ''b'')"
  have ok: "?verify (?id 7) = Some (Ok ())" by (rule verify_envelope(1) [OF sha E reviewed])
  have "?verify (?id 9) = Some (Err NOT_THE_PINNED_KEY) \<longleftrightarrow> ?id 9 \<noteq> ?id 7"
    using ok verify_envelope(2) [OF sha E reviewed, of "?id 9" "from_bytes (replicate 32 7)"]
      valid_fingerprint [OF sha] by auto
  then show ?thesis
    using ok by (simp add: signed_attestation_requires_pinned_signer_def unwrap_def reviewed test_signed [OF sha]
        signer_key_id_def fingerprint_eq Let_def)
qed

text \<open>The first byte of the signature becomes zero. The test passes unless the result verifies, as it
  would if the byte was zero before.\<close>

lemma tampered_signature_test_iff:
  fixes from_bytes :: "bytes \<Rightarrow> 'sk"
  assumes sha: "sha256_width sha256" and E: "ed25519_laws E"
  defines "key \<equiv> from_bytes (replicate 32 11)"
  defines "material \<equiv> prefixed [SIGNATURE_SCHEMA, attestation_digest (test_attestation sha256),
    fingerprint sha256 (verifying_key E key)]"
  shows "signed_attestation_rejects_signature_or_binding_tamper sha256 E from_bytes \<longleftrightarrow>
    \<not> ed_verify E (verifying_key E key) material (0 # drop 1 (ed_sign E key material))"
proof -
  let ?sg = "ed_sign E key material"
  let ?signed = "(signed_envelope sha256 E (test_attestation sha256) key)"
  let ?tampered = "?signed\<lparr>signature_hex := ascii ''00'' @ drop 2 (signature_hex ?signed)\<rparr>"
  have len: "length ?sg = 64" using E by (simp add: ed25519_laws_def)
  then obtain b bs where b: "?sg = b # bs" by (cases ?sg) auto
  have sg: "signature_hex ?signed = hex_encode ?sg"
    by (simp add: signed_envelope_def Let_def material_def)
  have "ascii ''00'' = hex_encode [0]" by (simp add: ascii_def hex_encode_def hex_digit_def)
  then have hex: "ascii ''00'' @ drop 2 (hex_encode ?sg) = hex_encode (0 # bs)"
    by (simp add: b hex_encode_def)
  have t: "?tampered = ?signed\<lparr>signature_hex := hex_encode (0 # bs)\<rparr>" unfolding sg hex ..
  have d64: "hex_decode 64 (hex_encode (0 # bs)) = Some (0 # bs)" using len b hex_decode_encode [of "0 # bs"] by simp
  have k: "hex_decode 32 (hex_encode (verifying_key E key)) = Some (verifying_key E key)"
    using E by (metis ed25519_laws_def hex_decode_encode)
  have kb: "key_from_bytes E (verifying_key E key)" using E by (simp add: ed25519_laws_def)
  note facts = test_binding [of sha256] new_signature_material [OF sha reviewed] k d64 kb valid_fingerprint [OF sha]
  have "verify_attestation sha256 E ?tampered (key_id ?signed) (test_digest CHR ''a'') (test_digest CHR ''b'') =
    (if ed_verify E (verifying_key E key) material (0 # bs) then Some (Ok ()) else Some (Err SIGNATURE_VERIFICATION_FAILED))"
    unfolding t using facts
    by (simp add: verify_attestation_def signed_envelope_def signer_key_id_def Let_def material_def)
  then show ?thesis
    by (simp add: signed_attestation_rejects_signature_or_binding_tamper_def unwrap_def reviewed
        test_signed [OF sha] refused_def Let_def key_def [symmetric] b)
qed

lemma cross_repo_fixture_test_iff:
  "canonical_cross_repo_fixture_matches_frozen_digest sha256 \<longleftrightarrow> sha256 FIXTURE =
     [0x4f, 0x4f, 0xd3, 0xc2, 0x71, 0x5b, 0x19, 0x3a, 0x78, 0xd7, 0x9a, 0xc0, 0xbe, 0x11, 0xc8, 0x93,
      0xaa, 0x7b, 0xfd, 0xc6, 0xf9, 0xa5, 0x2c, 0xa7, 0xde, 0x12, 0x40, 0xd6, 0x4f, 0x2a, 0x17, 0x03]"
  (is "_ \<longleftrightarrow> _ = ?bs")
proof -
  have digest: "DIGEST = fingerprint (\<lambda>_. ?bs) FIXTURE"
    by (simp add: DIGEST_def fingerprint_def sha256_prefix_def ascii_def hex_encode_def hex_digit_def)
  show ?thesis
    unfolding canonical_cross_repo_fixture_matches_frozen_digest_def Let_def digest
    by (simp only: fingerprint_def append_same_eq same_append_eq hex_encode_inject)
qed

lemma test_repair_eligible: "repair_eligible test_repair_input"
  by (simp add: repair_eligible_def test_repair_input_def valid_sha256_lower_def sha256_prefix_def ascii_def
      is_ascii_hexdigit_def is_ascii_uppercase_def word_le_nat_alt list_all_iff)

lemma boundary_disclaims: "sublist (ascii ''does not independently prove'') CLAIM_BOUNDARY"
  unfolding sublist_def
  by (rule exI [of _ "take 62 CLAIM_BOUNDARY"], rule exI [of _ "drop 90 CLAIM_BOUNDARY"])
    (simp add: CLAIM_BOUNDARY_def ascii_def)

lemma repair_tests_pass:
  "attests_only_a_well_formed_native_verified_root sha256" "fails_closed_without_native_replay sha256"
  "fails_closed_on_malformed_upstream_digest sha256" "root_is_deterministic_and_domain_separated sha256"
proof -
  show "attests_only_a_well_formed_native_verified_root sha256"
    using test_repair_eligible boundary_disclaims
    by (simp add: attests_only_a_well_formed_native_verified_root_def attest_repair_root_def fingerprint_def)
  have "\<not> repair_eligible (test_repair_input\<lparr>native_replay_verified := False\<rparr>)"
    by (simp add: repair_eligible_def)
  then show "fails_closed_without_native_replay sha256"
    by (simp add: fails_closed_without_native_replay_def attest_repair_root_def)
  have "\<not> repair_eligible (test_repair_input\<lparr>sentinel_observation_digest := ascii ''sha256:bad''\<rparr>)"
    by (simp add: repair_eligible_def valid_sha256_lower_def ascii_def)
  then show "fails_closed_on_malformed_upstream_digest sha256"
    by (simp add: fails_closed_on_malformed_upstream_digest_def attest_repair_root_def)
qed (simp add: root_is_deterministic_and_domain_separated_def)

text \<open>The digests that the fixture declares are those of its contents. Under SHA-256 they are; here
  it is a hypothesis on the parameter.\<close>

definition fixture_digests :: "(bytes \<Rightarrow> bytes) \<Rightarrow> bool" where
  "fixture_digests sha256 \<longleftrightarrow> fingerprint sha256 (ascii ''witness'') = FIXTURE_W \<and>
     fingerprint sha256 (ascii ''evidence'') = FIXTURE_E \<and> fingerprint sha256 (ascii ''workbench'') = FIXTURE_X \<and>
     fingerprint sha256 (ascii ''attestation'') = FIXTURE_A"

lemma fixture_artifacts_ok:
  assumes "fixture_digests sha256"
  shows "artifacts_ok sha256 0 [] fixture" "artifacts_ok sha256 0 [] (take 3 fixture)"
  using assms by (simp_all add: fixture_digests_def fixture_def ROLES_def)

lemma fixture_root:
  assumes "sha256_width sha256" "fixture_digests sha256"
    and "\<not> blank run_id" "\<not> blank subject" "length run_id < 2 ^ 32" "length subject < 2 ^ 32"
  shows "canonical_package_root sha256 run_id subject fixture =
      Ok (fingerprint sha256 (prefixed (package_fields run_id subject fixture)))"
    "canonical_package_root sha256 run_id subject (take 3 fixture) =
      Ok (fingerprint sha256 (prefixed (package_fields run_id subject (take 3 fixture))))"
  unfolding package_root_iff [OF assms(1)]
  using assms(3-) fixture_artifacts_ok [OF assms(2)] by (simp_all add: fixture_def)

lemma fixture_names:
  "\<not> blank (ascii ''root-fixture'')" "\<not> blank (ascii ''generic-system'')"
  "length (ascii ''root-fixture'') < 2 ^ 32" "length (ascii ''generic-system'') < 2 ^ 32"
  by (simp_all add: ascii_def word_le_nat_alt)

lemma frozen_root_test_iff:
  assumes "sha256_width sha256" "fixture_digests sha256"
  shows "matches_frozen_cross_language_root sha256 \<longleftrightarrow>
    fingerprint sha256 (prefixed (package_fields (ascii ''root-fixture'') (ascii ''generic-system'') fixture)) =
      ascii ''sha256:d3dda1ea8d69ef493b83b3b373f6d49c53324a19df127788687db92a31310ace''"
  using fixture_root(1) [OF assms fixture_names] by (simp add: matches_frozen_cross_language_root_def)

lemma base_package_test_passes:
  assumes "sha256_width sha256" "fixture_digests sha256"
  shows "base_package_without_attestation_is_valid sha256"
  using fixture_root(2) [OF assms fixture_names] length_fingerprint [OF assms(1)]
  by (simp add: base_package_without_attestation_is_valid_def) (simp add: fingerprint_def)

lemma embedded_nul_test_passes:
  assumes "sha256_width sha256" "fixture_digests sha256"
    and "inj_on sha256 {prefixed (package_fields (ascii ''a'' @ [0] @ ascii ''b'') (ascii ''c'') fixture),
      prefixed (package_fields (ascii ''a'') (ascii ''b'' @ [0] @ ascii ''c'') fixture)}"
  shows "length_prefix_distinguishes_embedded_nul_fields sha256"
proof -
  let ?l = "package_fields (ascii ''a'' @ [0] @ ascii ''b'') (ascii ''c'') fixture"
  let ?r = "package_fields (ascii ''a'') (ascii ''b'' @ [0] @ ascii ''c'') fixture"
  have names: "\<not> blank (ascii ''a'' @ [0] @ ascii ''b'')" "\<not> blank (ascii ''c'')" "\<not> blank (ascii ''a'')"
    "\<not> blank (ascii ''b'' @ [0] @ ascii ''c'')" by (simp_all add: ascii_def word_le_nat_alt)
  have len: "length (ascii ''a'' @ [0] @ ascii ''b'') < 2 ^ 32" "length (ascii ''c'') < 2 ^ 32"
    "length (ascii ''a'') < 2 ^ 32" "length (ascii ''b'' @ [0] @ ascii ''c'') < 2 ^ 32" by (simp_all add: ascii_def)
  have s: "short ?l" "short ?r"
    using package_fields_short [OF assms(1) fixture_artifacts_ok(1) [OF assms(2)] _ len(1,2)]
      package_fields_short [OF assms(1) fixture_artifacts_ok(1) [OF assms(2)] _ len(3,4)]
    by (simp_all add: fixture_def)
  have "?l \<noteq> ?r" by (simp add: package_fields_def ascii_def)
  then have "prefixed ?l \<noteq> prefixed ?r" using s prefixed_inject by blast
  then have "sha256 (prefixed ?l) \<noteq> sha256 (prefixed ?r)" using inj_onD [OF assms(3)] by blast
  then show ?thesis
    using fixture_root(1) [OF assms(1,2) names(1,2) len(1,2)] fixture_root(1) [OF assms(1,2) names(3,4) len(3,4)]
    by (simp add: length_prefix_distinguishes_embedded_nul_fields_def fingerprint_eq)
qed

lemma push_fields_short: "short fs \<Longrightarrow> push_fields out fs = Some (out @ prefixed fs)"
  by (simp add: push_fields_iff)

lemma package_loop_error:
  assumes "\<not> blank run_id" "\<not> blank subject" "length run_id < 2 ^ 32" "length subject < 2 ^ 32"
    and "length as = 3 \<or> length as = 4" "\<And>m. artifact_loop sha256 0 m [] as = Err e"
  shows "canonical_package_root sha256 run_id subject as = Err e"
proof -
  have "short [SIGNED_PACKAGE_ROOT_SCHEMA, PORTABLE_PACKAGE_SCHEMA, run_id, subject]"
    using assms(3,4) by (simp add: SIGNED_PACKAGE_ROOT_SCHEMA_def PORTABLE_PACKAGE_SCHEMA_def ascii_def)
  then show ?thesis
    using assms by (auto simp: canonical_package_root_def push_fields_short simp del: push_fields.simps artifact_loop.simps)
qed

lemma role_reordering_test_passes: "role_reordering_fails_closed sha256"
proof -
  have "ascii ''EVIDENCE'' \<noteq> ROLES ! 0" by (simp add: ROLES_def ascii_def)
  then have "artifact_loop sha256 0 m [] (fixture[0 := fixture ! 1, 1 := fixture ! 0]) = Err INVALID_ARTIFACT" for m
    by (simp add: fixture_def)
  then show ?thesis
    unfolding role_reordering_fails_closed_def Let_def
    by (intro package_loop_error fixture_names) (simp_all add: fixture_def)
qed

lemma raw_byte_mutation_test_passes:
  assumes "sha256_width sha256" "fixture_digests sha256" "fingerprint sha256 (ascii ''evidence!'') \<noteq> FIXTURE_E"
  shows "raw_byte_mutation_fails_closed sha256"
proof -
  have v: "valid_sha256 FIXTURE_W" "valid_sha256 FIXTURE_E"
    using assms(2) valid_fingerprint [OF assms(1)] by (auto simp: fixture_digests_def) metis+
  have s: "short [dec_string 0, ascii ''WITNESS'', FIXTURE_W, dec_string 0]"
    using v(1) by (simp add: valid_sha256_def length_dec_string ascii_def)
  have "artifact_loop sha256 0 m [] (fixture[1 := (fixture ! 1)\<lparr>contents := ascii ''evidence!''\<rparr>]) =
      Err ARTIFACT_DIGEST_MISMATCH" for m
    using assms(2,3) v push_fields_short [OF s, of m]
    by (simp add: fixture_def ROLES_def fixture_digests_def Let_def)
  then show ?thesis
    unfolding raw_byte_mutation_fails_closed_def Let_def
    by (intro package_loop_error fixture_names) (simp_all add: fixture_def)
qed

end
