(* ===== verification/Harness.thy ===== *)
theory Harness
  imports Launch
begin

text \<open>
  The programs beside the node: \<open>async_runtime.rs\<close>, the loop of a participant that waits for
  events or for its timeout, and \<open>bin/injector.rs\<close>, which sends one proposal over a socket. The
  clock, the channel and the socket are sequences: each wake-up of the loop comes with the time
  and says which branch of the select ran; the injector takes the outcome of each of its calls. The
  lemmas show when the loop ends and when it recovers, and that whatever the injector writes, no
  node reads it as a consensus message.
\<close>

section \<open>The participant loop\<close>

datatype protocol_event =
    Event_Message u32 bytes
  | Event_Complaint u32 bytes
  | Event_Timeout
  | Event_Shutdown

record participant_state =
  participant_id :: u32
  last_progress :: nat
  timeout :: nat

definition participant_new :: "u32 \<Rightarrow> nat \<Rightarrow> nat \<Rightarrow> participant_state" where
  "participant_new i t now = \<lparr>participant_id = i, last_progress = now, timeout = t\<rparr>"

definition on_message :: "nat \<Rightarrow> u32 \<Rightarrow> bytes \<Rightarrow> participant_state \<Rightarrow> participant_state" where
  "on_message now from payload s = s\<lparr>last_progress := now\<rparr>"

text \<open>A wake-up: an event of the channel, or the end of the sleep.\<close>

datatype wake = Received protocol_event | Slept

text \<open>The final state, the times at which the participant recovered, and whether it has ended.\<close>

fun participant_loop :: "(nat \<times> wake) list \<Rightarrow> participant_state \<Rightarrow> participant_state \<times> nat list \<times> bool" where
  "participant_loop [] s = (s, [], False)"
| "participant_loop ((now, Received (Event_Message from payload)) # ws) s =
     participant_loop ws (on_message now from payload s)"
| "participant_loop ((now, Received (Event_Complaint against data)) # ws) s =
     participant_loop ws (s\<lparr>last_progress := now\<rparr>)"
| "participant_loop ((now, Received Event_Timeout) # ws) s =
     (let (s', recoveries, ended) = participant_loop ws s in (s', now # recoveries, ended))"
| "participant_loop ((now, Received Event_Shutdown) # ws) s = (s, [], True)"
| "participant_loop ((now, Slept) # ws) s =
     (if timeout s \<le> now - last_progress s
      then let (s', recoveries, ended) = participant_loop ws s in (s', now # recoveries, ended)
      else participant_loop ws s)"

lemma participant_ends_iff:
  "snd (snd (participant_loop ws s)) \<longleftrightarrow> (\<exists>now. (now, Received Event_Shutdown) \<in> set ws)"
  by (induction ws s rule: participant_loop.induct) (auto split: prod.splits)

lemma participant_keeps_timeout:
  "timeout (fst (participant_loop ws s)) = timeout s \<and>
    participant_id (fst (participant_loop ws s)) = participant_id s"
  by (induction ws s rule: participant_loop.induct) (auto simp: on_message_def split: prod.splits)

text \<open>Once the channel is closed only sleeps are left, and the loop never ends.\<close>

lemma participant_never_ends_closed:
  assumes "\<And>e. e \<in> set ws \<Longrightarrow> snd e = Slept"
  shows "\<not> snd (snd (participant_loop ws s))"
  using assms by (fastforce simp: participant_ends_iff)

lemma participant_recovers:
  "now \<in> set (fst (snd (participant_loop ws s))) \<Longrightarrow>
    (now, Received Event_Timeout) \<in> set ws \<or> (now, Slept) \<in> set ws"
  by (induction ws s rule: participant_loop.induct) (auto split: prod.splits if_splits)

section \<open>The injector\<close>

definition injected_proposal :: "('s, 'g1, 'g2, 'gt) bls \<Rightarrow> 's \<Rightarrow> 'g1 pbft_message" where
  "injected_proposal C leader_sk =
     (let view = 0; seq = 1; digest = replicate 32 0x5A in
      \<lparr>pm_phase = PrePrepare, pm_view = view, pm_seq = seq, pm_digest = digest, pm_sender_id = 0,
       pm_signature = sign_bls_message C (canonical_msg (phase_u8 PrePrepare) view seq digest) leader_sk\<rparr>)"

text \<open>The bytes written: the length and the payload, without a packet type.\<close>

definition injector_stream :: "('s, 'g1, 'g2, 'gt) bls \<Rightarrow> 's \<Rightarrow> bytes" where
  "injector_stream C leader_sk =
     (let payload = pm_to_bytes C (injected_proposal C leader_sk)
      in u32_to_be_bytes (word_of_nat (length payload)) @ payload)"

lemma injector_frame:
  assumes C: "g1_codec_laws C"
  shows "injector_stream C sk = frame (phase_u8 PrePrepare) (tl (pm_to_bytes C (injected_proposal C sk)))"
    and "length (tl (pm_to_bytes C (injected_proposal C sk))) = 100"
proof -
  have wf: "pm_wf (injected_proposal C sk)" by (simp add: pm_wf_def injected_proposal_def Let_def)
  let ?p = "pm_to_bytes C (injected_proposal C sk)"
  have len: "length ?p = 101" by (rule pm.enc_length [OF C wf])
  then show "length (tl ?p) = 100" by simp
  have hd: "?p = phase_u8 PrePrepare # tl ?p"
    by (simp add: pm_to_bytes_def canonical_msg_def injected_proposal_def Let_def)
  show "injector_stream C sk = frame (phase_u8 PrePrepare) (tl ?p)"
    using len hd by (simp add: injector_stream_def frame_def Let_def)
qed

lemma injector_parsed:
  assumes C: "g1_codec_laws C"
  shows "parse_frame (injector_stream C sk) =
    Ok (phase_u8 PrePrepare, tl (pm_to_bytes C (injected_proposal C sk)))"
proof -
  let ?p = "tl (pm_to_bytes C (injected_proposal C sk))"
  have "parse_frame (frame (phase_u8 PrePrepare) ?p @ []) = Ok (phase_u8 PrePrepare, ?p)"
  proof (rule parse_frame_frame)
    have "0 < length ?p" "length ?p < 8192" unfolding injector_frame(2) [OF C] by simp_all
    then show "?p \<noteq> []" "length ?p < 8192" by (simp_all only: length_greater_0_conv not_False_eq_True)
  qed
  then show ?thesis by (simp add: injector_frame(1) [OF C])
qed

lemma injector_rejected:
  assumes C: "g1_codec_laws C"
  shows "handle_connection C io self_id (injector_stream C sk) ep = (Err UNKNOWN_PACKET_TYPE, ep)"
  by (simp add: handle_connection_def injector_parsed [OF C] PACKET_TYPE_DKG_def PACKET_TYPE_PBFT_def
      PACKET_TYPE_VC_def)

text \<open>\<open>main\<close> of the injector, with the outcomes of its calls; the address it connects to and what it
  writes there.\<close>

datatype injector_error = TARGET_ADDR_INVALID | TARGET_UNREACHABLE | LENGTH_NOT_WRITTEN
  | PAYLOAD_NOT_WRITTEN | NOT_FLUSHED

definition injector_main ::
  "('s, 'g1, 'g2, 'gt) bls \<Rightarrow> (str \<Rightarrow> 'addr option) \<Rightarrow> environment \<Rightarrow> send_io \<Rightarrow> 's \<Rightarrow>
    (injector_error, unit) result \<times> ('addr \<times> bytes) option" where
  "injector_main C parse_addr e io leader_sk =
     (case parse_addr (env_or e (ascii ''TARGET_ADDR'') (ascii ''127.0.0.1:8000'')) of
        None \<Rightarrow> (Err TARGET_ADDR_INVALID, None)
      | Some target_addr \<Rightarrow>
          if \<not> s_connect io then (Err TARGET_UNREACHABLE, None)
          else
            let payload = pm_to_bytes C (injected_proposal C leader_sk);
                len_bytes = u32_to_be_bytes (word_of_nat (length payload))
            in case s_len io of
                 Some n \<Rightarrow> (Err LENGTH_NOT_WRITTEN, Some (target_addr, take n len_bytes))
               | None \<Rightarrow>
                   (case s_payload io of
                      Some n \<Rightarrow> (Err PAYLOAD_NOT_WRITTEN, Some (target_addr, len_bytes @ take n payload))
                    | None \<Rightarrow> (if s_flush io then Ok () else Err NOT_FLUSHED,
                               Some (target_addr, injector_stream C leader_sk))))"

lemma injector_writes_prefix:
  assumes "injector_main C parse_addr e io sk = (res, Some (addr, bs))"
  shows "\<exists>n. bs = take n (injector_stream C sk)"
proof -
  let ?p = "pm_to_bytes C (injected_proposal C sk)"
  let ?l = "u32_to_be_bytes (word_of_nat (length ?p))"
  have "take n ?l = take (min n 4) (injector_stream C sk)"
    "?l @ take n ?p = take (4 + n) (injector_stream C sk)"
    for n
    by (simp_all add: injector_stream_def Let_def min_def)
  moreover have "\<exists>n. injector_stream C sk = take n (injector_stream C sk)"
    by (rule exI [of _ "length (injector_stream C sk)"]) simp
  ultimately show ?thesis
    using assms unfolding injector_main_def Let_def by (auto split: option.splits if_splits)
qed

text \<open>Whatever the outcome, the injector does not change the node it writes to.\<close>

lemma injector_harmless:
  assumes C: "g1_codec_laws C" and m: "injector_main C parse_addr e io sk = (res, Some (addr, bs))"
  shows "snd (handle_connection C h self_id bs ep) = ep"
proof -
  obtain n where bs: "bs = take n (injector_stream C sk)" using injector_writes_prefix [OF m] by blast
  note F = injector_frame [OF C, of sk]
  show ?thesis
  proof (cases "parse_frame bs")
    case (Inl e)
    then show ?thesis by (simp add: handle_connection_def)
  next
    case (Inr r)
    then have "fst r = phase_u8 PrePrepare"
      using parse_frame_prefix [of "tl (pm_to_bytes C (injected_proposal C sk))" n "phase_u8 PrePrepare" "fst r" "snd r"]
        F(2) by (simp add: bs F(1))
    then show ?thesis using Inr
      by (cases r) (simp add: handle_connection_def PACKET_TYPE_DKG_def PACKET_TYPE_PBFT_def PACKET_TYPE_VC_def)
  qed
qed

end
