(* ===== verification/Spec2Isabelle.thy ===== *)
theory Spec2Isabelle
  imports Consensus_Guarantees Log_Guarantees Key_Guarantees Evidence_Guarantees Control_Guarantees
    Sharing_Guarantees Deployment_Guarantees View_Guarantees Test_Guarantees Store_Tests Evidence_Tests Harness
begin

text \<open>
  Verification of the Rust engine of the Sovereign Lattice (\<open>src/rust_engine/src\<close>).

  The program. A node (\<open>main.rs\<close>) reads its configuration from the environment, deals shares of a
  random polynomial to its peers (\<open>dkg.rs\<close>), collects theirs until a deadline, derives its
  secret share, the master key and the registry of public keys, and starts a PBFT replica
  (\<open>pbft.rs\<close>). The replica accepts signed messages of five phases, forms prepared and commit
  certificates checked by threshold BLS signatures (\<open>threshold_bls.rs\<close>), changes views on a quorum
  of view-change votes, and records every acknowledged message in a write-ahead log (\<open>wal.rs\<close>)
  that it replays at construction and prunes at checkpoints. \<open>network.rs\<close> frames the messages,
  limits the connections, and answers proposals and certificates with the node's own votes.
  Beside the node stand the attestation modules (\<open>signed_package_root.rs\<close>,
  \<open>assurance_attestation.rs\<close>, \<open>repair_attestation.rs\<close>), and modules the crate does not compile:
  \<open>epoch.rs\<close>, \<open>quorum_tracker.rs\<close>, \<open>pbft_state.rs\<close>, \<open>consensus_engine.rs\<close>, \<open>feldman_dkg.rs\<close>,
  \<open>Dkg/\<close>, \<open>schnorr_proof.rs\<close>, \<open>frost_sim.rs\<close>, \<open>async_runtime.rs\<close>.

  Theories and what they model.
  \<^item> \<open>Prelude\<close>: words, results, big-endian bytes, hash maps and sets as finite maps and sets; the
    interfaces \<open>step_system\<close> (an invariant of a run) and \<open>quorum_rule\<close> (overlap of quorums).
  \<^item> \<open>Curve\<close>: the record of operations of the crates bls12_381, ff and group, which are not in the
    repository, with their laws as named predicates; the polynomial loops; Lagrange interpolation.
  \<^item> \<open>Threshold_Bls\<close>: \<open>threshold_bls.rs\<close>. \<open>Wire\<close>: \<open>PbftMessage\<close> and \<open>ViewChangePayload\<close> with the
    interface \<open>fixed_codec\<close>. \<open>Wal\<close>: \<open>wal.rs\<close> over a file with visible and synced bytes, with the
    interface \<open>append_log\<close>. \<open>Dkg\<close>: \<open>dkg.rs\<close>.
  \<^item> \<open>Pbft_Certs\<close> and \<open>Pbft_Node\<close>: certificates, their selection, and \<open>handle_message\<close> with one
    definition per phase, snapshot and rollback. \<open>Pbft_Recovery\<close>: \<open>new_with_wal_path\<close> row by row.
  \<^item> \<open>Pbft_Inv\<close>, \<open>Pbft_Handler\<close>, \<open>Pbft_Durability\<close>, \<open>Pbft_Crash\<close>, \<open>Pbft_Safety\<close>, \<open>Pbft_Round\<close>,
    \<open>Pbft_View_Change\<close>: the invariant of a replica and its preservation, the branches of the handler,
    the correspondence of log and state, what a crash leaves and recovery makes of it, the overlap of
    certificates, the votes of one round and those of a view change.
  \<^item> \<open>Network\<close>: \<open>network.rs\<close>, with the interface \<open>step_system\<close> for the listener. \<open>Bootstrap\<close>,
    \<open>Launch\<close>, \<open>Node\<close>: \<open>main.rs\<close>, as the functions it is made of and as a process whose events
    interleave its main task with the connections of its listener.
  \<^item> \<open>Cluster\<close>: replicas of one configuration joined by a network that delivers any genuine message
    to anyone at any time. \<open>Deployment\<close>: replicas joined by their own broadcasters and connection
    handlers, byte for byte, with sends that fail part way. \<open>Cluster_Round\<close>, \<open>Started_Cluster\<close>: a
    round of such replicas, and the processes that start, exchange their shares and run it.
  \<^item> \<open>Text\<close>, \<open>Attestation\<close>: the attestation modules. \<open>Epoch\<close>, \<open>Vote_Tracker\<close>, \<open>Joint_Feldman\<close>,
    \<open>Frost\<close>, \<open>Harness\<close>: the modules outside the crate and the injector.
  \<^item> \<open>Samples\<close>: concrete configurations; \<open>Consensus_Guarantees\<close>, \<open>Log_Guarantees\<close>, \<open>Key_Guarantees\<close>,
    \<open>Evidence_Guarantees\<close>, \<open>Control_Guarantees\<close>, \<open>Sharing_Guarantees\<close>, \<open>Deployment_Guarantees\<close>,
    \<open>View_Guarantees\<close>: the properties, each with a concrete instance.
  \<^item> \<open>Test_Kit\<close>, \<open>Replica_Tests\<close>, \<open>Integration_Tests\<close>, \<open>Store_Tests\<close>, \<open>Evidence_Tests\<close>: the unit and
    integration tests of the engine, each a definition under its name; \<open>Test_Guarantees\<close>: what they
    show, for every draw of their keys.

  Correspondence. Integers keep their width and wrap as in the release profile. A struct is a
  record, an enum a datatype, an error string a constructor of its name. A function that changes
  state returns the new state; a panic is an error value or \<open>None\<close>. Every system call
  takes its outcome from a record of outcomes, so that a theorem holds for all of them: a failed
  write may leave any prefix, a crash any image between the synced and the visible bytes. A crash in
  the middle of an append is the append that stopped at that byte; a crash loses bytes from the end
  of the file only, and keeps the file itself even when its directory was not synced. Hash maps are
  iterated in key order where the code iterates; the results do not depend on it, but for the digest
  of a view-change quorum, which is unique when it exists.

  What the lemmas show. Consensus: agreement within a view above the stable checkpoints, validity of
  recorded certificates in every run, liveness of a round, accountability of conflicting
  certificates, the certification of installed views and of stable checkpoints, unreachable errors,
  and one limit: a view change that selects a committed digest does not stop the replica from
  committing any other digest at that sequence in the new view. Deployment: processes that start
  from their environment on empty logs and receive each other's shares all serve, with keys on one
  polynomial, and commit a proposal over the byte transport; in every interleaving a process is
  silent until it installs what \<open>bootstrap\<close> returns; the listener serves what it
  admits; and two limits, that \<open>f\<close> silent replicas stop the others, since a replica
  never hears its own vote, and that repeated shares fill a channel nobody reads and stop a node.
  Log: acknowledgement means a synced row; before the first stable checkpoint, recovery from any
  crash image returns the state that was acknowledged, or that with the one message whose append was
  cut short, or fails when the image ends in a part of a row; pruning is atomic, and the decoders
  invert the encoders. Keys: shares, master key and registry are values of one polynomial, threshold
  signatures are complete and sound, the three verifiers of shares agree, but for the number of
  commitments that only one of them checks. Evidence: roots and attestations determine what they
  cover, up to collisions of the inputs named. Control: quorums of an epoch overlap, as far as its
  power covers its validators, a quorum is signalled once, locks keep prepared digests together.
  Tests: the model passes the tests of the engine, which is evidence that it behaves as the code
  does on their inputs; where a test passes or fails for a reason of its own, a lemma says so: the
  replicas of one process share a log, so that two tests disturb each other, and the test of an
  equivocating dealer passes without an equivocation.

  Bounds. No fuel is used: every loop of the model ends, by the length of its input, of the log, or
  of the list of events. The events of the collection stand for what the channel delivers, the
  deadline and the closing of the channel; a list that runs out before the loop has ended is the
  result of its own, \<open>STILL_WAITING\<close>, which no property takes for an outcome of the code. Progress of
  a process is stated at rest: every connection is served and a turn of the main task changes
  nothing; \<open>turns_rest\<close> shows that turns reach this, \<open>rested_run_exists\<close> that runs do.

  Not modelled: the back pressure of the channel of votes (a message is handled in one step, as under
  the lock, and its answer is queued; the channel of shares has its capacity), the clock (the end of a
  pause and a deadline are events that come at any time), logging, the parser of socket addresses (a
  parameter), the names of temporary files in the tests, the curve, SHA-256 and Ed25519 (parameters,
  so that a test that compares with a frozen digest is reduced to a statement about SHA-256), and
  \<open>tests/byzantine_cluster.rs\<close>, whose types no file defines. The other languages of the repository
  are out of scope.
\<close>

end
